(* ===== verification/Prelude.thy ===== *)
theory Prelude
  imports Main "HOL-Library.Word" "HOL-Library.Char_ord" "HOL-Library.List_Lexorder"
    "HOL-Library.Sublist"
begin

text \<open>
  The vocabulary the component theories share.

  \<^item> Machine types: a Rust \<open>u64\<close> is a \<open>64 word\<close>, an \<open>i64\<close> or \<open>i32\<close> is an
    \<open>int\<close> whose range checks and wrap-around are written out, \<open>usize\<close> is a \<open>nat\<close>.
  \<^item> Bytes and strings: a byte is a \<open>char\<close>, so that a Rust \<open>Vec<u8>\<close> and the UTF-8
    bytes of a Rust \<open>str\<close> are both \<open>char list\<close>; the order on them is the
    lexicographic byte order the code relies on.
  \<^item> The standard-library string operations the sources call.
  \<^item> Big-endian digits, shared by the Crockford Base32 epochs and by the eight-byte
    sequence numbers of the key layout.
  \<^item> Fallible stateful operations, their composition, and a small Hoare layer.
  \<^item> The interface \<open>codec\<close> of an encoder with its parser, and \<open>ordered_codec\<close> for
    one that also keeps the order.
\<close>

section \<open>Collections and types\<close>

named_theorems op_simps \<open>one-step evaluation of fallible stateful operations\<close>
named_theorems spec_rules \<open>rules of the Hoare layer\<close>

type_synonym bytes = "char list"
type_synonym u64 = "64 word"
type_synonym i64 = int
type_synonym i32 = int

definition i64_max :: int where
  "i64_max = 2 ^ 63 - 1"

definition i64_min :: int where
  "i64_min = - (2 ^ 63)"

definition in_i64 :: "int \<Rightarrow> bool" where
  "in_i64 i \<longleftrightarrow> i64_min \<le> i \<and> i \<le> i64_max"

definition in_i32 :: "int \<Rightarrow> bool" where
  "in_i32 i \<longleftrightarrow> - (2 ^ 31) \<le> i \<and> i \<le> 2 ^ 31 - 1"

text \<open>\<open>i64::checked_add\<close>: \<open>None\<close> when the sum does not fit.\<close>

definition i64_checked_add :: "int \<Rightarrow> int \<Rightarrow> int option" where
  "i64_checked_add a b = (if in_i64 (a + b) then Some (a + b) else None)"

section \<open>Rust string operations\<close>

definition strip_prefix :: "bytes \<Rightarrow> bytes \<Rightarrow> bytes option" where
  "strip_prefix p s = (if prefix p s then Some (drop (length p) s) else None)"

definition strip_suffix :: "bytes \<Rightarrow> bytes \<Rightarrow> bytes option" where
  "strip_suffix p s = (if suffix p s then Some (take (length s - length p) s) else None)"

text \<open>\<open>str::rsplit_once\<close>: split at the last occurrence of the pattern.\<close>

fun rsplit_once :: "bytes \<Rightarrow> bytes \<Rightarrow> (bytes \<times> bytes) option" where
  "rsplit_once p [] = (if p = [] then Some ([], []) else None)"
| "rsplit_once p (c # s) =
     (case rsplit_once p s of
        Some (a, b) \<Rightarrow> Some (c # a, b)
      | None \<Rightarrow> (if prefix p (c # s) then Some ([], drop (length p) (c # s)) else None))"

text \<open>\<open>str::split_once\<close> at a character: split at its first occurrence.\<close>

fun split_once :: "char \<Rightarrow> bytes \<Rightarrow> (bytes \<times> bytes) option" where
  "split_once d [] = None"
| "split_once d (c # s) =
     (if c = d then Some ([], s)
      else case split_once d s of None \<Rightarrow> None | Some (a, b) \<Rightarrow> Some (c # a, b))"

text \<open>\<open>str::split\<close> at a character: the components, at least one.\<close>

fun split_char :: "char \<Rightarrow> bytes \<Rightarrow> bytes list" where
  "split_char d [] = [[]]"
| "split_char d (c # s) =
     (if c = d then [] # split_char d s
      else case split_char d s of [] \<Rightarrow> [[c]] | w # ws \<Rightarrow> (c # w) # ws)"

lemma strip_prefix_append [simp]: "strip_prefix p (p @ s) = Some s"
  by (simp add: strip_prefix_def)

lemma strip_prefix_Some: "strip_prefix p s = Some r \<longleftrightarrow> s = p @ r"
  by (auto simp: strip_prefix_def prefix_def)

lemma strip_prefix_None: "strip_prefix p s = None \<longleftrightarrow> \<not> prefix p s"
  by (simp add: strip_prefix_def)

lemma strip_suffix_append [simp]: "strip_suffix p (s @ p) = Some s"
  by (simp add: strip_suffix_def suffix_def)

lemma rsplit_once_Some: "rsplit_once p s = Some (a, b) \<Longrightarrow> s = a @ p @ b"
proof (induction s arbitrary: a b)
  case Nil
  then show ?case by (simp split: if_splits)
next
  case (Cons c s)
  show ?case
  proof (cases "rsplit_once p s")
    case None
    with Cons.prems have "prefix p (c # s)" "a = []" "b = drop (length p) (c # s)"
      by (auto split: if_splits)
    then show ?thesis by (auto elim: prefixE)
  next
    case (Some ab)
    with Cons show ?thesis by (cases ab) auto
  qed
qed

lemma rsplit_once_None:
  "rsplit_once p s = None \<longleftrightarrow> \<not> (\<exists>a b. s = a @ p @ b)"
proof (induction s)
  case Nil
  then show ?case by simp
next
  case (Cons c s)
  have "(\<exists>a b. c # s = a @ p @ b) \<longleftrightarrow> prefix p (c # s) \<or> (\<exists>a b. s = a @ p @ b)"
    (is "?L \<longleftrightarrow> ?R")
  proof
    assume ?L
    then obtain a b where "c # s = a @ p @ b" by blast
    then show ?R by (cases a) (auto simp: prefix_def)
  next
    assume ?R
    then show ?L by (metis append_Cons append_Nil prefix_def)
  qed
  with Cons show ?case by (auto split: option.splits)
qed

text \<open>The split is at the given place when the pattern does not occur after it.\<close>

lemma rsplit_once_last:
  assumes p: "p = q # qs" and free: "\<not> (\<exists>a b'. qs @ b = a @ p @ b')"
  shows "rsplit_once p (a @ p @ b) = Some (a, b)"
proof (induction a)
  case Nil
  from free have "rsplit_once p (qs @ b) = None" by (simp add: rsplit_once_None)
  then show ?case by (simp add: p)
next
  case (Cons c a)
  then show ?case by simp
qed

lemma split_once_Some:
  "split_once d s = Some (a, b) \<longleftrightarrow> s = a @ d # b \<and> d \<notin> set a"
proof (induction s arbitrary: a)
  case Nil
  then show ?case by simp
next
  case (Cons c s)
  show ?case
  proof (cases "c = d")
    case True
    then show ?thesis by (cases a) auto
  next
    case False
    then show ?thesis
      by (cases a; cases "split_once d s") (use Cons.IH in auto)
  qed
qed

lemma split_once_None: "split_once d s = None \<longleftrightarrow> d \<notin> set s"
  by (induction s) (auto split: option.splits)

lemma split_char_ne [simp]: "split_char d s \<noteq> []"
  by (induction s) (auto split: list.splits)

lemma split_char_Cons_other:
  "c \<noteq> d \<Longrightarrow> split_char d (c # s) = (c # hd (split_char d s)) # tl (split_char d s)"
  by (cases "split_char d s") auto

lemma set_split_char:
  "w \<in> set (split_char d s) \<Longrightarrow> d \<notin> set w"
proof (induction s arbitrary: w)
  case Nil
  then show ?case by simp
next
  case (Cons c s)
  show ?case
  proof (cases "c = d")
    case True
    with Cons show ?thesis by auto
  next
    case False
    then have "split_char d (c # s) = (c # hd (split_char d s)) # tl (split_char d s)"
      by (rule split_char_Cons_other)
    moreover have "hd (split_char d s) \<in> set (split_char d s)" by simp
    moreover have "set (tl (split_char d s)) \<subseteq> set (split_char d s)"
      by (auto dest: list.set_sel(2) [rotated])
    ultimately show ?thesis using Cons False by auto
  qed
qed

lemma split_char_append:
  "split_char d (a @ d # b) = split_char d a @ split_char d b"
proof (induction a)
  case Nil
  then show ?case by simp
next
  case (Cons c a)
  show ?case
  proof (cases "c = d")
    case True
    with Cons show ?thesis by simp
  next
    case False
    with Cons show ?thesis
      by (simp add: split_char_Cons_other hd_append tl_append split: list.splits)
  qed
qed

lemma split_char_free: "d \<notin> set s \<Longrightarrow> split_char d s = [s]"
  by (induction s) auto

subsection \<open>UTF-8\<close>

text \<open>\<open>str::from_utf8\<close>: the well-formed byte sequences, as the standard library checks them.\<close>

definition byte :: "char \<Rightarrow> nat" where
  "byte c = of_char c"

definition byte_in :: "nat \<Rightarrow> nat \<Rightarrow> char \<Rightarrow> bool" where
  "byte_in lo hi c \<longleftrightarrow> lo \<le> byte c \<and> byte c \<le> hi"

text \<open>The ranges of the bytes that must follow a leading byte, if it can lead.\<close>

definition utf8_lead :: "char \<Rightarrow> (nat \<times> nat) list option" where
  "utf8_lead a =
     (if byte a < 0x80 then Some []
      else if byte_in 0xC2 0xDF a then Some [(0x80, 0xBF)]
      else if byte a = 0xE0 then Some [(0xA0, 0xBF), (0x80, 0xBF)]
      else if byte a = 0xED then Some [(0x80, 0x9F), (0x80, 0xBF)]
      else if byte_in 0xE1 0xEF a then Some [(0x80, 0xBF), (0x80, 0xBF)]
      else if byte a = 0xF0 then Some [(0x90, 0xBF), (0x80, 0xBF), (0x80, 0xBF)]
      else if byte a = 0xF4 then Some [(0x80, 0x8F), (0x80, 0xBF), (0x80, 0xBF)]
      else if byte_in 0xF1 0xF3 a then Some [(0x80, 0xBF), (0x80, 0xBF), (0x80, 0xBF)]
      else None)"

fun utf8_run :: "(nat \<times> nat) list \<Rightarrow> bytes \<Rightarrow> bool" where
  "utf8_run rs [] \<longleftrightarrow> rs = []"
| "utf8_run [] (a # s) \<longleftrightarrow> (case utf8_lead a of None \<Rightarrow> False | Some rs \<Rightarrow> utf8_run rs s)"
| "utf8_run (r # rs) (a # s) \<longleftrightarrow> byte_in (fst r) (snd r) a \<and> utf8_run rs s"

definition utf8_valid :: "bytes \<Rightarrow> bool" where
  "utf8_valid s = utf8_run [] s"

definition from_utf8 :: "bytes \<Rightarrow> bytes option" where
  "from_utf8 s = (if utf8_valid s then Some s else None)"

lemma utf8_run_append: "utf8_run rs a \<Longrightarrow> utf8_run [] b \<Longrightarrow> utf8_run rs (a @ b)"
  by (induction rs a rule: utf8_run.induct) (auto split: option.splits)

lemma utf8_valid_append: "utf8_valid a \<Longrightarrow> utf8_valid b \<Longrightarrow> utf8_valid (a @ b)"
  by (simp add: utf8_valid_def utf8_run_append)

text \<open>An ASCII byte is never inside a character, so a valid text can be cut there.\<close>

lemma utf8_lead_high: "utf8_lead a = Some rs \<Longrightarrow> r \<in> set rs \<Longrightarrow> 0x80 \<le> fst r"
  by (auto simp: utf8_lead_def split: if_splits)

lemma utf8_run_cut:
  assumes "byte c < 0x80"
  shows "\<forall>r \<in> set rs. 0x80 \<le> fst r \<Longrightarrow>
    utf8_run rs (a @ c # b) \<longleftrightarrow> utf8_run rs a \<and> utf8_run [] b"
proof (induction rs a rule: utf8_run.induct)
  case (1 rs)
  then show ?case using assms by (cases rs) (auto simp: utf8_lead_def byte_in_def)
next
  case (2 a s)
  then show ?case by (auto dest: utf8_lead_high split: option.splits)
next
  case (3 r rs a s)
  then show ?case by auto
qed

lemma utf8_valid_cut:
  "byte c < 0x80 \<Longrightarrow> utf8_valid (a @ c # b) \<longleftrightarrow> utf8_valid a \<and> utf8_valid b"
  unfolding utf8_valid_def by (rule utf8_run_cut) auto

lemma utf8_ascii: "\<forall>c \<in> set s. byte c < 0x80 \<Longrightarrow> utf8_valid s"
  unfolding utf8_valid_def by (induction s) (auto simp: utf8_lead_def)

text \<open>Lexicographic order: a common suffix of two equally long lists does not matter.\<close>

lemma list_less_append_same:
  "length a = length b \<Longrightarrow> a @ c < b @ c \<longleftrightarrow> a < (b :: 'a::linorder list)"
  by (induction a b rule: list_induct2) auto

lemma list_less_prepend [simp]: "c @ a < c @ b \<longleftrightarrow> a < (b :: 'a::linorder list)"
  by (induction c) auto

section \<open>Big-endian digits\<close>

fun be_digits :: "nat \<Rightarrow> nat \<Rightarrow> nat \<Rightarrow> nat list" where
  "be_digits b 0 v = []"
| "be_digits b (Suc n) v = (v div b ^ n) mod b # be_digits b n v"

definition be_value :: "nat \<Rightarrow> nat list \<Rightarrow> nat" where
  "be_value b ds = foldl (\<lambda>acc d. acc * b + d) 0 ds"

lemma length_be_digits [simp]: "length (be_digits b n v) = n"
  by (induction n) auto

lemma be_digits_bound: "0 < b \<Longrightarrow> d \<in> set (be_digits b n v) \<Longrightarrow> d < b"
  by (induction n) auto

lemma be_value_acc:
  "foldl (\<lambda>acc d. acc * b + d) a ds
     = a * b ^ length ds + foldl (\<lambda>acc d. acc * b + d) (0::nat) ds"
proof (induction ds arbitrary: a)
  case Nil
  then show ?case by simp
next
  case (Cons d ds)
  have "foldl (\<lambda>acc d. acc * b + d) (a * b + d) ds
      = (a * b + d) * b ^ length ds + foldl (\<lambda>acc d. acc * b + d) 0 ds"
    by (rule Cons.IH)
  moreover have "foldl (\<lambda>acc d. acc * b + d) d ds
      = d * b ^ length ds + foldl (\<lambda>acc d. acc * b + d) 0 ds"
    by (rule Cons.IH)
  ultimately show ?case by (simp add: algebra_simps)
qed

lemma be_value_Nil [simp]: "be_value b [] = 0"
  by (simp add: be_value_def)

lemma be_value_Cons: "be_value b (d # ds) = d * b ^ length ds + be_value b ds"
  unfolding be_value_def using be_value_acc [of b d ds] by simp

lemma be_value_snoc: "be_value b (ds @ [d]) = be_value b ds * b + d"
  by (simp add: be_value_def)

lemma be_value_bound:
  "\<forall>d \<in> set ds. d < b \<Longrightarrow> be_value b ds < b ^ length ds"
proof (induction ds)
  case Nil
  then show ?case by simp
next
  case (Cons d ds)
  then have "be_value b ds < b ^ length ds" and "Suc d \<le> b" by auto
  then have "d * b ^ length ds + be_value b ds < Suc d * b ^ length ds" by simp
  also have "\<dots> \<le> b * b ^ length ds"
    using \<open>Suc d \<le> b\<close> by (rule mult_le_mono1)
  finally show ?case by (simp add: be_value_Cons)
qed

lemma be_value_digits: "be_value b (be_digits b n v) = v mod b ^ n"
proof (induction n)
  case 0
  then show ?case by simp
next
  case (Suc n)
  have "v mod (b ^ n * b) = b ^ n * (v div b ^ n mod b) + v mod b ^ n"
    by (rule mod_mult2_eq)
  with Suc show ?case by (simp add: be_value_Cons mult.commute)
qed

lemma be_digits_value:
  "\<forall>d \<in> set ds. d < b \<Longrightarrow> be_digits b (length ds) (be_value b ds) = ds"
proof (induction ds)
  case Nil
  then show ?case by simp
next
  case (Cons d ds)
  then have lt: "be_value b ds < b ^ length ds" and d: "d < b"
    by (auto intro: be_value_bound)
  have shift: "be_digits b n (x * b ^ m + y) = be_digits b n y" if "n \<le> m" for n m x y
    using that
  proof (induction n)
    case 0
    then show ?case by simp
  next
    case (Suc n)
    have b0: "b ^ n > 0" using d by simp
    have "b ^ m = b ^ (n + Suc (m - Suc n))" using Suc.prems by simp
    also have "\<dots> = b ^ n * (b * b ^ (m - Suc n))" by (simp add: power_add)
    finally have "x * b ^ m + y = y + b ^ n * (b * (x * b ^ (m - Suc n)))"
      by (simp only: ac_simps)
    moreover have "(y + b ^ n * (b * (x * b ^ (m - Suc n)))) div b ^ n
        = b * (x * b ^ (m - Suc n)) + y div b ^ n"
      using b0 by (intro div_mult_self2) simp
    ultimately have "(x * b ^ m + y) div b ^ n = b * (x * b ^ (m - Suc n)) + y div b ^ n"
      by (simp only:)
    then have "(x * b ^ m + y) div b ^ n mod b = y div b ^ n mod b" by simp
    with Suc show ?case by simp
  qed
  have "be_digits b (length ds) (d * b ^ length ds + be_value b ds)
      = be_digits b (length ds) (be_value b ds)"
    by (rule shift) simp
  moreover have "(d * b ^ length ds + be_value b ds) div b ^ length ds mod b = d"
    using lt d by simp
  ultimately show ?case using Cons by (simp add: be_value_Cons)
qed

text \<open>Big-endian digits of a fixed width keep the order.\<close>

lemma be_digits_less:
  assumes "0 < b"
  shows "v mod b ^ n < w mod b ^ n \<Longrightarrow> be_digits b n v < be_digits b n w"
proof (induction n)
  case 0
  then show ?case by simp
next
  case (Suc n)
  let ?dv = "v div b ^ n mod b" and ?dw = "w div b ^ n mod b"
  have split: "x mod b ^ Suc n = b ^ n * (x div b ^ n mod b) + x mod b ^ n" for x
    by (metis mod_mult2_eq mult.commute power_Suc)
  have bnd: "x mod b ^ n < b ^ n" for x using assms by simp
  have "?dv < ?dw \<or> (?dv = ?dw \<and> v mod b ^ n < w mod b ^ n)"
  proof (cases "?dv < ?dw")
    case True
    then show ?thesis by simp
  next
    case False
    then have "?dw \<le> ?dv" by simp
    then have le: "b ^ n * ?dw \<le> b ^ n * ?dv" by simp
    show ?thesis
    proof (cases "?dw = ?dv")
      case True
      with Suc.prems split [of v] split [of w] show ?thesis by simp
    next
      case False
      with \<open>?dw \<le> ?dv\<close> have "Suc ?dw \<le> ?dv" by simp
      then have "b ^ n * Suc ?dw \<le> b ^ n * ?dv" by (rule mult_le_mono2)
      with Suc.prems split [of v] split [of w] bnd [of w] show ?thesis by simp
    qed
  qed
  with Suc.IH show ?case by auto
qed

section \<open>Interface: encoders with a parser\<close>

locale codec =
  fixes enc :: "'a \<Rightarrow> 'b" and dec :: "'b \<Rightarrow> 'a option" and valid :: "'a \<Rightarrow> bool"
  assumes dec_enc: "valid x \<Longrightarrow> dec (enc x) = Some x"
begin

lemma enc_eq_iff: "valid x \<Longrightarrow> valid y \<Longrightarrow> enc x = enc y \<longleftrightarrow> x = y"
  by (metis dec_enc option.inject)

lemma enc_inj_on: "inj_on enc {x. valid x}"
  by (rule inj_onI) (simp add: enc_eq_iff)

end

locale ordered_codec = codec enc dec valid
  for enc :: "'a::linorder \<Rightarrow> 'b::linorder" and dec and valid +
  assumes enc_mono: "valid x \<Longrightarrow> valid y \<Longrightarrow> x < y \<Longrightarrow> enc x < enc y"
begin

lemma enc_less_iff: "valid x \<Longrightarrow> valid y \<Longrightarrow> enc x < enc y \<longleftrightarrow> x < y"
  by (metis enc_mono less_asym linorder_neqE)

lemma enc_le_iff: "valid x \<Longrightarrow> valid y \<Longrightarrow> enc x \<le> enc y \<longleftrightarrow> x \<le> y"
  by (meson enc_less_iff linorder_not_le)

end

section \<open>Fallible operations on a state\<close>

text \<open>
  An operation takes the state and returns an error or a value, together with the state
  it leaves behind: an error path keeps the effects made before it, as the code does.
\<close>

type_synonym ('s, 'e, 'a) op = "'s \<Rightarrow> ('e + 'a) \<times> 's"

definition ok :: "'a \<Rightarrow> ('s, 'e, 'a) op" where
  "ok x s = (Inr x, s)"

definition err :: "'e \<Rightarrow> ('s, 'e, 'a) op" where
  "err e s = (Inl e, s)"

definition lift_res :: "'e + 'a \<Rightarrow> ('s, 'e, 'a) op" where
  "lift_res r s = (r, s)"

definition bnd :: "('s, 'e, 'a) op \<Rightarrow> ('a \<Rightarrow> ('s, 'e, 'b) op) \<Rightarrow> ('s, 'e, 'b) op" where
  "bnd m f s = (case m s of (Inl e, t) \<Rightarrow> (Inl e, t) | (Inr x, t) \<Rightarrow> f x t)"

definition get_st :: "('s \<Rightarrow> 'a) \<Rightarrow> ('s, 'e, 'a) op" where
  "get_st f s = (Inr (f s), s)"

definition mod_st :: "('s \<Rightarrow> 's) \<Rightarrow> ('s, 'e, unit) op" where
  "mod_st f s = (Inr (), f s)"

definition rbind :: "'e + 'a \<Rightarrow> ('a \<Rightarrow> 'e + 'b) \<Rightarrow> 'e + 'b" where
  "rbind r f = (case r of Inl e \<Rightarrow> Inl e | Inr x \<Rightarrow> f x)"

lemma ok_app [op_simps]: "ok x s = (Inr x, s)"
  by (simp add: ok_def)

lemma err_app [op_simps]: "err e s = (Inl e, s)"
  by (simp add: err_def)

lemma lift_res_app [op_simps]: "lift_res r s = (r, s)"
  by (simp add: lift_res_def)

lemma get_st_app [op_simps]: "get_st f s = (Inr (f s), s)"
  by (simp add: get_st_def)

lemma mod_st_app [op_simps]: "mod_st f s = (Inr (), f s)"
  by (simp add: mod_st_def)

lemma bnd_Inl [op_simps]: "m s = (Inl e, t) \<Longrightarrow> bnd m f s = (Inl e, t)"
  by (simp add: bnd_def)

lemma bnd_Inr [op_simps]: "m s = (Inr x, t) \<Longrightarrow> bnd m f s = f x t"
  by (simp add: bnd_def)

lemma bnd_InrE:
  assumes "bnd m f s = (Inr y, u)"
  obtains x t where "m s = (Inr x, t)" and "f x t = (Inr y, u)"
  using assms by (auto simp: bnd_def split: prod.splits sum.splits)

lemma rbind_simps [simp]:
  "rbind (Inl e) f = Inl e"
  "rbind (Inr x) f = f x"
  by (simp_all add: rbind_def)

lemma rbind_Inr: "rbind r f = Inr y \<longleftrightarrow> (\<exists>x. r = Inr x \<and> f x = Inr y)"
  by (cases r) auto

subsection \<open>Hoare triples\<close>

text \<open>
  \<open>spec P m Q E\<close>: from a state satisfying \<open>P\<close>, \<open>m\<close> returns a value and a state
  satisfying \<open>Q\<close>, or an error and a state satisfying \<open>E\<close>.
\<close>

definition spec ::
  "('s \<Rightarrow> bool) \<Rightarrow> ('s, 'e, 'a) op \<Rightarrow> ('a \<Rightarrow> 's \<Rightarrow> bool) \<Rightarrow> ('e \<Rightarrow> 's \<Rightarrow> bool) \<Rightarrow> bool" where
  "spec P m Q E \<longleftrightarrow>
     (\<forall>s. P s \<longrightarrow> (case m s of (Inr x, t) \<Rightarrow> Q x t | (Inl e, t) \<Rightarrow> E e t))"

lemma specI:
  "(\<And>s x t. P s \<Longrightarrow> m s = (Inr x, t) \<Longrightarrow> Q x t) \<Longrightarrow>
   (\<And>s e t. P s \<Longrightarrow> m s = (Inl e, t) \<Longrightarrow> E e t) \<Longrightarrow> spec P m Q E"
  unfolding spec_def by (auto split: prod.splits sum.splits)

lemma spec_InrD: "spec P m Q E \<Longrightarrow> P s \<Longrightarrow> m s = (Inr x, t) \<Longrightarrow> Q x t"
  unfolding spec_def by fastforce

lemma spec_InlD: "spec P m Q E \<Longrightarrow> P s \<Longrightarrow> m s = (Inl e, t) \<Longrightarrow> E e t"
  unfolding spec_def by fastforce

lemma spec_ok [spec_rules]: "(\<And>s. P s \<Longrightarrow> Q x s) \<Longrightarrow> spec P (ok x) Q E"
  by (simp add: spec_def ok_def)

lemma spec_err [spec_rules]: "(\<And>s. P s \<Longrightarrow> E e s) \<Longrightarrow> spec P (err e) Q E"
  by (simp add: spec_def err_def)

lemma spec_lift [spec_rules]:
  "(\<And>s x. P s \<Longrightarrow> r = Inr x \<Longrightarrow> Q x s) \<Longrightarrow> (\<And>s e. P s \<Longrightarrow> r = Inl e \<Longrightarrow> E e s) \<Longrightarrow>
   spec P (lift_res r) Q E"
  by (cases r) (simp_all add: spec_def lift_res_def)

lemma spec_get_st [spec_rules]: "(\<And>s. P s \<Longrightarrow> Q (f s) s) \<Longrightarrow> spec P (get_st f) Q E"
  by (simp add: spec_def get_st_def)

lemma spec_mod_st [spec_rules]: "(\<And>s. P s \<Longrightarrow> Q () (f s)) \<Longrightarrow> spec P (mod_st f) Q E"
  by (simp add: spec_def mod_st_def)

lemma spec_bnd:
  assumes "spec P m R E" and "\<And>x. spec (R x) (f x) Q E"
  shows "spec P (bnd m f) Q E"
  using assms unfolding spec_def bnd_def by (fastforce split: prod.splits sum.splits)

lemma spec_conseq:
  assumes "spec P m Q E"
    and "\<And>s. P' s \<Longrightarrow> P s" and "\<And>x s. Q x s \<Longrightarrow> Q' x s" and "\<And>e s. E e s \<Longrightarrow> E' e s"
  shows "spec P' m Q' E'"
  using assms unfolding spec_def by (fastforce split: prod.splits sum.splits)

text \<open>\<open>keeps I m\<close>: the operation keeps \<open>I\<close>, whether it succeeds or fails.\<close>

definition keeps :: "('s \<Rightarrow> bool) \<Rightarrow> ('s, 'e, 'a) op \<Rightarrow> bool" where
  "keeps I m \<longleftrightarrow> (\<forall>s. I s \<longrightarrow> I (snd (m s)))"

lemma keepsI: "(\<And>s r t. I s \<Longrightarrow> m s = (r, t) \<Longrightarrow> I t) \<Longrightarrow> keeps I m"
  unfolding keeps_def by (metis prod.collapse)

lemma keepsD: "keeps I m \<Longrightarrow> I s \<Longrightarrow> m s = (r, t) \<Longrightarrow> I t"
  unfolding keeps_def by (metis snd_conv)

lemma keeps_ok [spec_rules]: "keeps I (ok x)"
  by (simp add: keeps_def ok_def)

lemma keeps_err [spec_rules]: "keeps I (err e)"
  by (simp add: keeps_def err_def)

lemma keeps_lift [spec_rules]: "keeps I (lift_res r)"
  by (simp add: keeps_def lift_res_def)

lemma keeps_get_st [spec_rules]: "keeps I (get_st f)"
  by (simp add: keeps_def get_st_def)

lemma keeps_bnd [spec_rules]:
  "keeps I m \<Longrightarrow> (\<And>x. keeps I (f x)) \<Longrightarrow> keeps I (bnd m f)"
  unfolding keeps_def bnd_def by (force split: prod.splits sum.splits)

lemma keeps_if [spec_rules]: "keeps I m \<Longrightarrow> keeps I n \<Longrightarrow> keeps I (if b then m else n)"
  by simp

lemma keeps_case_option [spec_rules]:
  "keeps I m \<Longrightarrow> (\<And>x. keeps I (f x)) \<Longrightarrow> keeps I (case v of None \<Rightarrow> m | Some x \<Rightarrow> f x)"
  by (cases v) auto

lemma keeps_case_sum [spec_rules]:
  "(\<And>e. keeps I (g e)) \<Longrightarrow> (\<And>x. keeps I (f x)) \<Longrightarrow>
   keeps I (case v of Inl e \<Rightarrow> g e | Inr x \<Rightarrow> f x)"
  by (cases v) auto

lemma keeps_case_prod [spec_rules]:
  "(\<And>a b. keeps I (f a b)) \<Longrightarrow> keeps I (case p of (a, b) \<Rightarrow> f a b)"
  by (cases p) auto

end
