(* ===== verification/Base32.thy ===== *)
theory Base32
  imports Prelude
begin

text \<open>
  The lock epochs: \<open>bepository-lock/src/base32.rs\<close> (Crockford Base32 of 40-bit values, in
  eight characters) and \<open>bepository-lock/src/epoch.rs\<close> (the epoch with its cached
  representation, used in file names and in inbox keys).  The lemmas show that the two
  loops are the big-endian digits of the value, hence the round trips and that the byte
  order of the text is the numeric order.
\<close>

unbundle bit_operations_syntax

section \<open>base32.rs\<close>

definition ALPHABET :: bytes where
  "ALPHABET = ''0123456789ABCDEFGHJKMNPQRSTVWXYZ''"

definition MAX_VAL :: u64 where
  "MAX_VAL = push_bit 40 1 - 1"

datatype base32_error = Overflow u64

fun to_base32_loop :: "nat \<Rightarrow> u64 \<Rightarrow> bytes \<Rightarrow> bytes" where
  "to_base32_loop 0 val s = s"
| "to_base32_loop (Suc n) val s =
     to_base32_loop n (drop_bit 5 val) (s @ [ALPHABET ! unat (val AND 0x1F)])"

definition to_base32 :: "u64 \<Rightarrow> base32_error + bytes" where
  "to_base32 val =
     (if val > MAX_VAL then Inl (Overflow val) else Inr (rev (to_base32_loop 8 val [])))"

text \<open>\<open>Iterator::position\<close>.\<close>

fun position :: "('a \<Rightarrow> bool) \<Rightarrow> 'a list \<Rightarrow> nat option" where
  "position f [] = None"
| "position f (x # xs) = (if f x then Some 0 else map_option Suc (position f xs))"

fun from_base32_loop :: "bytes \<Rightarrow> u64 \<Rightarrow> u64 option" where
  "from_base32_loop [] val = Some val"
| "from_base32_loop (c # cs) val =
     (case position (\<lambda>x. x = c) ALPHABET of
        None \<Rightarrow> None
      | Some idx \<Rightarrow> from_base32_loop cs (push_bit 5 val OR of_nat idx))"

definition from_base32 :: "bytes \<Rightarrow> u64 option" where
  "from_base32 s =
     (let s = (case strip_suffix ''.json'' s of Some t \<Rightarrow> t | None \<Rightarrow> s)
      in if length s \<noteq> 8 then None else from_base32_loop s 0)"

subsection \<open>The loops compute big-endian digits\<close>

lemma drop_bit_5_unat: "unat (drop_bit 5 (v::u64)) = unat v div 32"
  by (simp add: drop_bit_eq_div unat_div_distrib)

lemma and_1F_unat: "unat ((v::u64) AND 0x1F) = unat v mod 32"
proof -
  have "v AND 0x1F = take_bit 5 v"
    by (simp add: take_bit_eq_mask mask_eq_exp_minus_1)
  then show ?thesis by (simp add: take_bit_eq_mod unat_mod_distrib)
qed

lemma be_digits_snoc: "be_digits b (Suc n) v = be_digits b n (v div b) @ [v mod b]"
  by (induction n) (simp_all add: div_mult2_eq [symmetric] mult.commute)

lemma to_base32_loop_digits:
  "rev (to_base32_loop n v s) = map ((!) ALPHABET) (be_digits 32 n (unat v)) @ rev s"
proof (induction n arbitrary: v s)
  case 0
  then show ?case by simp
next
  case (Suc n)
  show ?case
    unfolding to_base32_loop.simps Suc.IH be_digits_snoc
    by (simp add: drop_bit_5_unat and_1F_unat)
qed

lemma MAX_VAL_unat: "unat MAX_VAL = 32 ^ 8 - 1"
  by (simp add: MAX_VAL_def)

lemma above_MAX_VAL: "MAX_VAL < v \<longleftrightarrow> 32 ^ 8 \<le> unat v"
  unfolding word_less_nat_alt MAX_VAL_unat by auto

lemma to_base32_digits:
  "to_base32 v =
     (if unat v < 32 ^ 8 then Inr (map ((!) ALPHABET) (be_digits 32 8 (unat v)))
      else Inl (Overflow v))"
  by (simp add: to_base32_def above_MAX_VAL to_base32_loop_digits)

lemma position_SomeD: "position f xs = Some i \<Longrightarrow> i < length xs \<and> f (xs ! i)"
  by (induction xs arbitrary: i) (auto split: if_splits)

lemma position_nth:
  "distinct xs \<Longrightarrow> i < length xs \<Longrightarrow> position (\<lambda>x. x = xs ! i) xs = Some i"
proof (induction xs arbitrary: i)
  case Nil
  then show ?case by simp
next
  case (Cons a xs)
  then show ?case by (cases i) (auto simp: in_set_conv_nth)
qed

lemma ALPHABET_length: "length ALPHABET = 32"
  by (simp add: ALPHABET_def)

lemma ALPHABET_distinct: "distinct ALPHABET"
  by (simp add: ALPHABET_def)

lemma ALPHABET_sorted: "sorted_wrt (<) ALPHABET"
  by (simp add: ALPHABET_def less_char_def)

lemma ALPHABET_position: "i < 32 \<Longrightarrow> position (\<lambda>x. x = ALPHABET ! i) ALPHABET = Some i"
  by (simp add: position_nth ALPHABET_distinct ALPHABET_length)

lemma shift_or_unat:
  assumes "unat (v::u64) < 32 ^ 8" and "i < 32"
  shows "unat (push_bit 5 v OR of_nat i) = unat v * 32 + i"
proof -
  have i: "unat (of_nat i :: u64) = i" using assms by (simp add: unat_of_nat)
  have p: "unat (push_bit 5 v) = unat v * 32"
    using assms unat_mult_lem [of v 32] by (simp add: push_bit_eq_mult)
  have "unat (push_bit 5 v OR of_nat i) = unat (push_bit 5 v) OR i"
    by (simp add: unsigned_or_eq i)
  also have "\<dots> = push_bit 5 (unat v) OR i" by (simp only: p) (simp add: push_bit_eq_mult)
  also have "\<dots> = push_bit 5 (unat v) + i"
  proof (rule disjunctive_add_eq_or [symmetric])
    have "i = take_bit 5 i" using assms by (simp add: take_bit_eq_mod)
    then have "\<not> (5 \<le> n \<and> bit i n)" for n by (metis bit_take_bit_iff not_le)
    then show "push_bit 5 (unat v) AND i = 0"
      by (intro bit_eqI) (auto simp: bit_and_iff bit_push_bit_iff)
  qed
  finally show ?thesis by (simp add: push_bit_eq_mult)
qed

text \<open>The digit values of a text, if all its characters are in the alphabet.\<close>

definition digit_values :: "bytes \<Rightarrow> nat list option" where
  "digit_values s =
     (if set s \<subseteq> set ALPHABET
      then Some (map (\<lambda>c. the (position (\<lambda>x. x = c) ALPHABET)) s) else None)"

lemma position_None: "position f xs = None \<longleftrightarrow> (\<forall>x \<in> set xs. \<not> f x)"
  by (induction xs) auto

lemma from_base32_loop_digits:
  "unat v * 32 ^ length s + 32 ^ length s \<le> 32 ^ 8 \<Longrightarrow>
   from_base32_loop s v =
     map_option (\<lambda>ds. of_nat (unat v * 32 ^ length s + be_value 32 ds)) (digit_values s)"
proof (induction s arbitrary: v)
  case Nil
  then show ?case by (simp add: digit_values_def)
next
  case (Cons c s)
  show ?case
  proof (cases "position (\<lambda>x. x = c) ALPHABET")
    case None
    then have "c \<notin> set ALPHABET" by (auto simp: position_None)
    with None show ?thesis by (simp add: digit_values_def)
  next
    case (Some i)
    then have i: "i < 32" and c: "c \<in> set ALPHABET"
      using position_SomeD [OF Some] ALPHABET_length by auto
    have "unat v * 1 \<le> unat v * 32 ^ length (c # s)" by (rule mult_le_mono2) simp
    moreover have "(0::nat) < 32 ^ length (c # s)" by simp
    ultimately have "unat v < 32 ^ 8" using Cons.prems by linarith
    then have step: "unat (push_bit 5 v OR of_nat i) = unat v * 32 + i"
      using i by (rule shift_or_unat)
    have "(unat v * 32 + i) * 32 ^ length s + 32 ^ length s
        = (unat v * 32 + Suc i) * 32 ^ length s" by simp
    also have "\<dots> \<le> (unat v * 32 + 32) * 32 ^ length s"
      using i by (intro mult_le_mono1) simp
    also have "\<dots> \<le> 32 ^ 8" using Cons.prems by (simp add: algebra_simps)
    finally have "from_base32_loop s (push_bit 5 v OR of_nat i)
        = map_option (\<lambda>ds. of_nat ((unat v * 32 + i) * 32 ^ length s + be_value 32 ds))
            (digit_values s)"
      using Cons.IH [of "push_bit 5 v OR of_nat i"] by (simp only: step)
    with Some c show ?thesis
      by (simp add: digit_values_def be_value_Cons algebra_simps)
  qed
qed

subsection \<open>Round trip and order\<close>

lemma nth_ALPHABET_in: "d < 32 \<Longrightarrow> ALPHABET ! d \<in> set ALPHABET"
  by (simp add: ALPHABET_length)

lemma digit_values_encode:
  "\<forall>d \<in> set ds. d < 32 \<Longrightarrow> digit_values (map ((!) ALPHABET) ds) = Some ds"
  by (induction ds) (auto simp: digit_values_def ALPHABET_position nth_ALPHABET_in)

lemma digit_values_SomeD:
  assumes "digit_values s = Some ds"
  shows "s = map ((!) ALPHABET) ds \<and> (\<forall>d \<in> set ds. d < 32)"
proof -
  from assms have sub: "set s \<subseteq> set ALPHABET"
    and ds: "ds = map (\<lambda>c. the (position (\<lambda>x. x = c) ALPHABET)) s"
    by (auto simp: digit_values_def split: if_splits)
  have "the (position (\<lambda>x. x = c) ALPHABET) < 32
      \<and> ALPHABET ! the (position (\<lambda>x. x = c) ALPHABET) = c" if "c \<in> set s" for c
  proof -
    from that sub obtain i where "i < 32" "c = ALPHABET ! i"
      by (auto simp: in_set_conv_nth ALPHABET_length subset_iff)
    then show ?thesis using ALPHABET_position [of i] by simp
  qed
  then show ?thesis by (auto simp: ds map_idI)
qed

lemma from_base32_loop_start:
  "length s = 8 \<Longrightarrow>
   from_base32_loop s 0 = map_option (\<lambda>ds. of_nat (be_value 32 ds)) (digit_values s)"
  using from_base32_loop_digits [of 0 s] by simp

lemma to_base32_InrD:
  assumes "to_base32 v = Inr s"
  shows "unat v < 32 ^ 8" "length s = 8" "set s \<subseteq> set ALPHABET"
    "s = map ((!) ALPHABET) (be_digits 32 8 (unat v))"
  using assms be_digits_bound [of 32 _ 8 "unat v"] nth_ALPHABET_in
  by (auto simp: to_base32_digits split: if_splits)

lemma from_base32_loop_iff:
  assumes "length s = 8"
  shows "from_base32_loop s 0 = Some v \<longleftrightarrow> to_base32 v = Inr s"
proof
  assume "from_base32_loop s 0 = Some v"
  then obtain ds where ds: "digit_values s = Some ds" and v: "v = of_nat (be_value 32 ds)"
    using assms by (auto simp: from_base32_loop_start)
  from digit_values_SomeD [OF ds] have s: "s = map ((!) ALPHABET) ds"
    and b: "\<forall>d \<in> set ds. d < 32" by auto
  from assms s have len: "length ds = 8" by simp
  with be_value_bound [OF b] have lt: "be_value 32 ds < 32 ^ 8" by simp
  then have "unat v = be_value 32 ds" by (simp add: v unat_of_nat)
  moreover from be_digits_value [OF b] len have "be_digits 32 8 (be_value 32 ds) = ds" by simp
  ultimately show "to_base32 v = Inr s" using lt s by (simp only: to_base32_digits if_True)
next
  assume r: "to_base32 v = Inr s"
  let ?ds = "be_digits 32 8 (unat v)"
  have "\<forall>d \<in> set ?ds. d < 32" by (auto intro: be_digits_bound)
  then have "digit_values s = Some ?ds"
    using digit_values_encode by (subst to_base32_InrD(4) [OF r])
  moreover have "be_value 32 ?ds = unat v"
    using to_base32_InrD(1) [OF r] by (simp only: be_value_digits mod_less)
  ultimately show "from_base32_loop s 0 = Some v"
    using assms by (simp only: from_base32_loop_start) simp
qed

lemma ALPHABET_no_dot: "CHR ''.'' \<notin> set ALPHABET"
  by (simp add: ALPHABET_def)

lemma encoded_no_json: "set t \<subseteq> set ALPHABET \<Longrightarrow> strip_suffix ''.json'' t = None"
  using ALPHABET_no_dot by (auto simp: strip_suffix_def suffix_def)

lemma strip_suffix_Some: "strip_suffix p s = Some r \<longleftrightarrow> s = r @ p"
  by (auto simp: strip_suffix_def suffix_def)

lemma from_base32_enc:
  "from_base32 s = Some v \<longleftrightarrow>
     (\<exists>t. to_base32 v = Inr t \<and> (s = t \<or> s = t @ ''.json''))"
proof (cases "strip_suffix ''.json'' s")
  case (Some r)
  then have s: "s = r @ ''.json''" by (simp add: strip_suffix_Some)
  have "to_base32 v \<noteq> Inr s"
    using Some encoded_no_json to_base32_InrD(3) by fastforce
  then have "(\<exists>t. to_base32 v = Inr t \<and> (s = t \<or> s = t @ ''.json''))
      \<longleftrightarrow> to_base32 v = Inr r" using s by auto
  then show ?thesis
    using Some from_base32_loop_iff to_base32_InrD(2) by (auto simp: from_base32_def)
next
  case None
  then have "\<And>t. s \<noteq> t @ ''.json''" by (metis strip_suffix_Some option.distinct(1))
  then show ?thesis
    using None from_base32_loop_iff to_base32_InrD(2) by (auto simp: from_base32_def)
qed

text \<open>Mapping digits through a sorted table keeps the lexicographic order.\<close>

lemma map_table_less:
  assumes "sorted_wrt (<) (tab :: 'a::linorder list)"
  shows "length ds = length es \<Longrightarrow> \<forall>d \<in> set ds \<union> set es. d < length tab \<Longrightarrow>
    ds < es \<Longrightarrow> map ((!) tab) ds < map ((!) tab) es"
proof (induction ds es rule: list_induct2)
  case Nil
  then show ?case by simp
next
  case (Cons d ds e es)
  have "d < e \<Longrightarrow> tab ! d < tab ! e"
    using assms Cons.prems by (simp add: sorted_wrt_iff_nth_less)
  with Cons show ?case by auto
qed

lemma to_base32_mono:
  assumes v: "to_base32 v = Inr s" and w: "to_base32 w = Inr t" and "v < w"
  shows "s < t"
proof -
  have "unat v mod 32 ^ 8 < unat w mod 32 ^ 8"
    using to_base32_InrD(1) [OF v] to_base32_InrD(1) [OF w] \<open>v < w\<close>
    by (simp only: mod_less word_less_nat_alt)
  then have "be_digits 32 8 (unat v) < be_digits 32 8 (unat w)"
    by (intro be_digits_less) auto
  moreover have "\<forall>d \<in> set (be_digits 32 8 (unat v)) \<union> set (be_digits 32 8 (unat w)).
      d < length ALPHABET"
    unfolding ALPHABET_length by (auto intro: be_digits_bound)
  ultimately have "map ((!) ALPHABET) (be_digits 32 8 (unat v))
      < map ((!) ALPHABET) (be_digits 32 8 (unat w))"
    by (intro map_table_less ALPHABET_sorted) (auto simp only: length_be_digits)
  then show ?thesis
    using to_base32_InrD(4) [OF v] to_base32_InrD(4) [OF w] by simp
qed

section \<open>epoch.rs\<close>

record epoch =
  epoch_val :: u64
  epoch_base32 :: bytes

text \<open>A computation that may panic (\<open>expect\<close>, \<open>unwrap\<close>, an index out of range).\<close>

datatype 'a run = Ret 'a | Panic

definition epoch_new :: "u64 \<Rightarrow> base32_error + epoch" where
  "epoch_new val =
     rbind (to_base32 val) (\<lambda>s. Inr \<lparr>epoch_val = val, epoch_base32 = s\<rparr>)"

definition epoch_parse :: "bytes \<Rightarrow> epoch option run" where
  "epoch_parse s =
     (case from_base32 s of
        None \<Rightarrow> Ret None
      | Some val \<Rightarrow> (case epoch_new val of Inr e \<Rightarrow> Ret (Some e) | Inl _ \<Rightarrow> Panic))"

definition as_u64 :: "epoch \<Rightarrow> u64" where
  "as_u64 e = epoch_val e"

definition as_base32 :: "epoch \<Rightarrow> bytes" where
  "as_base32 e = epoch_base32 e"

definition json_filename :: "epoch \<Rightarrow> bytes" where
  "json_filename e = as_base32 e @ ''.json''"

definition epoch_less :: "epoch \<Rightarrow> epoch \<Rightarrow> bool" where
  "epoch_less e f \<longleftrightarrow> epoch_val e < epoch_val f"

text \<open>The epochs the constructors build: the cached text is the encoding.\<close>

definition wf_epoch :: "epoch \<Rightarrow> bool" where
  "wf_epoch e \<longleftrightarrow> epoch_new (epoch_val e) = Inr e"

lemma wf_epoch_iff: "wf_epoch e \<longleftrightarrow> to_base32 (epoch_val e) = Inr (epoch_base32 e)"
  by (cases e; cases "to_base32 (epoch_val e)") (auto simp: wf_epoch_def epoch_new_def)

lemma epoch_new_Inr: "epoch_new v = Inr e \<longleftrightarrow> wf_epoch e \<and> epoch_val e = v"
  by (cases "to_base32 v") (auto simp: wf_epoch_def epoch_new_def)

lemma epoch_new_total: "epoch_new v = Inl x \<longleftrightarrow> x = Overflow v \<and> 2 ^ 40 \<le> unat v"
  by (auto simp: epoch_new_def to_base32_digits)

lemma from_base32_wf:
  "from_base32 s = Some v \<longleftrightarrow>
     (\<exists>e. wf_epoch e \<and> epoch_val e = v \<and> (s = as_base32 e \<or> s = json_filename e))"
proof -
  have "(\<exists>e. wf_epoch e \<and> epoch_val e = v \<and> (s = as_base32 e \<or> s = json_filename e))
      \<longleftrightarrow> (\<exists>t. to_base32 v = Inr t \<and> (s = t \<or> s = t @ ''.json''))" (is "?L \<longleftrightarrow> ?R")
  proof
    assume ?L
    then show ?R by (auto simp: wf_epoch_iff as_base32_def json_filename_def)
  next
    assume ?R
    then obtain t where "to_base32 v = Inr t" "s = t \<or> s = t @ ''.json''" by blast
    then show ?L
      by (intro exI [of _ "\<lparr>epoch_val = v, epoch_base32 = t\<rparr>"])
        (simp add: wf_epoch_iff as_base32_def json_filename_def)
  qed
  then show ?thesis using from_base32_enc by simp
qed

lemma wf_epoch_eq: "wf_epoch e \<Longrightarrow> wf_epoch f \<Longrightarrow> epoch_val e = epoch_val f \<Longrightarrow> e = f"
  by (simp add: wf_epoch_def)

lemma wf_epoch_base32:
  assumes "wf_epoch e"
  shows "length (epoch_base32 e) = 8" "set (epoch_base32 e) \<subseteq> set ALPHABET"
  using assms to_base32_InrD by (auto simp: wf_epoch_iff)

lemma epoch_parse_Some:
  "epoch_parse s = Ret (Some e) \<longleftrightarrow> wf_epoch e \<and> (s = as_base32 e \<or> s = json_filename e)"
proof
  assume "epoch_parse s = Ret (Some e)"
  then show "wf_epoch e \<and> (s = as_base32 e \<or> s = json_filename e)"
    using from_base32_wf wf_epoch_eq
    by (fastforce simp: epoch_parse_def epoch_new_Inr split: option.splits sum.splits)
next
  assume r: "wf_epoch e \<and> (s = as_base32 e \<or> s = json_filename e)"
  then have "from_base32 s = Some (epoch_val e)" using from_base32_wf by blast
  with r show "epoch_parse s = Ret (Some e)" by (simp add: epoch_parse_def wf_epoch_def)
qed

lemma epoch_parse_no_panic: "epoch_parse s \<noteq> Panic"
proof
  assume "epoch_parse s = Panic"
  then obtain v x where "from_base32 s = Some v" "epoch_new v = Inl x"
    by (auto simp: epoch_parse_def split: option.splits sum.splits)
  then show False using from_base32_wf by (auto simp: wf_epoch_def)
qed

text \<open>The result of a parse, for the callers: the panic branch is never taken.\<close>

definition parse_epoch :: "bytes \<Rightarrow> epoch option" where
  "parse_epoch s = (case epoch_parse s of Ret r \<Rightarrow> r | Panic \<Rightarrow> None)"

lemma parse_epoch_Some:
  "parse_epoch s = Some e \<longleftrightarrow> wf_epoch e \<and> (s = as_base32 e \<or> s = json_filename e)"
  using epoch_parse_no_panic [of s] epoch_parse_Some [of s e]
  by (cases "epoch_parse s") (auto simp: parse_epoch_def)

lemma as_base32_less_iff:
  assumes "wf_epoch e" "wf_epoch f"
  shows "as_base32 e < as_base32 f \<longleftrightarrow> epoch_less e f"
proof -
  have mono: "epoch_less a b \<Longrightarrow> as_base32 a < as_base32 b" if "wf_epoch a" "wf_epoch b" for a b
    using that to_base32_mono by (auto simp: wf_epoch_iff epoch_less_def as_base32_def)
  show ?thesis
  proof
    assume lt: "as_base32 e < as_base32 f"
    then have "e \<noteq> f" by auto
    then have "epoch_val e \<noteq> epoch_val f" using wf_epoch_eq assms by blast
    then show "epoch_less e f"
      using lt mono [of f e] assms less_asym by (fastforce simp: epoch_less_def)
  qed (rule mono [OF assms])
qed

interpretation epoch_text: codec as_base32 parse_epoch wf_epoch
  by unfold_locales (simp add: parse_epoch_Some)

interpretation epoch_file: codec json_filename parse_epoch wf_epoch
  by unfold_locales (simp add: parse_epoch_Some)

section \<open>Properties\<close>

text \<open>
  C17. Parsing an epoch never panics (the \<open>expect\<close> in \<open>Epoch::parse\<close> is unreachable), and
  it accepts exactly the texts that epochs print: the bare eight characters, or the file
  name with its \<open>.json\<close> suffix; the epoch it returns is the one that prints the text.
\<close>

theorem epoch_parse_iff:
  "epoch_parse s \<noteq> Panic \<and>
   (epoch_parse s = Ret (Some e) \<longleftrightarrow>
      epoch_new (as_u64 e) = Inr e \<and> (s = as_base32 e \<or> s = json_filename e))"
  using epoch_parse_no_panic epoch_parse_Some by (simp add: wf_epoch_def as_u64_def)

text \<open>
  An epoch exists exactly for the 40-bit values; the overflow error carries the value.
\<close>

lemma epoch_new_bounds:
  "(epoch_new v = Inl (Overflow v) \<longleftrightarrow> 2 ^ 40 \<le> unat v) \<and>
   ((\<exists>e. epoch_new v = Inr e \<and> as_u64 e = v \<and> length (as_base32 e) = 8) \<longleftrightarrow> unat v < 2 ^ 40)"
proof (cases "epoch_new v")
  case (Inl x)
  then have "x = Overflow v" "2 ^ 40 \<le> unat v" by (simp_all add: epoch_new_total)
  with Inl show ?thesis by simp
next
  case (Inr e)
  then have "wf_epoch e" "epoch_val e = v" by (simp_all add: epoch_new_Inr)
  moreover have "\<not> 2 ^ 40 \<le> unat v" using Inr epoch_new_total [of v "Overflow v"] by simp
  ultimately show ?thesis using Inr wf_epoch_base32 by (simp add: as_u64_def as_base32_def)
qed

text \<open>
  The byte order of the texts of two epochs, and of their file names, is the order
  \<open>Ord for Epoch\<close> defines: listing the lock directory in name order lists the epochs in
  numeric order.
\<close>

lemma epoch_text_order:
  assumes "epoch_new v = Inr e" and "epoch_new w = Inr f"
  shows "(as_base32 e < as_base32 f \<longleftrightarrow> epoch_less e f) \<and>
         (json_filename e < json_filename f \<longleftrightarrow> epoch_less e f)"
proof -
  have wf: "wf_epoch e" "wf_epoch f" using assms by (simp_all add: epoch_new_Inr)
  have "length (as_base32 e) = length (as_base32 f)"
    using wf wf_epoch_base32 by (simp add: as_base32_def)
  then have "json_filename e < json_filename f \<longleftrightarrow> as_base32 e < as_base32 f"
    by (auto simp: json_filename_def list_less_append_same)
  with as_base32_less_iff [OF wf] show ?thesis by simp
qed

end
