(* ===== verification/Errors.thy ===== *)
theory Errors
  imports Prelude
begin

text \<open>
  The error types of \<open>bepository-bep/src/error.rs\<close> and the classification the engine and the
  supervisors act on.  The payload of an error is the fixed part of its message: the values
  the code interpolates for diagnosis (names, numbers) are left out.
\<close>

type_synonym u32 = "32 word"

datatype storage_error =
  TransientIo string
| Corruption string
| UnsupportedVersion u32 u32
| NotFound string
| Standby string
| InvalidInput string
| Internal string

fun storage_is_transient :: "storage_error \<Rightarrow> bool" where
  "storage_is_transient (TransientIo _) = True"
| "storage_is_transient _ = False"

fun storage_is_fatal :: "storage_error \<Rightarrow> bool" where
  "storage_is_fatal (Corruption _) = True"
| "storage_is_fatal (Internal _) = True"
| "storage_is_fatal (UnsupportedVersion _ _) = True"
| "storage_is_fatal _ = False"

datatype bep_error =
  BepTransientIo string
| PeerBadHello string
| PeerBadMessage string
| PeerError i32 string
| BepCorruption string
| BepUnsupportedVersion u32 u32
| BepInternal string
| BepStandby string
| PeerClosed string
| NetworkError string
| WriterClosed
| DeviceRejected

text \<open>The \<open>Display\<close> text of an error, again without interpolated numbers.\<close>

fun bep_error_text :: "bep_error \<Rightarrow> string" where
  "bep_error_text (BepTransientIo msg) = ''transient I/O error: '' @ msg"
| "bep_error_text (PeerBadHello msg) = ''peer protocol violation: '' @ msg"
| "bep_error_text (PeerBadMessage msg) = ''peer sent bad message: '' @ msg"
| "bep_error_text (PeerError _ path) = ''peer error code for '' @ path"
| "bep_error_text (BepCorruption msg) = ''data corruption: '' @ msg"
| "bep_error_text (BepUnsupportedVersion _ _) = ''store written by a newer format version''"
| "bep_error_text (BepInternal msg) = ''internal error: '' @ msg"
| "bep_error_text (BepStandby msg) = ''standby: '' @ msg"
| "bep_error_text (PeerClosed msg) = ''peer closed connection: '' @ msg"
| "bep_error_text (NetworkError msg) = ''network error: '' @ msg"
| "bep_error_text WriterClosed = ''writer task closed''"
| "bep_error_text DeviceRejected = ''device rejected by event handler''"

fun bep_is_transient :: "bep_error \<Rightarrow> bool" where
  "bep_is_transient (BepTransientIo _) = True"
| "bep_is_transient (NetworkError _) = True"
| "bep_is_transient _ = False"

fun bep_is_fatal :: "bep_error \<Rightarrow> bool" where
  "bep_is_fatal (BepCorruption _) = True"
| "bep_is_fatal (BepInternal _) = True"
| "bep_is_fatal (BepUnsupportedVersion _ _) = True"
| "bep_is_fatal _ = False"

fun is_peer_fault :: "bep_error \<Rightarrow> bool" where
  "is_peer_fault (PeerBadHello _) = True"
| "is_peer_fault (PeerBadMessage _) = True"
| "is_peer_fault (PeerError _ _) = True"
| "is_peer_fault _ = False"

lemma bep_classes_disjoint:
  "\<not> (bep_is_transient e \<and> bep_is_fatal e)"
  "\<not> (bep_is_transient e \<and> is_peer_fault e)"
  "\<not> (bep_is_fatal e \<and> is_peer_fault e)"
  by (cases e; simp)+

end
