(* ===== verification/Lock.thy ===== *)
theory Lock
  imports Base32 Errors
begin

text \<open>
  The lease protocol on an object store: \<open>bepository-lock/src/lib.rs\<close>.  The object store, the
  JSON encoding and the local clock are parameters (\<open>lock_env\<close>); the objects' contents are of an
  arbitrary type that the encoding reads and writes.  Times are nanoseconds.  A panic
  of a library call the code makes is the error value \<open>Panicked\<close>.  The retry loop of
  \<open>put_next_epoch\<close> is bounded by fuel, with \<open>OutOfFuel\<close> when the bound is reached; on a store
  nobody else writes, one round is enough (\<open>put_next_epoch_dir\<close>).
\<close>

type_synonym path = "bytes list"
type_synonym time = int

datatype os_error = OsNotFound | OsAlreadyExists | OsOther string

record object_meta =
  om_location :: path
  om_modified :: time

record ('o, 'v) object_store =
  os_list :: "path \<Rightarrow> ('o, os_error, object_meta list) op"
  os_get :: "path \<Rightarrow> ('o, os_error, 'v) op"
  os_create :: "path \<Rightarrow> 'v \<Rightarrow> ('o, os_error, unit) op"
  os_head :: "path \<Rightarrow> ('o, os_error, object_meta) op"
  os_delete :: "path \<Rightarrow> ('o, os_error, unit) op"

section \<open>Data\<close>

record epoch_file =
  ef_holder :: bytes
  ef_priority :: u32
  ef_duration :: u64

record epoch_entry =
  ee_meta :: object_meta
  ee_file :: epoch_file
  ee_epoch :: epoch

datatype acquisition_status =
  Owner epoch | Queued | QueuedBackwardClock | Yielded | Failed | NotOwner

datatype lock_error =
  ObjectStoreErr os_error | Serde | ClockRegression | Cancelled | Base32Err base32_error
| Panicked string | OutOfFuel

record ('o, 'v) lock_env =
  le_store :: "('o, 'v) object_store"
  le_enc :: "epoch_file \<Rightarrow> 'v"
  le_dec :: "'v \<Rightarrow> epoch_file option"
  le_now :: "'o \<Rightarrow> time"

record lock =
  lk_prefix :: path
  lk_holder :: bytes
  lk_priority :: u32
  lk_duration :: u64

definition lock_new :: "path \<Rightarrow> bytes \<Rightarrow> u32 \<Rightarrow> u64 \<Rightarrow> lock" where
  "lock_new dir holder priority duration =
     \<lparr>lk_prefix = dir, lk_holder = holder, lk_priority = priority, lk_duration = duration\<rparr>"

text \<open>\<open>DateTime::MAX_UTC\<close>, and the bound above which \<open>Duration::seconds\<close> panics.\<close>

definition MAX_UTC :: time where
  "MAX_UTC = 8210266876799999999999"

definition expires_at :: "epoch_entry \<Rightarrow> lock_error + time" where
  "expires_at e =
     (let dur_secs = (if int (unat (ef_duration (ee_file e))) \<le> i64_max
                      then int (unat (ef_duration (ee_file e))) else i64_max)
      in if dur_secs > i64_max div 1000 then Inl (Panicked ''TimeDelta::seconds out of bounds'')
         else let t = om_modified (ee_meta e) + dur_secs * 1000000000
              in Inr (if t \<le> MAX_UTC then t else MAX_UTC))"

definition is_expired_at :: "epoch_entry \<Rightarrow> time \<Rightarrow> lock_error + bool" where
  "is_expired_at e t = rbind (expires_at e) (\<lambda>x. Inr (x \<le> t))"

definition is_owned_by :: "epoch_entry \<Rightarrow> bytes \<Rightarrow> bool" where
  "is_owned_by e holder \<longleftrightarrow> ef_holder (ee_file e) = holder"

text \<open>\<open>Path::filename\<close>, the text of a path, and the epoch of a listed object.\<close>

definition filename :: "path \<Rightarrow> bytes option" where
  "filename p = (if p = [] then None else Some (last p))"

fun path_text :: "path \<Rightarrow> bytes" where
  "path_text [] = []"
| "path_text [x] = x"
| "path_text (x # xs) = x @ CHR ''/'' # path_text xs"

definition meta_epoch :: "object_meta \<Rightarrow> epoch option" where
  "meta_epoch m = Option.bind (filename (om_location m)) parse_epoch"

fun partition_loop ::
  "object_meta list \<Rightarrow> epoch \<Rightarrow> object_meta list \<Rightarrow> bool \<Rightarrow> object_meta list \<Rightarrow>
   object_meta list \<times> bool \<times> object_meta list" where
  "partition_loop [] mine lower present higher = (lower, present, higher)"
| "partition_loop (m # ms) mine lower present higher =
     (case meta_epoch m of
        Some e \<Rightarrow>
          if epoch_less e mine then partition_loop ms mine (lower @ [m]) present higher
          else if e = mine then partition_loop ms mine lower True higher
          else partition_loop ms mine lower present (higher @ [m])
      | None \<Rightarrow> partition_loop ms mine lower present higher)"

definition partition_around ::
  "object_meta list \<Rightarrow> epoch \<Rightarrow> object_meta list \<times> bool \<times> object_meta list" where
  "partition_around metas mine = partition_loop metas mine [] False []"

section \<open>Store access\<close>

definition os_call :: "('o, os_error, 'a) op \<Rightarrow> ('o, lock_error, 'a) op" where
  "os_call m s = (case m s of (r, t) \<Rightarrow> (map_sum ObjectStoreErr id r, t))"

definition best_effort_delete :: "('o, 'v) lock_env \<Rightarrow> path \<Rightarrow> ('o, lock_error, unit) op" where
  "best_effort_delete env p s = (case os_delete (le_store env) p s of (_, t) \<Rightarrow> (Inr (), t))"

definition list_epoch_metas :: "('o, 'v) lock_env \<Rightarrow> lock \<Rightarrow> ('o, lock_error, object_meta list) op" where
  "list_epoch_metas env lk =
     bnd (os_call (os_list (le_store env) (lk_prefix lk))) (\<lambda>ms.
       ok (sort_key (\<lambda>m. path_text (om_location m)) (filter (\<lambda>m. meta_epoch m \<noteq> None) ms)))"

definition read_entry :: "('o, 'v) lock_env \<Rightarrow> object_meta \<Rightarrow> ('o, lock_error, epoch_entry option) op" where
  "read_entry env meta s =
     (case os_get (le_store env) (om_location meta) s of
        (Inl OsNotFound, t) \<Rightarrow> (Inr None, t)
      | (Inl e, t) \<Rightarrow> (Inl (ObjectStoreErr e), t)
      | (Inr bytes, t) \<Rightarrow>
          (case le_dec env bytes of
             None \<Rightarrow> (Inl Serde, t)
           | Some file \<Rightarrow>
               (Inr (case meta_epoch meta of
                  None \<Rightarrow> None
                | Some epoch \<Rightarrow> Some \<lparr>ee_meta = meta, ee_file = file, ee_epoch = epoch\<rparr>), t)))"

text \<open>The highest epoch of a listing, and the value to claim next.\<close>

definition next_val :: "object_meta list \<Rightarrow> u64" where
  "next_val metas =
     (case List.map_filter meta_epoch metas of
        [] \<Rightarrow> 0
      | e # es \<Rightarrow> let h = foldl max (as_u64 e) (map as_u64 es) in if h = - 1 then h else h + 1)"

fun put_next_epoch ::
  "nat \<Rightarrow> ('o, 'v) lock_env \<Rightarrow> lock \<Rightarrow> epoch_file \<Rightarrow> ('o, lock_error, epoch \<times> time \<times> path) op" where
  "put_next_epoch 0 env lk content = err OutOfFuel"
| "put_next_epoch (Suc fuel) env lk content =
     bnd (list_epoch_metas env lk) (\<lambda>metas.
     bnd (lift_res (map_sum Base32Err id (epoch_new (next_val metas)))) (\<lambda>next_epoch.
       let path = lk_prefix lk @ [json_filename next_epoch]
       in (\<lambda>s. case os_create (le_store env) path (le_enc env content) s of
            (Inr _, t) \<Rightarrow>
              (case os_head (le_store env) path t of
                 (Inr m, u) \<Rightarrow> (Inr (next_epoch, om_modified m, path), u)
               | (Inl e, u) \<Rightarrow> bnd (best_effort_delete env path) (\<lambda>_. err (ObjectStoreErr e)) u)
          | (Inl OsAlreadyExists, t) \<Rightarrow> put_next_epoch fuel env lk content t
          | (Inl e, t) \<Rightarrow> (Inl (ObjectStoreErr e), t))))"

section \<open>Acquisition\<close>

text \<open>The first of some listed files that is still there: \<open>first_readable_entry\<close> and the loop of
  \<open>current_owner\<close>.\<close>

fun first_readable_entry ::
  "('o, 'v) lock_env \<Rightarrow> object_meta list \<Rightarrow> ('o, lock_error, epoch_entry option) op" where
  "first_readable_entry env [] = ok None"
| "first_readable_entry env (m # ms) =
     bnd (read_entry env m) (\<lambda>r. case r of Some entry \<Rightarrow> ok (Some entry) | None \<Rightarrow> first_readable_entry env ms)"

definition current_owner :: "('o, 'v) lock_env \<Rightarrow> lock \<Rightarrow> ('o, lock_error, epoch_entry option) op" where
  "current_owner env lk = bnd (list_epoch_metas env lk) (first_readable_entry env)"

definition claim_epoch ::
  "nat \<Rightarrow> ('o, 'v) lock_env \<Rightarrow> lock \<Rightarrow> ('o, lock_error, epoch \<times> time \<times> path) op" where
  "claim_epoch fuel env lk =
     put_next_epoch fuel env lk
       \<lparr>ef_holder = lk_holder lk, ef_priority = lk_priority lk, ef_duration = lk_duration lk\<rparr>"

fun scavenge_loop ::
  "('o, 'v) lock_env \<Rightarrow> lock \<Rightarrow> time \<Rightarrow> object_meta list \<Rightarrow> bool \<Rightarrow> ('o, lock_error, bool) op" where
  "scavenge_loop env lk my_timestamp [] regression = ok regression"
| "scavenge_loop env lk my_timestamp (m # ms) regression =
     bnd (read_entry env m) (\<lambda>r. case r of
       None \<Rightarrow> scavenge_loop env lk my_timestamp ms regression
     | Some entry \<Rightarrow>
         bnd (lift_res (is_expired_at entry my_timestamp)) (\<lambda>is_expired.
           if is_expired \<or> is_owned_by entry (lk_holder lk)
           then bnd (best_effort_delete env (om_location (ee_meta entry))) (\<lambda>_.
                  scavenge_loop env lk my_timestamp ms regression)
           else scavenge_loop env lk my_timestamp ms
                  (regression \<or> om_modified (ee_meta entry) > my_timestamp)))"

definition below :: "epoch \<Rightarrow> object_meta \<Rightarrow> bool" where
  "below mine m \<longleftrightarrow> (case meta_epoch m of Some e \<Rightarrow> epoch_less e mine | None \<Rightarrow> False)"

definition scavenge_below :: "('o, 'v) lock_env \<Rightarrow> lock \<Rightarrow> epoch \<Rightarrow> time \<Rightarrow> ('o, lock_error, bool) op" where
  "scavenge_below env lk mine my_timestamp =
     bnd (list_epoch_metas env lk) (\<lambda>metas.
       scavenge_loop env lk my_timestamp (takeWhile (below mine) metas) False)"

definition classify_loss ::
  "('o, 'v) lock_env \<Rightarrow> lock \<Rightarrow> epoch_entry \<Rightarrow> bool \<Rightarrow> path \<Rightarrow> ('o, lock_error, acquisition_status) op" where
  "classify_loss env lk owner regression my_path =
     (if regression then ok QueuedBackwardClock
      else if lk_priority lk > ef_priority (ee_file owner) then ok Queued
      else bnd (best_effort_delete env my_path) (\<lambda>_. ok Failed))"

fun should_yield ::
  "('o, 'v) lock_env \<Rightarrow> lock \<Rightarrow> object_meta list \<Rightarrow> time \<Rightarrow> ('o, lock_error, bool) op" where
  "should_yield env lk [] my_timestamp = ok False"
| "should_yield env lk (m # ms) my_timestamp =
     bnd (read_entry env m) (\<lambda>r. case r of
       None \<Rightarrow> should_yield env lk ms my_timestamp
     | Some entry \<Rightarrow>
         if ef_priority (ee_file entry) > lk_priority lk
         then bnd (lift_res (expires_at entry)) (\<lambda>x.
                if my_timestamp < x then ok True else should_yield env lk ms my_timestamp)
         else should_yield env lk ms my_timestamp)"

text \<open>The steps of \<open>verify_ownership\<close> after the scavenging.\<close>

definition verify_rest ::
  "('o, 'v) lock_env \<Rightarrow> lock \<Rightarrow> epoch \<Rightarrow> time \<Rightarrow> path \<Rightarrow> bool \<Rightarrow> ('o, lock_error, acquisition_status) op" where
  "verify_rest env lk my_epoch my_timestamp my_path regression =
     bnd (list_epoch_metas env lk) (\<lambda>metas.
       case partition_around metas my_epoch of (lower, mine_present, higher) \<Rightarrow>
         if \<not> mine_present then bnd (best_effort_delete env my_path) (\<lambda>_. ok Failed)
         else bnd (first_readable_entry env lower) (\<lambda>r. case r of
                Some owner \<Rightarrow> classify_loss env lk owner regression my_path
              | None \<Rightarrow>
                  bnd (should_yield env lk higher my_timestamp) (\<lambda>y.
                    if y then bnd (best_effort_delete env my_path) (\<lambda>_. ok Yielded)
                    else ok (Owner my_epoch))))"

definition verify_ownership ::
  "('o, 'v) lock_env \<Rightarrow> lock \<Rightarrow> epoch \<Rightarrow> time \<Rightarrow> path \<Rightarrow> ('o, lock_error, acquisition_status) op" where
  "verify_ownership env lk my_epoch my_timestamp my_path =
     bnd (scavenge_below env lk my_epoch my_timestamp)
       (verify_rest env lk my_epoch my_timestamp my_path)"

text \<open>The fast path: another holder's lease that is not outranked and not expired by the local
  clock.\<close>

definition held_by_other :: "('o, 'v) lock_env \<Rightarrow> lock \<Rightarrow> epoch_entry option \<Rightarrow> ('o, lock_error, bool) op" where
  "held_by_other env lk r =
     (case r of
        None \<Rightarrow> ok False
      | Some entry \<Rightarrow>
          if is_owned_by entry (lk_holder lk) then ok False
          else bnd (get_st (le_now env)) (\<lambda>now.
            if ef_priority (ee_file entry) \<ge> lk_priority lk \<and> now \<ge> om_modified (ee_meta entry)
            then bnd (lift_res (expires_at entry)) (\<lambda>x. ok (now < x))
            else ok False))"

definition acquire :: "nat \<Rightarrow> ('o, 'v) lock_env \<Rightarrow> lock \<Rightarrow> ('o, lock_error, acquisition_status) op" where
  "acquire fuel env lk =
     bnd (current_owner env lk) (\<lambda>owner.
     bnd (held_by_other env lk owner) (\<lambda>held.
       if held then ok NotOwner
       else bnd (claim_epoch fuel env lk) (\<lambda>(my_epoch, my_timestamp, path).
              verify_ownership env lk my_epoch my_timestamp path)))"

section \<open>Release and repair\<close>

fun release_loop :: "('o, 'v) lock_env \<Rightarrow> lock \<Rightarrow> object_meta list \<Rightarrow> ('o, lock_error, unit) op" where
  "release_loop env lk [] = ok ()"
| "release_loop env lk (m # ms) =
     bnd (read_entry env m) (\<lambda>r.
     bnd (case r of
            Some entry \<Rightarrow> if is_owned_by entry (lk_holder lk)
              then best_effort_delete env (om_location (ee_meta entry)) else ok ()
          | None \<Rightarrow> ok ()) (\<lambda>_.
       release_loop env lk ms))"

definition release :: "('o, 'v) lock_env \<Rightarrow> lock \<Rightarrow> ('o, lock_error, unit) op" where
  "release env lk = bnd (list_epoch_metas env lk) (release_loop env lk)"

fun break_loop ::
  "('o, 'v) lock_env \<Rightarrow> epoch \<Rightarrow> time \<Rightarrow> path \<Rightarrow> object_meta list \<Rightarrow> bool \<Rightarrow> ('o, lock_error, unit) op" where
  "break_loop env my_epoch my_timestamp my_path [] found = best_effort_delete env my_path"
| "break_loop env my_epoch my_timestamp my_path (m # ms) found =
     (case meta_epoch m of
        None \<Rightarrow> break_loop env my_epoch my_timestamp my_path ms found
      | Some entry_epoch \<Rightarrow>
          if entry_epoch = my_epoch then break_loop env my_epoch my_timestamp my_path ms found
          else (\<lambda>s. case os_get (le_store env) (om_location m) s of
            (Inl OsNotFound, t) \<Rightarrow> break_loop env my_epoch my_timestamp my_path ms found t
          | (Inl e, t) \<Rightarrow> bnd (best_effort_delete env my_path) (\<lambda>_. err (ObjectStoreErr e)) t
          | (Inr bytes, t) \<Rightarrow>
              (case le_dec env bytes of
                 None \<Rightarrow> bnd (best_effort_delete env (om_location m)) (\<lambda>_.
                    break_loop env my_epoch my_timestamp my_path ms found) t
               | Some file \<Rightarrow>
                   (case is_expired_at \<lparr>ee_meta = m, ee_file = file, ee_epoch = entry_epoch\<rparr> my_timestamp of
                      Inl e \<Rightarrow> (Inl e, t)
                    | Inr expired \<Rightarrow>
                        if \<not> found \<and> \<not> expired
                        then break_loop env my_epoch my_timestamp my_path ms True t
                        else bnd (best_effort_delete env (om_location m)) (\<lambda>_.
                               break_loop env my_epoch my_timestamp my_path ms found) t))))"

definition unsafe_break_locks :: "nat \<Rightarrow> ('o, 'v) lock_env \<Rightarrow> lock \<Rightarrow> ('o, lock_error, unit) op" where
  "unsafe_break_locks fuel env lk =
     bnd (put_next_epoch fuel env lk
            \<lparr>ef_holder = lk_holder lk @ ''-breaker'', ef_priority = 0, ef_duration = 0\<rparr>)
       (\<lambda>(my_epoch, my_timestamp, my_path) s.
          case list_epoch_metas env lk s of
            (Inl e, t) \<Rightarrow> bnd (best_effort_delete env my_path) (\<lambda>_. err e) t
          | (Inr metas, t) \<Rightarrow> break_loop env my_epoch my_timestamp my_path metas False t)"

end
