(* ===== verification/LockDir.thy ===== *)
theory LockDir
  imports Lock "HOL-Library.AList" "HOL-Library.Multiset"
begin

text \<open>
  The lock operations on a lock directory, over any object store that keeps the promises the lock
  relies on: listings and reads see every completed write, a conditional create writes only a
  missing object, and the store stamps objects with its own clock.  Every operation is evaluated
  to what it does to the directory, seen as the list of its entries in epoch order.
\<close>

section \<open>What the lock relies on\<close>

locale object_store_laws =
  fixes st :: "('o, 'v) object_store" and V :: "'o \<Rightarrow> path \<rightharpoonup> 'v \<times> time" and clk :: "'o \<Rightarrow> time"
  assumes list_law: "\<exists>ms. os_list st p s = (Inr ms, s) \<and> distinct (map om_location ms) \<and>
      (\<forall>m. m \<in> set ms \<longleftrightarrow>
        strict_prefix p (om_location m) \<and> (\<exists>v. V s (om_location m) = Some (v, om_modified m)))"
    and get_law: "os_get st p s = (case V s p of None \<Rightarrow> Inl OsNotFound | Some (v, _) \<Rightarrow> Inr v, s)"
    and head_law: "os_head st p s = (case V s p of None \<Rightarrow> Inl OsNotFound
        | Some (_, t) \<Rightarrow> Inr \<lparr>om_location = p, om_modified = t\<rparr>, s)"
    and create_law: "V s p = None \<Longrightarrow> \<exists>s'. os_create st p v s = (Inr (), s') \<and>
        V s' = (V s)(p \<mapsto> (v, clk s)) \<and> clk s' = clk s"
    and exists_law: "V s p \<noteq> None \<Longrightarrow> os_create st p v s = (Inl OsAlreadyExists, s)"
    and delete_law: "\<exists>s'. os_delete st p s = (Inr (), s') \<and>
        V s' = (V s)(p := None) \<and> clk s' = clk s"

locale lock_store = object_store_laws "le_store env" V clk
  for env :: "('o, 'v) lock_env" and V :: "'o \<Rightarrow> path \<rightharpoonup> 'v \<times> time" and clk :: "'o \<Rightarrow> time" +
  assumes codec_law: "le_dec env (le_enc env f) = Some f"

text \<open>An object store in memory keeps these promises.\<close>

record 'v mem_store =
  ms_objs :: "(path \<times> 'v \<times> time) list"
  ms_clock :: time
  ms_local :: time

definition mem_object_store :: "('v mem_store, 'v) object_store" where
  "mem_object_store =
     \<lparr>os_list = (\<lambda>p s. (Inr (map (\<lambda>(q, _, t). \<lparr>om_location = q, om_modified = t\<rparr>)
        (filter (\<lambda>(q, _, _). strict_prefix p q) (AList.clearjunk (ms_objs s)))), s)),
      os_get = (\<lambda>p s. (case map_of (ms_objs s) p of None \<Rightarrow> Inl OsNotFound | Some (v, _) \<Rightarrow> Inr v, s)),
      os_create = (\<lambda>p v s. if map_of (ms_objs s) p = None
        then (Inr (), s\<lparr>ms_objs := (p, v, ms_clock s) # ms_objs s\<rparr>) else (Inl OsAlreadyExists, s)),
      os_head = (\<lambda>p s. (case map_of (ms_objs s) p of None \<Rightarrow> Inl OsNotFound
        | Some (_, t) \<Rightarrow> Inr \<lparr>om_location = p, om_modified = t\<rparr>, s)),
      os_delete = (\<lambda>p s. (Inr (), s\<lparr>ms_objs := AList.delete p (ms_objs s)\<rparr>))\<rparr>"

definition mem_env :: "(epoch_file mem_store, epoch_file) lock_env" where
  "mem_env = \<lparr>le_store = mem_object_store, le_enc = id, le_dec = Some, le_now = ms_local\<rparr>"

interpretation mem: object_store_laws mem_object_store "\<lambda>s. map_of (ms_objs s)" ms_clock
proof
  fix p and s :: "'v mem_store"
  let ?objs = "filter (\<lambda>(q, _, _). strict_prefix p q) (AList.clearjunk (ms_objs s))"
  have "distinct (map fst ?objs)"
    by (rule distinct_map_filter) (rule distinct_clearjunk)
  moreover have "map_of (AList.clearjunk (ms_objs s)) = map_of (ms_objs s)"
    by (rule map_of_clearjunk)
  then have "(q, v, t) \<in> set (AList.clearjunk (ms_objs s)) \<longleftrightarrow> map_of (ms_objs s) q = Some (v, t)" for q v t
    by (metis distinct_clearjunk map_of_eq_Some_iff)
  ultimately show "\<exists>ms. os_list mem_object_store p s = (Inr ms, s) \<and> distinct (map om_location ms) \<and>
      (\<forall>m. m \<in> set ms \<longleftrightarrow> strict_prefix p (om_location m) \<and>
        (\<exists>v. map_of (ms_objs s) (om_location m) = Some (v, om_modified m)))"
    by (force simp: mem_object_store_def comp_def case_prod_unfold image_iff)
qed (simp_all add: mem_object_store_def delete_conv' fun_eq_iff)

interpretation mem_lock: lock_store mem_env "\<lambda>s. map_of (ms_objs s)" ms_clock
  by unfold_locales (simp_all add: mem_env_def mem.list_law mem.get_law mem.head_law mem.create_law
    mem.exists_law mem.delete_law)

section \<open>Directories\<close>

definition entry_path :: "path \<Rightarrow> epoch \<Rightarrow> path" where
  "entry_path dir e = dir @ [json_filename e]"

text \<open>An entry of the directory, with a duration the code can add to a time.\<close>

definition lease_ok :: "path \<Rightarrow> epoch_entry \<Rightarrow> bool" where
  "lease_ok dir x \<longleftrightarrow>
     wf_epoch (ee_epoch x) \<and> om_location (ee_meta x) = entry_path dir (ee_epoch x) \<and>
     int (unat (ef_duration (ee_file x))) \<le> i64_max div 1000"

definition expiry :: "epoch_entry \<Rightarrow> time" where
  "expiry x = min MAX_UTC (om_modified (ee_meta x) + int (unat (ef_duration (ee_file x))) * 1000000000)"

abbreviation evals :: "epoch_entry list \<Rightarrow> u64 list" where
  "evals xs \<equiv> map (\<lambda>x. epoch_val (ee_epoch x)) xs"

definition wf_dir :: "path \<Rightarrow> epoch_entry list \<Rightarrow> bool" where
  "wf_dir dir xs \<longleftrightarrow> sorted_wrt (<) (evals xs) \<and> (\<forall>x \<in> set xs. lease_ok dir x)"

definition obj_of :: "(epoch_file \<Rightarrow> 'v) \<Rightarrow> epoch_entry \<Rightarrow> path \<times> 'v \<times> time" where
  "obj_of enc x = (om_location (ee_meta x), enc (ee_file x), om_modified (ee_meta x))"

definition holds_dir ::
  "('o \<Rightarrow> path \<rightharpoonup> 'v \<times> time) \<Rightarrow> (epoch_file \<Rightarrow> 'v) \<Rightarrow> path \<Rightarrow> epoch_entry list \<Rightarrow> 'o \<Rightarrow> bool" where
  "holds_dir V enc dir xs s \<longleftrightarrow>
     wf_dir dir xs \<and> (\<forall>p. strict_prefix dir p \<longrightarrow> V s p = map_of (map (obj_of enc) xs) p)"

lemma expires_at_ok: "lease_ok dir x \<Longrightarrow> expires_at x = Inr (expiry x)"
  by (simp add: expires_at_def lease_ok_def expiry_def Let_def i64_max_def min_def)

lemma is_expired_at_ok: "lease_ok dir x \<Longrightarrow> is_expired_at x t = Inr (expiry x \<le> t)"
  by (simp add: is_expired_at_def expires_at_ok)

lemma meta_epoch_ok: "lease_ok dir x \<Longrightarrow> meta_epoch (ee_meta x) = Some (ee_epoch x)"
  by (simp add: meta_epoch_def lease_ok_def entry_path_def filename_def parse_epoch_Some)

lemma json_filename_eq: "wf_epoch e \<Longrightarrow> wf_epoch f \<Longrightarrow> json_filename e = json_filename f \<longleftrightarrow> e = f"
  using epoch_file.enc_eq_iff by blast

lemma entry_path_eq:
  "wf_epoch e \<Longrightarrow> wf_epoch f \<Longrightarrow> entry_path dir e = entry_path dir f \<longleftrightarrow> e = f"
  by (simp add: entry_path_def json_filename_eq)

lemma path_text_snoc: "path_text (p @ [x]) = (if p = [] then x else path_text p @ CHR ''/'' # x)"
  by (induction p rule: path_text.induct) auto

lemma json_filename_less:
  assumes "wf_epoch e" "wf_epoch f"
  shows "json_filename e < json_filename f \<longleftrightarrow> epoch_less e f"
proof -
  have "length (as_base32 e) = length (as_base32 f)"
    using assms wf_epoch_base32 by (simp add: as_base32_def)
  then show ?thesis
    by (auto simp: json_filename_def list_less_append_same as_base32_less_iff [OF assms])
qed

lemma path_text_less:
  assumes "wf_epoch e" "wf_epoch f" "epoch_less e f"
  shows "path_text (entry_path dir e) < path_text (entry_path dir f)"
  using json_filename_less [OF assms(1,2)] assms(3)
  by (simp add: entry_path_def path_text_snoc list_less_prepend)

lemma lease_ok_path:
  "lease_ok dir x \<Longrightarrow> lease_ok dir y \<Longrightarrow>
   om_location (ee_meta x) = om_location (ee_meta y) \<longleftrightarrow> ee_epoch x = ee_epoch y"
  by (simp add: lease_ok_def entry_path_eq)

lemma lease_ok_under: "lease_ok dir x \<Longrightarrow> strict_prefix dir (om_location (ee_meta x))"
  by (simp add: lease_ok_def entry_path_def strict_prefix_def)

lemma wf_dir_epochs:
  assumes "wf_dir dir xs" "x \<in> set xs" "y \<in> set xs" "ee_epoch x = ee_epoch y"
  shows "x = y"
proof -
  have "inj_on (\<lambda>x. epoch_val (ee_epoch x)) (set xs)"
    using assms(1) by (auto simp: wf_dir_def strict_sorted_iff distinct_map)
  then show ?thesis using assms(2-4) by (simp add: inj_on_def)
qed

lemma wf_dir_ok: "wf_dir dir xs \<Longrightarrow> x \<in> set xs \<Longrightarrow> lease_ok dir x"
  by (simp add: wf_dir_def)

lemma wf_dir_filter: "wf_dir dir xs \<Longrightarrow> wf_dir dir (filter P xs)"
  unfolding wf_dir_def by (auto simp: sorted_wrt_map sorted_wrt_filter)

lemma map_of_objs:
  "map_of (map (obj_of enc) xs) p = map_option (\<lambda>x. (enc (ee_file x), om_modified (ee_meta x)))
     (find (\<lambda>x. om_location (ee_meta x) = p) xs)"
  by (induction xs) (auto simp: obj_of_def)

lemma find_path:
  assumes "wf_dir dir xs" "x \<in> set xs"
  shows "find (\<lambda>y. om_location (ee_meta y) = om_location (ee_meta x)) xs = Some x"
proof (cases "find (\<lambda>y. om_location (ee_meta y) = om_location (ee_meta x)) xs")
  case None
  then show ?thesis using assms by (auto simp: find_None_iff)
next
  case (Some y)
  then have "y \<in> set xs" "om_location (ee_meta y) = om_location (ee_meta x)"
    by (auto simp: find_Some_iff)
  then have "y = x" using assms wf_dir_epochs [OF assms(1), of y x] lease_ok_path [of dir y x]
    by (auto simp: wf_dir_def)
  with Some show ?thesis by simp
qed

lemma find_no_path:
  assumes "wf_dir dir xs" "wf_epoch e" "e \<notin> ee_epoch ` set xs"
  shows "find (\<lambda>y. om_location (ee_meta y) = entry_path dir e) xs = None"
  using assms by (auto simp: find_None_iff wf_dir_def lease_ok_def entry_path_eq)

lemma wf_dir_path_less:
  assumes "wf_dir dir xs"
  shows "sorted_wrt (\<lambda>a b. path_text (om_location (ee_meta a)) < path_text (om_location (ee_meta b))) xs"
proof -
  have "sorted_wrt (\<lambda>a b. epoch_val (ee_epoch a) < epoch_val (ee_epoch b)) xs"
    using assms by (simp add: wf_dir_def sorted_wrt_map)
  then show ?thesis
  proof (rule sorted_wrt_mono_rel [rotated])
    fix a b assume "a \<in> set xs" "b \<in> set xs" "epoch_val (ee_epoch a) < epoch_val (ee_epoch b)"
    then show "path_text (om_location (ee_meta a)) < path_text (om_location (ee_meta b))"
      using assms path_text_less [of "ee_epoch a" "ee_epoch b" dir]
      by (simp add: wf_dir_def lease_ok_def epoch_less_def)
  qed
qed

section \<open>Claiming the next epoch\<close>

definition next_of :: "epoch_entry list \<Rightarrow> u64" where
  "next_of xs = (if xs = [] then 0 else epoch_val (ee_epoch (last xs)) + 1)"

definition claimed :: "path \<Rightarrow> epoch \<Rightarrow> time \<Rightarrow> epoch_file \<Rightarrow> epoch_entry" where
  "claimed dir e ts file =
     \<lparr>ee_meta = \<lparr>om_location = entry_path dir e, om_modified = ts\<rparr>, ee_file = file, ee_epoch = e\<rparr>"

definition short_lease :: "u64 \<Rightarrow> bool" where
  "short_lease d \<longleftrightarrow> int (unat d) \<le> i64_max div 1000"

lemma foldl_max_sorted: "sorted (a # ys) \<Longrightarrow> foldl max a ys = last (a # ys)" for a :: "'a :: linorder"
  by (induction ys arbitrary: a) auto

lemma sorted_le_last: "sorted ys \<Longrightarrow> y \<in> set ys \<Longrightarrow> y \<le> last ys" for y :: "'a :: linorder"
  by (induction ys) auto

lemma wf_epoch_bound: "wf_epoch e \<Longrightarrow> unat (epoch_val e) < 2 ^ 40"
  using epoch_new_total [of "epoch_val e"] by (fastforce simp: wf_epoch_def)

lemma epoch_val_Suc:
  assumes "wf_epoch e"
  shows "epoch_val e \<noteq> - 1" "unat (epoch_val e + 1) = Suc (unat (epoch_val e))"
proof -
  show "epoch_val e \<noteq> - 1" using wf_epoch_bound [OF assms] by (auto simp: unsigned_minus_1_eq_mask mask_eq_exp_minus_1)
  show "unat (epoch_val e + 1) = Suc (unat (epoch_val e))"
    using wf_epoch_bound [OF assms] by (simp add: unat_word_ariths)
qed

lemma next_val_dir:
  assumes "wf_dir dir xs"
  shows "next_val (map ee_meta xs) = next_of xs"
proof -
  have "List.map_filter meta_epoch (map ee_meta xs) = map ee_epoch xs"
    using meta_epoch_ok [OF wf_dir_ok [OF assms]] by (induction xs) (auto simp: List.map_filter_simps)
  moreover have "sorted (evals xs)" using assms by (auto simp: wf_dir_def strict_sorted_iff)
  then have "xs \<noteq> [] \<Longrightarrow> foldl max (hd (evals xs)) (tl (evals xs)) = epoch_val (ee_epoch (last xs))"
    using foldl_max_sorted [of "hd (evals xs)" "tl (evals xs)"] by (cases xs) (auto simp: last_map)
  moreover have "xs \<noteq> [] \<Longrightarrow> epoch_val (ee_epoch (last xs)) \<noteq> - 1"
    using epoch_val_Suc(1) wf_dir_ok [OF assms] by (auto simp: lease_ok_def)
  ultimately show ?thesis
    by (cases xs) (auto simp: next_val_def next_of_def as_u64_def comp_def)
qed

lemma wf_dir_less_next:
  assumes "wf_dir dir xs" "x \<in> set xs"
  shows "epoch_val (ee_epoch x) < next_of xs"
proof -
  have "sorted (evals xs)" using assms by (auto simp: wf_dir_def strict_sorted_iff)
  then have "epoch_val (ee_epoch x) \<le> last (evals xs)"
    using assms(2) by (intro sorted_le_last) auto
  moreover have ne: "xs \<noteq> []" using assms(2) by auto
  moreover have "wf_epoch (ee_epoch (last xs))"
    using wf_dir_ok [OF assms(1) last_in_set [OF ne]] by (simp add: lease_ok_def)
  ultimately show ?thesis
    using epoch_val_Suc [of "ee_epoch (last xs)"]
    by (simp add: next_of_def last_map word_le_nat_alt word_less_nat_alt)
qed

lemma wf_dir_snoc:
  assumes "wf_dir dir xs" "epoch_new (next_of xs) = Inr e" "short_lease (ef_duration file)"
  shows "wf_dir dir (xs @ [claimed dir e ts file])"
  using assms wf_dir_less_next [OF assms(1)]
  by (auto simp: wf_dir_def claimed_def lease_ok_def short_lease_def epoch_new_Inr sorted_wrt_append)

section \<open>Store access on a directory\<close>

text \<open>What an operation does on a directory: its result and the directory after it.\<close>

definition does where
  "does V clk enc dir m s r ys \<longleftrightarrow> (\<exists>t. m s = (r, t) \<and> holds_dir V enc dir ys t \<and> clk t = clk s)"

lemma does_ok: "holds_dir V enc dir ys s \<Longrightarrow> does V clk enc dir (ok a) s (Inr a) ys"
  by (simp add: does_def ok_def)

lemma does_bnd:
  assumes "does V clk enc dir m s (Inr a) ys"
    and "\<And>t. holds_dir V enc dir ys t \<Longrightarrow> clk t = clk s \<Longrightarrow> does V clk enc dir (f a) t r zs"
  shows "does V clk enc dir (bnd m f) s r zs"
  using assms by (fastforce simp: does_def bnd_def)

lemma does_read: "m s = (Inr a, s) \<Longrightarrow> holds_dir V enc dir ys s \<Longrightarrow> does V clk enc dir m s (Inr a) ys"
  by (simp add: does_def)

lemma bnd_read: "m s = (Inr a, s) \<Longrightarrow> bnd m f s = f a s"
  by (simp add: bnd_def)

context lock_store
begin

lemma list_epoch_metas_dir:
  assumes "holds_dir V (le_enc env) (lk_prefix lk) xs s"
  shows "list_epoch_metas env lk s = (Inr (map ee_meta xs), s)"
proof -
  let ?dir = "lk_prefix lk" and ?k = "\<lambda>m. path_text (om_location m)"
  have wf: "wf_dir ?dir xs" and view: "\<And>p. strict_prefix ?dir p \<Longrightarrow> V s p = map_of (map (obj_of (le_enc env)) xs) p"
    using assms by (auto simp: holds_dir_def)
  obtain ms where ms: "os_list (le_store env) ?dir s = (Inr ms, s)" "distinct (map om_location ms)"
    "\<And>m. m \<in> set ms \<longleftrightarrow> strict_prefix ?dir (om_location m) \<and> (\<exists>v. V s (om_location m) = Some (v, om_modified m))"
    using list_law [of ?dir s] by blast
  have "m \<in> set (map ee_meta xs)" if m: "m \<in> set ms" for m
  proof -
    obtain x where x: "find (\<lambda>y. om_location (ee_meta y) = om_location m) xs = Some x"
      "om_modified (ee_meta x) = om_modified m"
      using m by (auto simp: ms(3) view map_of_objs)
    then have "x \<in> set xs" "om_location (ee_meta x) = om_location m" by (auto simp: find_Some_iff)
    moreover from this x(2) have "m = ee_meta x" by simp
    ultimately show ?thesis by simp
  qed
  moreover have "ee_meta x \<in> set ms" if "x \<in> set xs" for x
    using find_path [OF wf that] lease_ok_under [OF wf_dir_ok [OF wf that]]
    by (simp add: ms(3) view map_of_objs)
  ultimately have set_ms: "set ms = set (map ee_meta xs)" by auto
  have less: "sorted_wrt (\<lambda>a b. ?k a < ?k b) (map ee_meta xs)"
    using wf_dir_path_less [OF wf] by (simp add: sorted_wrt_map)
  then have strict: "sorted_wrt (<) (map ?k (map ee_meta xs))" by (simp add: sorted_wrt_map)
  have "distinct (map ee_meta xs)" "distinct ms"
    using strict ms(2) by (auto simp: strict_sorted_iff distinct_map intro: inj_on_imageI2)
  then have "mset ms = mset (map ee_meta xs)"
    using set_ms set_eq_iff_mset_eq_distinct by blast
  moreover have "filter (\<lambda>m. meta_epoch m \<noteq> None) ms = ms"
    using meta_epoch_ok [OF wf_dir_ok [OF wf]] by (intro filter_True) (auto simp: set_ms)
  moreover have "inj_on ?k (set ms)" "sorted (map ?k (map ee_meta xs))"
    unfolding set_ms using strict by (auto simp: strict_sorted_iff distinct_map intro: inj_on_imageI)
  ultimately show ?thesis
    by (simp add: list_epoch_metas_def bnd_def os_call_def ms(1) ok_def sort_key_inj_key_eq)
qed

lemma read_entry_dir:
  assumes "holds_dir V (le_enc env) dir xs s" "x \<in> set xs"
  shows "read_entry env (ee_meta x) s = (Inr (Some x), s)"
proof -
  have "V s (om_location (ee_meta x)) = Some (le_enc env (ee_file x), om_modified (ee_meta x))"
    using assms find_path [of dir xs x] lease_ok_under [of dir x]
    by (auto simp: holds_dir_def map_of_objs wf_dir_ok [of dir xs x])
  then show ?thesis
    using assms meta_epoch_ok [of dir x] wf_dir_ok [of dir xs x]
    by (simp add: read_entry_def get_law codec_law holds_dir_def)
qed

lemma delete_dir:
  assumes "holds_dir V (le_enc env) dir xs s" and "wf_epoch e"
  shows "does V clk (le_enc env) dir (best_effort_delete env (entry_path dir e)) s (Inr ())
    (filter (\<lambda>x. ee_epoch x \<noteq> e) xs)"
proof -
  have wf: "wf_dir dir xs" using assms(1) by (simp add: holds_dir_def)
  have "map_of (map (obj_of (le_enc env)) (filter (\<lambda>x. ee_epoch x \<noteq> e) xs)) =
      (map_of (map (obj_of (le_enc env)) xs))(entry_path dir e := None)"
    using wf assms(2)
    by (induction xs) (auto simp: obj_of_def wf_dir_def lease_ok_def entry_path_eq fun_eq_iff)
  moreover obtain t where "os_delete (le_store env) (entry_path dir e) s = (Inr (), t)"
    "V t = (V s)(entry_path dir e := None)" "clk t = clk s"
    using delete_law by blast
  ultimately show ?thesis
    using assms(1) wf_dir_filter [OF wf] by (auto simp: does_def best_effort_delete_def holds_dir_def)
qed

lemma first_readable_dir:
  assumes "holds_dir V (le_enc env) dir xs s" "set ys \<subseteq> set xs"
  shows "first_readable_entry env (map ee_meta ys) s = (Inr (case ys of [] \<Rightarrow> None | y # _ \<Rightarrow> Some y), s)"
  using assms by (cases ys) (simp_all add: ok_def bnd_read [OF read_entry_dir])

lemma current_owner_dir:
  assumes "holds_dir V (le_enc env) (lk_prefix lk) xs s"
  shows "current_owner env lk s = (Inr (case xs of [] \<Rightarrow> None | y # _ \<Rightarrow> Some y), s)"
  by (simp add: current_owner_def bnd_def list_epoch_metas_dir [OF assms] first_readable_dir [OF assms order_refl])

lemma should_yield_dir:
  assumes "holds_dir V (le_enc env) dir xs s" "set ys \<subseteq> set xs"
  shows "should_yield env lk (map ee_meta ys) ts s =
    (Inr (\<exists>y \<in> set ys. lk_priority lk < ef_priority (ee_file y) \<and> ts < expiry y), s)"
  using assms(2)
proof (induction ys)
  case (Cons y ys)
  then have "lease_ok dir y" using assms(1) by (auto simp: holds_dir_def wf_dir_def)
  then show ?case using Cons read_entry_dir [OF assms(1), of y]
    by (auto simp: bnd_def lift_res_def expires_at_ok ok_def)
qed (simp add: ok_def)

lemma put_next_epoch_full:
  assumes "holds_dir V (le_enc env) (lk_prefix lk) xs s" "2 ^ 40 \<le> unat (next_of xs)"
  shows "put_next_epoch (Suc fuel) env lk content s = (Inl (Base32Err (Overflow (next_of xs))), s)"
proof -
  have "epoch_new (next_of xs) = Inl (Overflow (next_of xs))" using assms(2) by (simp add: epoch_new_total)
  then show ?thesis
    using assms next_val_dir [of "lk_prefix lk" xs]
    by (simp add: bnd_def list_epoch_metas_dir [OF assms(1)] lift_res_def holds_dir_def)
qed

lemma put_next_epoch_dir:
  assumes hold: "holds_dir V (le_enc env) (lk_prefix lk) xs s" and e: "epoch_new (next_of xs) = Inr e"
    and short: "short_lease (ef_duration content)"
  shows "does V clk (le_enc env) (lk_prefix lk) (put_next_epoch (Suc fuel) env lk content) s
    (Inr (e, clk s, entry_path (lk_prefix lk) e)) (xs @ [claimed (lk_prefix lk) e (clk s) content])"
proof -
  let ?dir = "lk_prefix lk" let ?p = "entry_path ?dir e" let ?new = "claimed ?dir e (clk s) content"
  have wf: "wf_dir ?dir xs" and view: "\<And>p. strict_prefix ?dir p \<Longrightarrow> V s p = map_of (map (obj_of (le_enc env)) xs) p"
    using hold by (auto simp: holds_dir_def)
  have wfe: "wf_epoch e" "epoch_val e = next_of xs" using e by (simp_all add: epoch_new_Inr)
  have fresh: "e \<notin> ee_epoch ` set xs" using wf_dir_less_next [OF wf] wfe(2) by fastforce
  have under: "strict_prefix ?dir ?p" by (simp add: entry_path_def strict_prefix_def)
  have none: "find (\<lambda>y. om_location (ee_meta y) = ?p) xs = None" by (rule find_no_path [OF wf wfe(1) fresh])
  then obtain t where t: "os_create (le_store env) ?p (le_enc env content) s = (Inr (), t)"
      "V t = (V s)(?p \<mapsto> (le_enc env content, clk s))" "clk t = clk s"
    using create_law [of s ?p "le_enc env content"] under by (auto simp: view map_of_objs)
  have "find (\<lambda>y. om_location (ee_meta y) = p) (xs @ [?new]) = (if p = ?p then Some ?new
      else find (\<lambda>y. om_location (ee_meta y) = p) xs)" for p
    using none by (induction xs) (auto simp: claimed_def)
  then have "holds_dir V (le_enc env) ?dir (xs @ [?new]) t"
    using wf_dir_snoc [OF wf e short] view t(2) under
    by (auto simp: holds_dir_def map_of_objs claimed_def simp del: map_append)
  then show ?thesis
    using t e next_val_dir [OF wf]
    by (simp add: does_def bnd_def list_epoch_metas_dir [OF hold] lift_res_def head_law Let_def
        flip: entry_path_def)
qed

end

end
