(* ===== verification/LockOps.thy ===== *)
theory LockOps
  imports LockDir
begin

text \<open>
  The phases of the lease protocol as functions of the lock directory: the scavenging of dead
  entries, the verdict on a claim, the release and the repair.  The operations of \<open>Lock\<close> refine
  them on every object store that keeps the promises of \<open>lock_store\<close>.
\<close>

section \<open>The phases on the entry list\<close>

abbreviation entry_below :: "epoch \<Rightarrow> epoch_entry \<Rightarrow> bool" where
  "entry_below e x \<equiv> epoch_less (ee_epoch x) e"

text \<open>An entry that a scavenging client leaves in place.\<close>

definition kept :: "lock \<Rightarrow> time \<Rightarrow> epoch_entry \<Rightarrow> bool" where
  "kept lk ts x \<longleftrightarrow> ts < expiry x \<and> ef_holder (ee_file x) \<noteq> lk_holder lk"

definition scavenged :: "lock \<Rightarrow> epoch \<Rightarrow> time \<Rightarrow> epoch_entry list \<Rightarrow> epoch_entry list" where
  "scavenged lk e ts xs = filter (\<lambda>x. entry_below e x \<longrightarrow> kept lk ts x) xs"

definition regressed :: "lock \<Rightarrow> epoch \<Rightarrow> time \<Rightarrow> epoch_entry list \<Rightarrow> bool" where
  "regressed lk e ts xs \<longleftrightarrow>
     (\<exists>x \<in> set xs. entry_below e x \<and> kept lk ts x \<and> ts < om_modified (ee_meta x))"

definition outranked :: "lock \<Rightarrow> epoch \<Rightarrow> time \<Rightarrow> epoch_entry list \<Rightarrow> bool" where
  "outranked lk e ts xs \<longleftrightarrow>
     (\<exists>x \<in> set xs. epoch_less e (ee_epoch x) \<and> lk_priority lk < ef_priority (ee_file x) \<and> ts < expiry x)"

definition verdict :: "lock \<Rightarrow> epoch \<Rightarrow> time \<Rightarrow> bool \<Rightarrow> epoch_entry list \<Rightarrow> acquisition_status" where
  "verdict lk e ts regression xs =
     (if e \<notin> ee_epoch ` set xs then Failed
      else case filter (entry_below e) xs of
        owner # _ \<Rightarrow>
          if regression then QueuedBackwardClock
          else if ef_priority (ee_file owner) < lk_priority lk then Queued else Failed
      | [] \<Rightarrow> if outranked lk e ts xs then Yielded else Owner e)"

definition decision :: "lock \<Rightarrow> epoch \<Rightarrow> time \<Rightarrow> epoch_entry list \<Rightarrow> acquisition_status" where
  "decision lk e ts xs = verdict lk e ts (regressed lk e ts xs) (scavenged lk e ts xs)"

definition dropped :: "acquisition_status \<Rightarrow> bool" where
  "dropped st \<longleftrightarrow> st = Failed \<or> st = Yielded"

definition without :: "epoch \<Rightarrow> epoch_entry list \<Rightarrow> epoch_entry list" where
  "without e xs = filter (\<lambda>x. ee_epoch x \<noteq> e) xs"

definition after_verdict :: "acquisition_status \<Rightarrow> epoch \<Rightarrow> epoch_entry list \<Rightarrow> epoch_entry list" where
  "after_verdict st e xs = (if dropped st then without e xs else xs)"

definition fast_path :: "lock \<Rightarrow> time \<Rightarrow> epoch_entry list \<Rightarrow> bool" where
  "fast_path lk now xs =
     (case xs of
        [] \<Rightarrow> False
      | x # _ \<Rightarrow> ef_holder (ee_file x) \<noteq> lk_holder lk \<and> lk_priority lk \<le> ef_priority (ee_file x) \<and>
          om_modified (ee_meta x) \<le> now \<and> now < expiry x)"

definition lease_file :: "lock \<Rightarrow> epoch_file" where
  "lease_file lk = \<lparr>ef_holder = lk_holder lk, ef_priority = lk_priority lk, ef_duration = lk_duration lk\<rparr>"

text \<open>A whole acquisition on a directory that nobody else touches meanwhile, with the time of the
  caller and the time of the store.\<close>

definition acquire_spec ::
  "lock \<Rightarrow> time \<Rightarrow> time \<Rightarrow> epoch_entry list \<Rightarrow> (lock_error + acquisition_status) \<times> epoch_entry list" where
  "acquire_spec lk now ts xs =
     (if fast_path lk now xs then (Inr NotOwner, xs)
      else case epoch_new (next_of xs) of
        Inl x \<Rightarrow> (Inl (Base32Err x), xs)
      | Inr e \<Rightarrow>
          let ys = xs @ [claimed (lk_prefix lk) e ts (lease_file lk)]; st = decision lk e ts ys
          in (Inr st, after_verdict st e (scavenged lk e ts ys)))"

text \<open>The entries that the repair leaves: the first active one.\<close>

fun survivors :: "bool \<Rightarrow> epoch \<Rightarrow> time \<Rightarrow> epoch_entry list \<Rightarrow> epoch_entry list" where
  "survivors found e ts [] = []"
| "survivors found e ts (x # xs) =
     (if ee_epoch x = e then survivors found e ts xs
      else if \<not> found \<and> ts < expiry x then [x]
      else survivors found e ts xs)"

lemma survivors_sub: "set (survivors found e ts xs) \<subseteq> {x \<in> set xs. ee_epoch x \<noteq> e}"
  by (induction xs) auto

lemma survivors_found: "survivors True e ts xs = []"
  by (induction xs) auto

lemma filter_first: "distinct xs \<Longrightarrow> filter (\<lambda>x. x \<in> set (take 1 (filter P xs))) xs = take 1 (filter P xs)"
proof (induction xs)
  case (Cons a xs)
  have "a \<notin> set (take 1 (filter P xs))" using Cons.prems in_set_takeD by fastforce
  with Cons show ?case by (auto intro: filter_False)
qed simp

lemma survivors_snoc:
  assumes "distinct xs" "\<And>x. x \<in> set xs \<Longrightarrow> ee_epoch x \<noteq> e" "ee_epoch y = e"
  shows "without e (filter (\<lambda>x. x \<in> set (xs @ [y]) \<longrightarrow> x \<in> set (survivors False e ts (xs @ [y]))) (xs @ [y])) =
    take 1 (filter (\<lambda>x. ts < expiry x) xs)" (is "?l = ?r")
proof -
  have surv: "survivors False e ts (xs @ [y]) = ?r"
    using assms(2,3) by (induction xs) auto
  have "?l = filter (\<lambda>x. x \<in> set ?r) xs"
    unfolding surv without_def using assms(2,3) by (auto intro!: filter_cong)
  also have "\<dots> = ?r" by (rule filter_first [OF assms(1)])
  finally show ?thesis .
qed

section \<open>Partitions of a directory\<close>

lemma takeWhile_filter:
  "sorted_wrt (\<lambda>a b. P b \<longrightarrow> P a) xs \<Longrightarrow> takeWhile P xs = filter P xs"
  by (induction xs) (auto simp: filter_empty_conv)

lemma below_ok: "lease_ok dir x \<Longrightarrow> below e (ee_meta x) \<longleftrightarrow> entry_below e x"
  by (simp add: below_def meta_epoch_ok)

lemma takeWhile_below:
  assumes "wf_dir dir xs"
  shows "takeWhile (below e) (map ee_meta xs) = map ee_meta (filter (entry_below e) xs)"
proof -
  have "takeWhile (below e \<circ> ee_meta) xs = takeWhile (entry_below e) xs"
    using assms by (intro takeWhile_cong) (auto simp: wf_dir_def below_ok)
  also have "\<dots> = filter (entry_below e) xs"
    using assms by (intro takeWhile_filter)
      (auto simp: wf_dir_def sorted_wrt_map epoch_less_def elim!: sorted_wrt_mono_rel [rotated])
  finally show ?thesis by (simp add: takeWhile_map)
qed

lemma partition_loop_dir:
  assumes "\<And>x. x \<in> set xs \<Longrightarrow> lease_ok dir x"
  shows "partition_loop (map ee_meta xs) e lower present higher =
    (lower @ map ee_meta (filter (entry_below e) xs), present \<or> e \<in> ee_epoch ` set xs,
     higher @ map ee_meta (filter (\<lambda>x. \<not> entry_below e x \<and> ee_epoch x \<noteq> e) xs))"
  using assms
proof (induction xs arbitrary: lower present higher)
  case (Cons x xs)
  have "meta_epoch (ee_meta x) = Some (ee_epoch x)" by (rule meta_epoch_ok [of dir]) (simp add: Cons.prems)
  then show ?case using Cons by (auto simp: epoch_less_def)
qed simp

lemma partition_around_dir:
  assumes "wf_dir dir xs" "wf_epoch e"
  shows "partition_around (map ee_meta xs) e =
    (map ee_meta (filter (entry_below e) xs), e \<in> ee_epoch ` set xs,
     map ee_meta (filter (\<lambda>x. epoch_less e (ee_epoch x)) xs))"
proof -
  have "filter (\<lambda>x. \<not> entry_below e x \<and> ee_epoch x \<noteq> e) xs = filter (\<lambda>x. epoch_less e (ee_epoch x)) xs"
    using assms wf_epoch_eq [OF assms(2)]
    by (intro filter_cong refl) (auto simp: wf_dir_def lease_ok_def epoch_less_def not_less le_less)
  then show ?thesis
    using partition_loop_dir [of xs dir] assms(1) by (simp add: partition_around_def wf_dir_def)
qed

section \<open>The phases of the code\<close>

context lock_store
begin

lemma delete_entry:
  assumes "holds_dir V (le_enc env) dir xs s" "x \<in> set xs"
  shows "does V clk (le_enc env) dir (best_effort_delete env (om_location (ee_meta x))) s (Inr ())
    (filter (\<lambda>y. y \<noteq> x) xs)"
proof -
  have wf: "wf_dir dir xs" "lease_ok dir x" using assms by (auto simp: holds_dir_def wf_dir_def)
  have "filter (\<lambda>y. y \<noteq> x) xs = filter (\<lambda>y. ee_epoch y \<noteq> ee_epoch x) xs"
    using wf_dir_epochs [OF wf(1) _ assms(2)] by (intro filter_cong refl) auto
  then show ?thesis
    using delete_dir [OF assms(1), of "ee_epoch x"] wf(2) by (simp add: lease_ok_def)
qed

lemma scavenge_loop_dir:
  assumes "holds_dir V (le_enc env) dir xs s" "set ys \<subseteq> set xs" "distinct ys"
  shows "does V clk (le_enc env) dir (scavenge_loop env lk ts (map ee_meta ys) reg) s
    (Inr (reg \<or> (\<exists>y \<in> set ys. kept lk ts y \<and> ts < om_modified (ee_meta y))))
    (filter (\<lambda>x. x \<in> set ys \<longrightarrow> kept lk ts x) xs)"
  using assms
proof (induction ys arbitrary: xs s reg)
  case Nil
  then show ?case by (simp add: does_ok)
next
  case (Cons y ys)
  have y: "lease_ok dir y" "y \<in> set xs" using Cons.prems by (auto simp: holds_dir_def wf_dir_def)
  let ?rest = "\<lambda>reg. scavenge_loop env lk ts (map ee_meta ys) reg"
  have step: "scavenge_loop env lk ts (map ee_meta (y # ys)) reg s =
      (if kept lk ts y then ?rest (reg \<or> ts < om_modified (ee_meta y))
       else bnd (best_effort_delete env (om_location (ee_meta y))) (\<lambda>_. ?rest reg)) s"
    using read_entry_dir [OF Cons.prems(1) y(2)]
    by (auto simp: bnd_def lift_res_def is_expired_at_ok [OF y(1)] kept_def is_owned_by_def)
  show ?case
  proof (cases "kept lk ts y")
    case True
    then have "filter (\<lambda>x. x \<in> set (y # ys) \<longrightarrow> kept lk ts x) xs = filter (\<lambda>x. x \<in> set ys \<longrightarrow> kept lk ts x) xs"
      by (intro filter_cong refl) auto
    with True show ?thesis
      using Cons.IH [OF Cons.prems(1), of "reg \<or> ts < om_modified (ee_meta y)"] Cons.prems(2,3)
      by (simp only: does_def step) (simp add: disj_assoc)
  next
    case False
    have "does V clk (le_enc env) dir (bnd (best_effort_delete env (om_location (ee_meta y))) (\<lambda>_. ?rest reg)) s
      (Inr (reg \<or> (\<exists>y \<in> set ys. kept lk ts y \<and> ts < om_modified (ee_meta y))))
      (filter (\<lambda>x. x \<in> set ys \<longrightarrow> kept lk ts x) (filter (\<lambda>z. z \<noteq> y) xs))"
      using Cons.prems by (intro does_bnd [OF delete_entry [OF Cons.prems(1) y(2)]] Cons.IH) auto
    moreover have "filter (\<lambda>x. x \<in> set ys \<longrightarrow> kept lk ts x) (filter (\<lambda>z. z \<noteq> y) xs) =
        filter (\<lambda>x. x \<in> set (y # ys) \<longrightarrow> kept lk ts x) xs"
      using False by (auto intro: filter_cong)
    ultimately show ?thesis using False by (simp only: does_def step) simp
  qed
qed

lemma scavenge_below_dir:
  assumes "holds_dir V (le_enc env) (lk_prefix lk) xs s"
  shows "does V clk (le_enc env) (lk_prefix lk) (scavenge_below env lk e ts) s
    (Inr (regressed lk e ts xs)) (scavenged lk e ts xs)"
proof -
  let ?low = "filter (entry_below e) xs"
  have wf: "wf_dir (lk_prefix lk) xs" using assms by (simp add: holds_dir_def)
  then have "distinct xs" by (auto simp: wf_dir_def strict_sorted_iff distinct_map)
  then have "does V clk (le_enc env) (lk_prefix lk) (scavenge_loop env lk ts (map ee_meta ?low) False) s
      (Inr (False \<or> (\<exists>y \<in> set ?low. kept lk ts y \<and> ts < om_modified (ee_meta y))))
      (filter (\<lambda>x. x \<in> set ?low \<longrightarrow> kept lk ts x) xs)"
    by (intro scavenge_loop_dir [OF assms]) auto
  moreover have "filter (\<lambda>x. x \<in> set ?low \<longrightarrow> kept lk ts x) xs = scavenged lk e ts xs"
    unfolding scavenged_def by (intro filter_cong refl) auto
  ultimately show ?thesis
    by (simp add: does_def scavenge_below_def bnd_def list_epoch_metas_dir [OF assms] takeWhile_below [OF wf]
        regressed_def Bex_def conj_assoc)
qed

lemma delete_own:
  assumes "holds_dir V (le_enc env) dir xs s" "wf_epoch e"
  shows "does V clk (le_enc env) dir (bnd (best_effort_delete env (entry_path dir e)) (\<lambda>_. ok a)) s
    (Inr a) (without e xs)"
  unfolding without_def by (rule does_bnd [OF delete_dir [OF assms]]) (rule does_ok)

lemma verify_rest_dir:
  assumes "holds_dir V (le_enc env) (lk_prefix lk) xs s" "wf_epoch e"
  shows "does V clk (le_enc env) (lk_prefix lk)
    (verify_rest env lk e ts (entry_path (lk_prefix lk) e) reg) s
    (Inr (verdict lk e ts reg xs)) (after_verdict (verdict lk e ts reg xs) e xs)"
proof -
  let ?low = "filter (entry_below e) xs" and ?high = "filter (\<lambda>x. epoch_less e (ee_epoch x)) xs"
  have wf: "wf_dir (lk_prefix lk) xs" using assms(1) by (simp add: holds_dir_def)
  have sub: "set ?low \<subseteq> set xs" "set ?high \<subseteq> set xs" by auto
  note own = delete_own [OF assms]
  have eval: "verify_rest env lk e ts (entry_path (lk_prefix lk) e) reg s =
    (if e \<notin> ee_epoch ` set xs then bnd (best_effort_delete env (entry_path (lk_prefix lk) e)) (\<lambda>_. ok Failed) s
     else case ?low of
       owner # _ \<Rightarrow> classify_loss env lk owner reg (entry_path (lk_prefix lk) e) s
     | [] \<Rightarrow> if outranked lk e ts xs
         then bnd (best_effort_delete env (entry_path (lk_prefix lk) e)) (\<lambda>_. ok Yielded) s
         else ok (Owner e) s)"
    using first_readable_dir [OF assms(1) sub(1)] should_yield_dir [OF assms(1) sub(2), of lk ts]
    by (auto simp: verify_rest_def bnd_def list_epoch_metas_dir [OF assms(1)] partition_around_dir [OF wf assms(2)]
        outranked_def conj_assoc split: list.split)
  consider "e \<notin> ee_epoch ` set xs" | owner os where "e \<in> ee_epoch ` set xs" "?low = owner # os"
    | "e \<in> ee_epoch ` set xs" "?low = []" by (cases ?low) auto
  then show ?thesis
  proof cases
    case 1
    then show ?thesis using own [of Failed] by (simp add: does_def eval verdict_def after_verdict_def dropped_def)
  next
    case 2
    then show ?thesis using own [of Failed] assms(1)
      by (auto simp: does_def eval verdict_def after_verdict_def dropped_def classify_loss_def ok_def)
  next
    case 3
    then show ?thesis using own [of Yielded] assms(1)
      by (auto simp: does_def eval verdict_def after_verdict_def dropped_def ok_def)
  qed
qed

lemma verify_ownership_dir:
  assumes "holds_dir V (le_enc env) (lk_prefix lk) xs s" "wf_epoch e"
  shows "does V clk (le_enc env) (lk_prefix lk)
    (verify_ownership env lk e ts (entry_path (lk_prefix lk) e)) s (Inr (decision lk e ts xs))
    (after_verdict (decision lk e ts xs) e (scavenged lk e ts xs))"
  unfolding verify_ownership_def decision_def
  by (rule does_bnd [OF scavenge_below_dir [OF assms(1)]]) (rule verify_rest_dir [OF _ assms(2)])

lemma held_by_other_dir:
  assumes "holds_dir V (le_enc env) dir xs s"
  shows "held_by_other env lk (case xs of [] \<Rightarrow> None | x # _ \<Rightarrow> Some x) s = (Inr (fast_path lk (le_now env s) xs), s)"
proof (cases xs)
  case (Cons x ys)
  then have "lease_ok dir x" using assms by (simp add: holds_dir_def wf_dir_def)
  then show ?thesis
    by (auto simp: Cons held_by_other_def fast_path_def ok_def bnd_def get_st_def lift_res_def expires_at_ok
        is_owned_by_def not_le)
qed (simp add: held_by_other_def fast_path_def ok_def)

lemma acquire_dir:
  assumes hold: "holds_dir V (le_enc env) (lk_prefix lk) xs s" and short: "short_lease (lk_duration lk)"
  shows "does V clk (le_enc env) (lk_prefix lk) (acquire (Suc fuel) env lk) s
    (fst (acquire_spec lk (le_now env s) (clk s) xs)) (snd (acquire_spec lk (le_now env s) (clk s) xs))"
proof -
  let ?dir = "lk_prefix lk"
  have pre: "acquire (Suc fuel) env lk s =
      (if fast_path lk (le_now env s) xs then ok NotOwner s
       else bnd (claim_epoch (Suc fuel) env lk) (\<lambda>(my_epoch, my_timestamp, path).
              verify_ownership env lk my_epoch my_timestamp path) s)"
    by (simp add: acquire_def bnd_def current_owner_dir [OF hold] held_by_other_dir [OF hold])
  show ?thesis
  proof (cases "fast_path lk (le_now env s) xs")
    case True
    then show ?thesis using hold by (simp add: does_def pre acquire_spec_def ok_def)
  next
    case False
    show ?thesis
    proof (cases "epoch_new (next_of xs)")
      case (Inl x)
      then have "x = Overflow (next_of xs)" "2 ^ 40 \<le> unat (next_of xs)" by (simp_all add: epoch_new_total)
      with Inl False show ?thesis
        using hold put_next_epoch_full [OF hold]
        by (simp add: does_def pre acquire_spec_def claim_epoch_def bnd_def del: put_next_epoch.simps)
    next
      case (Inr e)
      then have wfe: "wf_epoch e" by (simp add: epoch_new_Inr)
      let ?ys = "xs @ [claimed ?dir e (clk s) (lease_file lk)]"
      have claim: "does V clk (le_enc env) ?dir (claim_epoch (Suc fuel) env lk) s
          (Inr (e, clk s, entry_path ?dir e)) ?ys"
        using put_next_epoch_dir [OF hold Inr, of "lease_file lk"] short
        by (simp add: claim_epoch_def lease_file_def del: put_next_epoch.simps)
      have "does V clk (le_enc env) ?dir (bnd (claim_epoch (Suc fuel) env lk) (\<lambda>(e, ts, path). verify_ownership env lk e ts path)) s
          (Inr (decision lk e (clk s) ?ys)) (after_verdict (decision lk e (clk s) ?ys) e (scavenged lk e (clk s) ?ys))"
        by (rule does_bnd [OF claim]) (simp add: verify_ownership_dir [OF _ wfe])
      with Inr False show ?thesis by (simp add: does_def pre acquire_spec_def Let_def)
    qed
  qed
qed

lemma release_loop_dir:
  assumes "holds_dir V (le_enc env) dir xs s" "set ys \<subseteq> set xs" "distinct ys"
  shows "does V clk (le_enc env) dir (release_loop env lk (map ee_meta ys)) s (Inr ())
    (filter (\<lambda>x. x \<in> set ys \<longrightarrow> ef_holder (ee_file x) \<noteq> lk_holder lk) xs)"
  using assms
proof (induction ys arbitrary: xs s)
  case Nil
  then show ?case by (simp add: does_ok)
next
  case (Cons y ys)
  let ?P = "\<lambda>x. ef_holder (ee_file x) \<noteq> lk_holder lk"
  have y: "y \<in> set xs" using Cons.prems by auto
  let ?xs = "if ?P y then xs else filter (\<lambda>z. z \<noteq> y) xs"
  have "does V clk (le_enc env) dir
      (if is_owned_by y (lk_holder lk) then best_effort_delete env (om_location (ee_meta y)) else ok ()) s (Inr ()) ?xs"
    using delete_entry [OF Cons.prems(1) y] by (simp add: is_owned_by_def does_ok [OF Cons.prems(1)])
  from this have "does V clk (le_enc env) dir (bnd (if is_owned_by y (lk_holder lk)
      then best_effort_delete env (om_location (ee_meta y)) else ok ()) (\<lambda>_. release_loop env lk (map ee_meta ys))) s (Inr ())
      (filter (\<lambda>x. x \<in> set ys \<longrightarrow> ?P x) ?xs)"
    by (rule does_bnd) (rule Cons.IH, use Cons.prems in \<open>auto split: if_splits\<close>)
  then have "does V clk (le_enc env) dir (release_loop env lk (map ee_meta (y # ys))) s (Inr ())
      (filter (\<lambda>x. x \<in> set ys \<longrightarrow> ?P x) ?xs)"
    using read_entry_dir [OF Cons.prems(1) y] by (simp add: does_def bnd_def)
  moreover have "filter (\<lambda>x. x \<in> set ys \<longrightarrow> ?P x) ?xs = filter (\<lambda>x. x \<in> set (y # ys) \<longrightarrow> ?P x) xs"
    by (auto intro!: filter_cong)
  ultimately show ?case by simp
qed

lemma release_dir:
  assumes "holds_dir V (le_enc env) (lk_prefix lk) xs s"
  shows "does V clk (le_enc env) (lk_prefix lk) (release env lk) s (Inr ())
    (filter (\<lambda>x. ef_holder (ee_file x) \<noteq> lk_holder lk) xs)"
proof -
  have "distinct xs" using assms by (auto simp: holds_dir_def wf_dir_def strict_sorted_iff distinct_map)
  from release_loop_dir [OF assms order_refl this, of lk] show ?thesis
    by (simp add: does_def release_def bnd_def list_epoch_metas_dir [OF assms] cong: filter_cong)
qed

lemma break_loop_dir:
  assumes "holds_dir V (le_enc env) dir xs s" "set ys \<subseteq> set xs" "distinct ys" "wf_epoch e"
  shows "does V clk (le_enc env) dir (break_loop env e ts (entry_path dir e) (map ee_meta ys) found) s (Inr ())
    (without e (filter (\<lambda>x. x \<in> set ys \<longrightarrow> x \<in> set (survivors found e ts ys)) xs))"
  using assms
proof (induction ys arbitrary: xs s found)
  case Nil
  then show ?case using delete_dir [OF Nil.prems(1,4)] by (simp add: without_def)
next
  case (Cons y ys)
  let ?rest = "\<lambda>found. break_loop env e ts (entry_path dir e) (map ee_meta ys) found"
  have y: "y \<in> set xs" "lease_ok dir y" "y \<notin> set ys" using Cons.prems by (auto simp: holds_dir_def wf_dir_def)
  have get: "os_get (le_store env) (om_location (ee_meta y)) s = (Inr (le_enc env (ee_file y)), s)"
    using Cons.prems(1) find_path [of dir xs y] lease_ok_under [OF y(2)] y(1)
    by (simp add: get_law holds_dir_def map_of_objs)
  have "\<lparr>ee_meta = ee_meta y, ee_file = ee_file y, ee_epoch = ee_epoch y\<rparr> = y" by simp
  then have expired: "is_expired_at \<lparr>ee_meta = ee_meta y, ee_file = ee_file y, ee_epoch = ee_epoch y\<rparr> ts =
      Inr (expiry y \<le> ts)" using is_expired_at_ok [OF y(2)] by (simp only:)
  have step: "break_loop env e ts (entry_path dir e) (map ee_meta (y # ys)) found s =
      (if ee_epoch y = e then ?rest found
       else if \<not> found \<and> ts < expiry y then ?rest True
       else bnd (best_effort_delete env (om_location (ee_meta y))) (\<lambda>_. ?rest found)) s"
    using get meta_epoch_ok [OF y(2)] expired by (simp add: codec_law not_le)
  have IH: "does V clk (le_enc env) dir (?rest found) s (Inr ())
      (without e (filter (\<lambda>x. x \<in> set ys \<longrightarrow> x \<in> set (survivors found e ts ys)) xs))" for found
    using Cons.IH [OF Cons.prems(1)] Cons.prems(2-4) by simp
  have del: "does V clk (le_enc env) dir (bnd (best_effort_delete env (om_location (ee_meta y))) (\<lambda>_. ?rest found)) s (Inr ())
      (without e (filter (\<lambda>x. x \<in> set ys \<longrightarrow> x \<in> set (survivors found e ts ys)) (filter (\<lambda>z. z \<noteq> y) xs)))"
    by (rule does_bnd [OF delete_entry [OF Cons.prems(1) y(1)]])
      (rule Cons.IH, use Cons.prems y(3) in auto)
  have drop: "without e (filter (\<lambda>x. x \<in> set ys \<longrightarrow> x \<in> set (survivors f e ts ys)) (filter Q xs)) =
      without e (filter (\<lambda>x. x \<in> set (y # ys) \<longrightarrow> x \<in> set (survivors found e ts (y # ys))) xs)"
    if "ee_epoch y = e \<and> f = found \<and> Q = (\<lambda>_. True) \<or>
        ee_epoch y \<noteq> e \<and> \<not> found \<and> ts < expiry y \<and> f = True \<and> Q = (\<lambda>_. True) \<or>
        ee_epoch y \<noteq> e \<and> (found \<or> \<not> ts < expiry y) \<and> f = found \<and> Q = (\<lambda>z. z \<noteq> y)" for f Q
    unfolding without_def filter_filter using that y(3) survivors_sub [of found e ts ys]
    by (intro filter_cong refl) (auto simp: survivors_found)
  note drops = drop [of found "\<lambda>_. True"] drop [of True "\<lambda>_. True"] drop [of found "\<lambda>z. z \<noteq> y"]
  show ?case
    using IH [of found] IH [of True] del drops
    by (simp only: does_def step split: if_split) auto
qed

lemma unsafe_break_locks_dir:
  assumes hold: "holds_dir V (le_enc env) (lk_prefix lk) xs s" and room: "unat (next_of xs) < 2 ^ 40"
  shows "does V clk (le_enc env) (lk_prefix lk) (unsafe_break_locks (Suc fuel) env lk) s (Inr ())
    (take 1 (filter (\<lambda>x. clk s < expiry x) xs))"
proof -
  let ?dir = "lk_prefix lk"
  let ?file = "\<lparr>ef_holder = lk_holder lk @ ''-breaker'', ef_priority = 0, ef_duration = 0\<rparr>"
  obtain e where e: "epoch_new (next_of xs) = Inr e" using room epoch_new_total [of "next_of xs"]
    by (cases "epoch_new (next_of xs)") auto
  let ?ys = "xs @ [claimed ?dir e (clk s) ?file]"
  have wf: "wf_dir ?dir xs" "wf_epoch e" "epoch_val e = next_of xs"
    using hold e by (simp_all add: holds_dir_def epoch_new_Inr)
  have fresh: "e \<noteq> ee_epoch x" if "x \<in> set xs" for x using wf_dir_less_next [OF wf(1) that] wf(3) by auto
  have claim: "does V clk (le_enc env) ?dir (put_next_epoch (Suc fuel) env lk ?file) s (Inr (e, clk s, entry_path ?dir e)) ?ys"
    by (rule put_next_epoch_dir [OF hold e]) (simp add: short_lease_def i64_max_def)
  have left: "without e (filter (\<lambda>x. x \<in> set ?ys \<longrightarrow> x \<in> set (survivors False e (clk s) ?ys)) ?ys) =
      take 1 (filter (\<lambda>x. clk s < expiry x) xs)"
  proof (rule survivors_snoc)
    show "distinct xs" using wf(1) by (auto simp: wf_dir_def strict_sorted_iff distinct_map)
  qed (use fresh in \<open>auto simp: claimed_def\<close>)
  show ?thesis
    unfolding unsafe_break_locks_def
  proof (rule does_bnd [OF claim])
    fix t assume t: "holds_dir V (le_enc env) ?dir ?ys t" "clk t = clk s"
    have "distinct ?ys" using t(1) by (auto simp: holds_dir_def wf_dir_def strict_sorted_iff distinct_map)
    from break_loop_dir [OF t(1) order_refl this wf(2), of "clk s" False]
    show "does V clk (le_enc env) ?dir ((\<lambda>(my_epoch, my_timestamp, my_path) s.
        case list_epoch_metas env lk s of
          (Inl x, u) \<Rightarrow> bnd (best_effort_delete env my_path) (\<lambda>_. err x) u
        | (Inr metas, u) \<Rightarrow> break_loop env my_epoch my_timestamp my_path metas False u)
        (e, clk s, entry_path ?dir e)) t (Inr ()) (take 1 (filter (\<lambda>x. clk s < expiry x) xs))"
      unfolding left by (simp add: does_def list_epoch_metas_dir [OF t(1)])
  qed
qed

end

end
