(* ===== verification/LockProto.thy ===== *)
theory LockProto
  imports LockOps
begin

text \<open>
  Clients that contend for one lock.  A client runs \<open>acquire\<close> again and again, to take the lock or
  to renew it, and the phases of its calls interleave with those of the others and with the passing
  of time: the check of the current owner, \<open>claim_epoch\<close>, \<open>scavenge_below\<close> and the rest of
  \<open>verify_ownership\<close> are one step each.  A client believes that it holds the lock from the verdict
  \<open>Owner\<close> until its next call says otherwise, as the guard of the code does.
\<close>

section \<open>Steps\<close>

datatype lock_pc = Idle | Checked | Claimed epoch time | Scavenged epoch time bool

record 'o lock_sys =
  ls_store :: 'o
  ls_pc :: "nat \<Rightarrow> lock_pc"
  ls_holds :: "nat \<Rightarrow> (epoch \<times> time) option"

definition lease :: "lock \<Rightarrow> epoch \<Rightarrow> time \<Rightarrow> epoch_entry" where
  "lease lk e ts = claimed (lk_prefix lk) e ts (lease_file lk)"

definition at_client :: "'o lock_sys \<Rightarrow> nat \<Rightarrow> 'o \<Rightarrow> lock_pc \<Rightarrow> (epoch \<times> time) option \<Rightarrow> 'o lock_sys" where
  "at_client S i s p b = S\<lparr>ls_store := s, ls_pc := (ls_pc S)(i := p), ls_holds := (ls_holds S)(i := b)\<rparr>"

text \<open>A step of the system, by the client it is a step of.  The last two phases require that the
  client's own claim has not expired: a client that is frozen for longer than its lease in the middle
  of a call is outside the protocol.\<close>

inductive lock_step ::
  "('o, 'v) lock_env \<Rightarrow> ('o \<Rightarrow> path \<rightharpoonup> 'v \<times> time) \<Rightarrow> ('o \<Rightarrow> time) \<Rightarrow> (nat \<Rightarrow> lock) \<Rightarrow> 'o lock_sys \<Rightarrow> 'o lock_sys \<Rightarrow> bool"
  for env V clk L where
  check: "ls_pc S i = Idle \<Longrightarrow> bnd (current_owner env (L i)) (held_by_other env (L i)) (ls_store S) = (Inr held, t) \<Longrightarrow>
    lock_step env V clk L S (at_client S i t (if held then Idle else Checked) (if held then None else ls_holds S i))"
| claim: "ls_pc S i = Checked \<Longrightarrow> claim_epoch (Suc fuel) env (L i) (ls_store S) = (Inr (e, ts, p), t) \<Longrightarrow>
    lock_step env V clk L S (at_client S i t (Claimed e ts) (ls_holds S i))"
| claim_failed: "ls_pc S i = Checked \<Longrightarrow> claim_epoch (Suc fuel) env (L i) (ls_store S) = (Inl x, t) \<Longrightarrow>
    lock_step env V clk L S (at_client S i t Idle (ls_holds S i))"
| scavenge: "ls_pc S i = Claimed e ts \<Longrightarrow> clk (ls_store S) < expiry (lease (L i) e ts) \<Longrightarrow>
    scavenge_below env (L i) e ts (ls_store S) = (Inr reg, t) \<Longrightarrow>
    lock_step env V clk L S (at_client S i t (Scavenged e ts reg) (ls_holds S i))"
| verify: "ls_pc S i = Scavenged e ts reg \<Longrightarrow> clk (ls_store S) < expiry (lease (L i) e ts) \<Longrightarrow>
    verify_rest env (L i) e ts (entry_path (lk_prefix (L i)) e) reg (ls_store S) = (Inr st, t) \<Longrightarrow>
    lock_step env V clk L S (at_client S i t Idle (if st = Owner e then Some (e, ts) else None))"
| let_go: "ls_pc S i = Idle \<Longrightarrow> release env (L i) (ls_store S) = (Inr u, t) \<Longrightarrow>
    lock_step env V clk L S (at_client S i t Idle None)"
| crash: "lock_step env V clk L S (at_client S i (ls_store S) Idle None)"
| tick: "V t = V (ls_store S) \<Longrightarrow> clk (ls_store S) \<le> clk t \<Longrightarrow>
    lock_step env V clk L S (S\<lparr>ls_store := t\<rparr>)"

abbreviation lock_steps where
  "lock_steps env V clk L \<equiv> (lock_step env V clk L)\<^sup>*\<^sup>*"

definition lock_init :: "('o \<Rightarrow> path \<rightharpoonup> 'v \<times> time) \<Rightarrow> (epoch_file \<Rightarrow> 'v) \<Rightarrow> path \<Rightarrow> 'o lock_sys \<Rightarrow> bool" where
  "lock_init V enc dir S \<longleftrightarrow> (\<exists>xs. holds_dir V enc dir xs (ls_store S)) \<and>
     ls_pc S = (\<lambda>_. Idle) \<and> ls_holds S = (\<lambda>_. None)"

definition lock_group :: "path \<Rightarrow> (nat \<Rightarrow> lock) \<Rightarrow> bool" where
  "lock_group dir L \<longleftrightarrow> (\<forall>i. lk_prefix (L i) = dir \<and> short_lease (lk_duration (L i))) \<and>
     inj (\<lambda>i. lk_holder (L i))"

section \<open>The invariant\<close>

fun pending :: "lock_pc \<Rightarrow> (epoch \<times> time) option" where
  "pending (Claimed e ts) = Some (e, ts)"
| "pending (Scavenged e ts reg) = Some (e, ts)"
| "pending _ = None"

fun scavenging :: "lock_pc \<Rightarrow> bool" where
  "scavenging (Scavenged e ts reg) = True"
| "scavenging _ = False"

text \<open>A claim is in the directory, and a client that holds the lock is its first entry, while their
  leases last.\<close>

definition client_ok :: "lock \<Rightarrow> epoch_entry list \<Rightarrow> time \<Rightarrow> lock_pc \<Rightarrow> (epoch \<times> time) option \<Rightarrow> bool" where
  "client_ok lk xs now p b \<longleftrightarrow>
     (\<forall>e ts. pending p = Some (e, ts) \<longrightarrow>
        ts \<le> now \<and> wf_epoch e \<and> (now < expiry (lease lk e ts) \<longrightarrow> lease lk e ts \<in> set xs)) \<and>
     (\<forall>e ts. b = Some (e, ts) \<longrightarrow> \<not> scavenging p \<longrightarrow> now < expiry (lease lk e ts) \<longrightarrow>
        lease lk e ts \<in> set xs \<and> (\<forall>x \<in> set xs. \<not> entry_below e x))"

definition lock_inv where
  "lock_inv V clk enc dir L S \<longleftrightarrow> (\<exists>xs. holds_dir V enc dir xs (ls_store S) \<and>
     (\<forall>i. client_ok (L i) xs (clk (ls_store S)) (ls_pc S i) (ls_holds S i)))"

lemma client_ok_idle: "client_ok lk xs now Idle None" "client_ok lk xs now Checked None"
  by (simp_all add: client_ok_def)

lemma client_ok_later: "client_ok lk xs now p b \<Longrightarrow> now \<le> now' \<Longrightarrow> client_ok lk xs now' p b"
  by (auto simp: client_ok_def)

text \<open>What one client's step may do to the directory without disturbing another client.\<close>

lemma client_ok_frame:
  assumes "client_ok lk xs now p b"
    and "\<And>x. x \<in> set xs \<Longrightarrow> now < expiry x \<Longrightarrow> ef_holder (ee_file x) = lk_holder lk \<Longrightarrow> x \<in> set ys"
    and "\<And>x y. y \<in> set ys \<Longrightarrow> x \<in> set xs \<Longrightarrow> y \<notin> set xs \<Longrightarrow> \<not> epoch_less (ee_epoch y) (ee_epoch x)"
  shows "client_ok lk ys now p b"
proof -
  have own: "ef_holder (ee_file (lease lk e ts)) = lk_holder lk" "ee_epoch (lease lk e ts) = e" for e ts
    by (simp_all add: lease_def claimed_def lease_file_def)
  show ?thesis
    using assms(1) assms(2) [OF _ _ own(1)] assms(3) [of _ "lease lk _ _", unfolded own(2)]
    unfolding client_ok_def by blast
qed

lemma lock_inv_step:
  assumes "\<And>i. client_ok (L i) xs now (ls_pc S i) (ls_holds S i)" "lock_group dir L"
    and "client_ok (L j) ys now p b"
    and "\<And>x. x \<in> set xs \<Longrightarrow> now < expiry x \<Longrightarrow> ef_holder (ee_file x) \<noteq> lk_holder (L j) \<Longrightarrow> x \<in> set ys"
    and "\<And>x y. y \<in> set ys \<Longrightarrow> x \<in> set xs \<Longrightarrow> y \<notin> set xs \<Longrightarrow> \<not> epoch_less (ee_epoch y) (ee_epoch x)"
    and "holds_dir V enc dir ys t" "clk t = now"
  shows "lock_inv V clk enc dir L (at_client S j t p b)"
proof -
  have "client_ok (L i) ys now (ls_pc S i) (ls_holds S i)" if "i \<noteq> j" for i
  proof (rule client_ok_frame [OF assms(1) _ assms(5)])
    fix x assume "x \<in> set xs" "now < expiry x" "ef_holder (ee_file x) = lk_holder (L i)"
    with that assms(2,4) show "x \<in> set ys" unfolding lock_group_def inj_def by metis
  qed
  with assms(3,6,7) show ?thesis by (auto simp: lock_inv_def at_client_def)
qed

lemma does_unique:
  "does V clk enc dir m s r ys \<Longrightarrow> m s = (r', t) \<Longrightarrow> r' = r \<and> holds_dir V enc dir ys t \<and> clk t = clk s"
  by (auto simp: does_def)

lemma lease_simps [simp]:
  "ee_epoch (lease lk e ts) = e" "ef_holder (ee_file (lease lk e ts)) = lk_holder lk"
  by (simp_all add: lease_def claimed_def lease_file_def)

lemma verdict_Owner: "verdict lk e ts reg xs = Owner f \<Longrightarrow> f = e \<and> filter (entry_below e) xs = []"
  by (auto simp: verdict_def split: if_splits list.splits)

context lock_store
begin

lemma claim_epoch_dir:
  assumes "holds_dir V (le_enc env) (lk_prefix lk) xs s" "short_lease (lk_duration lk)"
    and "claim_epoch (Suc fuel) env lk s = (r, t)"
  shows "2 ^ 40 \<le> unat (next_of xs) \<and> r = Inl (Base32Err (Overflow (next_of xs))) \<and> t = s \<or>
    (\<exists>e. epoch_new (next_of xs) = Inr e \<and> r = Inr (e, clk s, entry_path (lk_prefix lk) e) \<and>
      holds_dir V (le_enc env) (lk_prefix lk) (xs @ [lease lk e (clk s)]) t \<and> clk t = clk s)"
proof (cases "epoch_new (next_of xs)")
  case (Inl x)
  then have full: "2 ^ 40 \<le> unat (next_of xs)" by (simp add: epoch_new_total)
  with put_next_epoch_full [OF assms(1) full] assms(3) show ?thesis
    by (simp add: claim_epoch_def del: put_next_epoch.simps)
next
  case (Inr e)
  from put_next_epoch_dir [OF assms(1) Inr, of "lease_file lk" fuel] assms(2)
  have "does V clk (le_enc env) (lk_prefix lk) (claim_epoch (Suc fuel) env lk) s
      (Inr (e, clk s, entry_path (lk_prefix lk) e)) (xs @ [lease lk e (clk s)])"
    by (simp add: claim_epoch_def lease_def lease_file_def del: put_next_epoch.simps)
  from does_unique [OF this assms(3)] Inr show ?thesis by blast
qed

lemma lock_inv_claim:
  assumes hold: "holds_dir V (le_enc env) dir xs (ls_store S)" and grp: "lock_group dir L"
    and ok: "\<And>i. client_ok (L i) xs (clk (ls_store S)) (ls_pc S i) (ls_holds S i)"
    and pc: "ls_pc S i = Checked" and new: "epoch_new (next_of xs) = Inr e"
    and t: "holds_dir V (le_enc env) dir (xs @ [lease (L i) e (clk (ls_store S))]) t" "clk t = clk (ls_store S)"
  shows "lock_inv V clk (le_enc env) dir L (at_client S i t (Claimed e (clk (ls_store S))) (ls_holds S i))"
proof (rule lock_inv_step [where L = L and clk = clk, OF ok grp _ _ _ t])
  have wf: "wf_dir dir xs" "wf_epoch e" "epoch_val e = next_of xs"
    using hold new by (simp_all add: holds_dir_def epoch_new_Inr)
  have last: "epoch_less (ee_epoch x) e" if "x \<in> set xs" for x
    using wf_dir_less_next [OF wf(1) that] wf(3) by (simp add: epoch_less_def)
  show "client_ok (L i) (xs @ [lease (L i) e (clk (ls_store S))]) (clk (ls_store S))
      (Claimed e (clk (ls_store S))) (ls_holds S i)"
    using ok [of i] pc wf(2) last by (fastforce simp: client_ok_def epoch_less_def)
  show "\<not> epoch_less (ee_epoch y) (ee_epoch x)"
    if "y \<in> set (xs @ [lease (L i) e (clk (ls_store S))])" "x \<in> set xs" "y \<notin> set xs" for x y
    using that last [OF that(2)] by (auto simp: epoch_less_def)
qed auto

lemma lock_inv_scavenge:
  assumes grp: "lock_group dir L" and ok: "\<And>i. client_ok (L i) xs (clk (ls_store S)) (ls_pc S i) (ls_holds S i)"
    and pc: "ls_pc S i = Claimed e ts" and live: "clk (ls_store S) < expiry (lease (L i) e ts)"
    and t: "holds_dir V (le_enc env) dir (scavenged (L i) e ts xs) t" "clk t = clk (ls_store S)"
  shows "lock_inv V clk (le_enc env) dir L (at_client S i t (Scavenged e ts reg) (ls_holds S i))"
proof (rule lock_inv_step [where L = L and clk = clk, OF ok grp _ _ _ t])
  have mine: "ts \<le> clk (ls_store S)" "wf_epoch e" "lease (L i) e ts \<in> set xs"
    using ok [of i] pc live by (auto simp: client_ok_def)
  then show "client_ok (L i) (scavenged (L i) e ts xs) (clk (ls_store S)) (Scavenged e ts reg) (ls_holds S i)"
    by (simp add: client_ok_def scavenged_def epoch_less_def)
  show "x \<in> set (scavenged (L i) e ts xs)"
    if "x \<in> set xs" "clk (ls_store S) < expiry x" "ef_holder (ee_file x) \<noteq> lk_holder (L i)" for x
    using that mine(1) by (simp add: scavenged_def kept_def)
qed (simp add: scavenged_def)

lemma lock_inv_verify:
  fixes i
  assumes hold: "holds_dir V (le_enc env) dir xs (ls_store S)" and grp: "lock_group dir L"
    and ok: "\<And>i. client_ok (L i) xs (clk (ls_store S)) (ls_pc S i) (ls_holds S i)"
    and pc: "ls_pc S i = Scavenged e ts reg" and live: "clk (ls_store S) < expiry (lease (L i) e ts)"
    and st: "st = verdict (L i) e ts reg xs"
    and t: "holds_dir V (le_enc env) dir (after_verdict st e xs) t" "clk t = clk (ls_store S)"
  shows "lock_inv V clk (le_enc env) dir L (at_client S i t Idle (if st = Owner e then Some (e, ts) else None))"
proof (rule lock_inv_step [where L = L and clk = clk, OF ok grp _ _ _ t])
  have mine: "lease (L i) e ts \<in> set xs" using ok [of i] pc live by (auto simp: client_ok_def)
  show "client_ok (L i) (after_verdict st e xs) (clk (ls_store S)) Idle (if st = Owner e then Some (e, ts) else None)"
    using mine verdict_Owner [of "L i" e ts reg xs e]
    by (auto simp: client_ok_def after_verdict_def dropped_def st filter_empty_conv)
  show "x \<in> set (after_verdict st e xs)"
    if "x \<in> set xs" "clk (ls_store S) < expiry x" "ef_holder (ee_file x) \<noteq> lk_holder (L i)" for x
  proof -
    have "x \<noteq> lease (L i) e ts" using that(3) by auto
    then have "ee_epoch x \<noteq> e"
      using wf_dir_epochs [of dir xs x "lease (L i) e ts"] hold mine that(1) by (auto simp: holds_dir_def)
    with that(1) show ?thesis by (simp add: after_verdict_def without_def)
  qed
qed (auto simp: after_verdict_def without_def split: if_splits)

lemma lock_inv_preserved:
  assumes "lock_step env V clk L S S'" "lock_inv V clk (le_enc env) dir L S" "lock_group dir L"
  shows "lock_inv V clk (le_enc env) dir L S'"
proof -
  obtain xs where hold: "holds_dir V (le_enc env) dir xs (ls_store S)"
    and ok: "\<And>i. client_ok (L i) xs (clk (ls_store S)) (ls_pc S i) (ls_holds S i)"
    using assms(2) by (auto simp: lock_inv_def)
  have pre: "lk_prefix (L i) = dir" "short_lease (lk_duration (L i))" for i
    using assms(3) by (simp_all add: lock_group_def)
  have hold': "holds_dir V (le_enc env) (lk_prefix (L i)) xs (ls_store S)" for i
    using hold by (simp add: pre)
  note keep = lock_inv_step [where L = L and clk = clk, OF ok assms(3) _ _ _ hold refl]
  show ?thesis
    using assms(1)
  proof cases
    case (check i held t)
    have "t = ls_store S" using check(3) current_owner_dir [OF hold'] held_by_other_dir [OF hold']
      by (auto simp: bnd_def)
    with check(2) ok [of i] show ?thesis unfolding check(1) by (auto intro!: keep simp: client_ok_def)
  next
    case (claim i fuel e ts p t)
    show ?thesis unfolding claim(1)
      using claim_epoch_dir [OF hold' pre(2) claim(3)] lock_inv_claim [OF hold assms(3) ok claim(2)]
      by (auto simp: pre)
  next
    case (claim_failed i fuel x t)
    have "t = ls_store S" using claim_epoch_dir [OF hold' pre(2) claim_failed(3)] by auto
    with claim_failed(2) ok [of i] show ?thesis
      unfolding claim_failed(1) by (auto intro!: keep simp: client_ok_def)
  next
    case (scavenge i e ts reg t)
    show ?thesis unfolding scavenge(1)
      using does_unique [OF scavenge_below_dir [OF hold'] scavenge(4)] lock_inv_scavenge [OF assms(3) ok scavenge(2,3)]
      by (simp add: pre)
  next
    case (verify i e ts reg st t)
    have "wf_epoch e" using ok [of i] verify(2) by (simp add: client_ok_def)
    from does_unique [OF verify_rest_dir [OF hold' this] verify(4)] show ?thesis
      unfolding verify(1) using lock_inv_verify [OF hold assms(3) ok verify(2,3)] by (simp add: pre)
  next
    case (let_go i u t)
    from does_unique [OF release_dir [OF hold'] let_go(3)]
    have t: "holds_dir V (le_enc env) dir (filter (\<lambda>x. ef_holder (ee_file x) \<noteq> lk_holder (L i)) xs) t"
      "clk t = clk (ls_store S)" by (simp_all add: pre)
    show ?thesis unfolding let_go(1)
      by (rule lock_inv_step [where L = L and clk = clk, OF ok assms(3) _ _ _ t]) (auto simp: client_ok_idle)
  next
    case (crash i)
    show ?thesis unfolding crash by (auto intro!: keep simp: client_ok_idle)
  next
    case (tick t)
    then show ?thesis using hold client_ok_later [OF ok tick(3)] by (auto simp: lock_inv_def holds_dir_def)
  qed
qed

end

end
