(* ===== verification/LockProps.thy ===== *)
theory LockProps
  imports LockProto
begin

text \<open>
  The properties of the lock: what an acquisition, a release and a repair do to the directory, that
  two clients do not hold the lock at once while their leases last, and the window in a renewal in
  which they do.
\<close>

section \<open>Runs of the protocol\<close>

definition reaches where
  "reaches env V clk L S0 dir xs now pc hs \<longleftrightarrow>
     (\<exists>s. lock_steps env V clk L S0 \<lparr>ls_store = s, ls_pc = pc, ls_holds = hs\<rparr> \<and>
        holds_dir V (le_enc env) dir xs s \<and> clk s = now)"

lemma at_client_simp:
  "at_client \<lparr>ls_store = s, ls_pc = pc, ls_holds = hs\<rparr> i t p b =
     \<lparr>ls_store = t, ls_pc = pc(i := p), ls_holds = hs(i := b)\<rparr>"
  by (simp add: at_client_def)

context lock_store
begin

lemma lock_inv_reachable:
  assumes "lock_steps env V clk L S S'" "lock_init V (le_enc env) dir S" "lock_group dir L"
  shows "lock_inv V clk (le_enc env) dir L S'"
  using assms(1)
proof (induction rule: rtranclp_induct)
  case base
  then show ?case using assms(2) by (auto simp: lock_init_def lock_inv_def client_ok_idle)
next
  case (step T U)
  then show ?case using lock_inv_preserved [OF step(2,3) assms(3)] by simp
qed

lemma mutual_exclusion:
  assumes "lock_inv V clk (le_enc env) dir L S" "lock_group dir L" "i \<noteq> j"
    and "ls_holds S i = Some (e, ts)" "\<not> scavenging (ls_pc S i)"
    and "ls_holds S j = Some (f, us)" "\<not> scavenging (ls_pc S j)"
  shows "expiry (lease (L i) e ts) \<le> clk (ls_store S) \<or> expiry (lease (L j) f us) \<le> clk (ls_store S)"
proof (rule ccontr)
  assume "\<not> ?thesis"
  with assms(1,4-7) obtain xs where xs: "wf_dir dir xs"
    "lease (L i) e ts \<in> set xs" "lease (L j) f us \<in> set xs"
    and first: "\<forall>x \<in> set xs. \<not> entry_below e x" "\<forall>x \<in> set xs. \<not> entry_below f x"
    by (fastforce simp: lock_inv_def client_ok_def holds_dir_def not_le)
  from first xs(2,3) have "epoch_val e = epoch_val f" by (force simp: epoch_less_def)
  moreover have "wf_epoch e" "wf_epoch f"
    using wf_dir_ok [OF xs(1) xs(2)] wf_dir_ok [OF xs(1) xs(3)] by (simp_all add: lease_ok_def)
  ultimately have "e = f" using wf_epoch_eq by blast
  then have "lease (L i) e ts = lease (L j) f us" using wf_dir_epochs [OF xs(1,2,3)] by simp
  then have "lk_holder (L i) = lk_holder (L j)" using lease_simps(2) by metis
  with assms(2,3) show False by (auto simp: lock_group_def inj_def)
qed

lemma reaches_step:
  assumes "reaches env V clk L S0 dir xs now pc hs"
    and "\<And>s. holds_dir V (le_enc env) dir xs s \<Longrightarrow> clk s = now \<Longrightarrow> \<exists>t.
      lock_step env V clk L \<lparr>ls_store = s, ls_pc = pc, ls_holds = hs\<rparr> \<lparr>ls_store = t, ls_pc = pc', ls_holds = hs'\<rparr> \<and>
      holds_dir V (le_enc env) dir ys t \<and> clk t = now"
  shows "reaches env V clk L S0 dir ys now pc' hs'"
proof -
  obtain s where s: "lock_steps env V clk L S0 \<lparr>ls_store = s, ls_pc = pc, ls_holds = hs\<rparr>"
    "holds_dir V (le_enc env) dir xs s" "clk s = now" using assms(1) by (auto simp: reaches_def)
  from assms(2) [OF s(2,3)] s(1) show ?thesis
    unfolding reaches_def by (metis rtranclp.rtrancl_into_rtrancl)
qed

lemma reaches_check:
  assumes "reaches env V clk L S0 dir xs now pc hs" "pc i = Idle" "lk_prefix (L i) = dir"
    and "\<And>c. \<not> fast_path (L i) c xs"
  shows "reaches env V clk L S0 dir xs now (pc(i := Checked)) hs"
proof (rule reaches_step [OF assms(1)])
  fix s assume s: "holds_dir V (le_enc env) dir xs s" "clk s = now"
  have "bnd (current_owner env (L i)) (held_by_other env (L i)) s = (Inr False, s)"
    using assms(3,4) s(1) current_owner_dir [of "L i" xs s] by (simp add: bnd_def held_by_other_dir [OF s(1)])
  then show "\<exists>t. lock_step env V clk L \<lparr>ls_store = s, ls_pc = pc, ls_holds = hs\<rparr>
      \<lparr>ls_store = t, ls_pc = pc(i := Checked), ls_holds = hs\<rparr> \<and> holds_dir V (le_enc env) dir xs t \<and> clk t = now"
    using lock_step.check [where env = env and V = V and clk = clk and L = L
        and S = "\<lparr>ls_store = s, ls_pc = pc, ls_holds = hs\<rparr>" and i = i and held = False]
      assms(2) s by (auto simp: at_client_def)
qed

lemma reaches_claim:
  assumes "reaches env V clk L S0 dir xs now pc hs" "pc i = Checked" "lk_prefix (L i) = dir"
    and "short_lease (lk_duration (L i))" "epoch_new (next_of xs) = Inr e"
  shows "reaches env V clk L S0 dir (xs @ [lease (L i) e now]) now (pc(i := Claimed e now)) hs"
proof (rule reaches_step [OF assms(1)])
  fix s assume s: "holds_dir V (le_enc env) dir xs s" "clk s = now"
  obtain r t where "claim_epoch (Suc 0) env (L i) s = (r, t)" by fastforce
  with claim_epoch_dir [of "L i" xs s 0 r t] s assms(3-5)
  have "claim_epoch (Suc 0) env (L i) s = (Inr (e, now, entry_path dir e), t)"
    "holds_dir V (le_enc env) dir (xs @ [lease (L i) e now]) t" "clk t = now"
    using epoch_new_total [of "next_of xs" "Overflow (next_of xs)"] by auto
  then show "\<exists>t. lock_step env V clk L \<lparr>ls_store = s, ls_pc = pc, ls_holds = hs\<rparr>
      \<lparr>ls_store = t, ls_pc = pc(i := Claimed e now), ls_holds = hs\<rparr> \<and>
      holds_dir V (le_enc env) dir (xs @ [lease (L i) e now]) t \<and> clk t = now"
    using lock_step.claim [where env = env and V = V and clk = clk and L = L
        and S = "\<lparr>ls_store = s, ls_pc = pc, ls_holds = hs\<rparr>" and i = i] assms(2)
    by (simp add: at_client_def) blast
qed

lemma reaches_scavenge:
  assumes "reaches env V clk L S0 dir xs now pc hs" "pc i = Claimed e ts" "lk_prefix (L i) = dir"
    and "now < expiry (lease (L i) e ts)"
  shows "reaches env V clk L S0 dir (scavenged (L i) e ts xs) now
    (pc(i := Scavenged e ts (regressed (L i) e ts xs))) hs"
proof (rule reaches_step [OF assms(1)])
  fix s assume s: "holds_dir V (le_enc env) dir xs s" "clk s = now"
  with scavenge_below_dir [of "L i" xs s e ts] assms(3) obtain t where
    "scavenge_below env (L i) e ts s = (Inr (regressed (L i) e ts xs), t)"
    "holds_dir V (le_enc env) dir (scavenged (L i) e ts xs) t" "clk t = now" by (auto simp: does_def)
  then show "\<exists>t. lock_step env V clk L \<lparr>ls_store = s, ls_pc = pc, ls_holds = hs\<rparr>
      \<lparr>ls_store = t, ls_pc = pc(i := Scavenged e ts (regressed (L i) e ts xs)), ls_holds = hs\<rparr> \<and>
      holds_dir V (le_enc env) dir (scavenged (L i) e ts xs) t \<and> clk t = now"
    using lock_step.scavenge [where env = env and V = V and clk = clk and L = L
        and S = "\<lparr>ls_store = s, ls_pc = pc, ls_holds = hs\<rparr>" and i = i] assms(2,4) s(2)
    by (simp add: at_client_def) blast
qed

lemma reaches_owner:
  assumes "reaches env V clk L S0 dir xs now pc hs" "pc i = Scavenged e ts reg" "lk_prefix (L i) = dir"
    and "now < expiry (lease (L i) e ts)" "wf_epoch e" "verdict (L i) e ts reg xs = Owner e"
  shows "reaches env V clk L S0 dir xs now (pc(i := Idle)) (hs(i := Some (e, ts)))"
proof (rule reaches_step [OF assms(1)])
  fix s assume s: "holds_dir V (le_enc env) dir xs s" "clk s = now"
  with verify_rest_dir [of "L i" xs s e ts reg] assms(3,5,6) obtain t where
    "verify_rest env (L i) e ts (entry_path dir e) reg s = (Inr (Owner e), t)"
    "holds_dir V (le_enc env) dir xs t" "clk t = now" by (auto simp: does_def after_verdict_def dropped_def)
  then show "\<exists>t. lock_step env V clk L \<lparr>ls_store = s, ls_pc = pc, ls_holds = hs\<rparr>
      \<lparr>ls_store = t, ls_pc = pc(i := Idle), ls_holds = hs(i := Some (e, ts))\<rparr> \<and>
      holds_dir V (le_enc env) dir xs t \<and> clk t = now"
    using lock_step.verify [where env = env and V = V and clk = clk and L = L
        and S = "\<lparr>ls_store = s, ls_pc = pc, ls_holds = hs\<rparr>" and i = i] assms(2-4) s(2)
    by (simp add: at_client_def) fastforce
qed

end

section \<open>Two clients of a store in memory\<close>

definition demo_lock :: "nat \<Rightarrow> lock" where
  "demo_lock i = lock_new [''lock''] (replicate i CHR ''x'') (if i = 1 then 1 else 0) 60"

definition demo_start :: "epoch_file mem_store lock_sys" where
  "demo_start = \<lparr>ls_store = \<lparr>ms_objs = [], ms_clock = 0, ms_local = 0\<rparr>, ls_pc = (\<lambda>_. Idle), ls_holds = (\<lambda>_. None)\<rparr>"

abbreviation mem_view :: "epoch_file mem_store \<Rightarrow> path \<rightharpoonup> epoch_file \<times> time" where
  "mem_view \<equiv> \<lambda>s. map_of (ms_objs s)"

abbreviation demo_reaches where
  "demo_reaches \<equiv> reaches mem_env mem_view ms_clock demo_lock demo_start [''lock'']"

lemma demo_lock_simps [simp]:
  "lk_prefix (demo_lock i) = [''lock'']" "lk_holder (demo_lock i) = replicate i CHR ''x''"
  "lk_priority (demo_lock i) = (if i = 1 then 1 else 0)" "lk_duration (demo_lock i) = 60"
  by (simp_all add: demo_lock_def lock_new_def)

lemma demo_short [simp]: "short_lease 60"
  by (simp add: short_lease_def i64_max_def)

lemma demo_group: "lock_group [''lock''] demo_lock"
  by (auto simp: lock_group_def inj_def)

lemma holds_empty: "ms_objs s = [] \<Longrightarrow> holds_dir mem_view enc dir [] s"
  by (simp add: holds_dir_def wf_dir_def)

lemma demo_init: "lock_init mem_view (le_enc mem_env) [''lock''] demo_start"
  using holds_empty [of "ls_store demo_start" "le_enc mem_env" "[''lock'']"]
  unfolding lock_init_def demo_start_def by auto

lemma demo_reaches_start: "demo_reaches [] 0 (\<lambda>_. Idle) (\<lambda>_. None)"
  unfolding reaches_def
  by (rule exI [of _ "ls_store demo_start"]) (simp add: demo_start_def holds_empty)

lemma demo_tick:
  assumes "demo_reaches xs now pc hs" "now \<le> now'"
  shows "demo_reaches xs now' pc hs"
proof -
  obtain s where s: "lock_steps mem_env mem_view ms_clock demo_lock demo_start \<lparr>ls_store = s, ls_pc = pc, ls_holds = hs\<rparr>"
    "holds_dir mem_view (le_enc mem_env) [''lock''] xs s" "ms_clock s = now" using assms(1) by (auto simp: reaches_def)
  have "lock_step mem_env mem_view ms_clock demo_lock \<lparr>ls_store = s, ls_pc = pc, ls_holds = hs\<rparr>
      \<lparr>ls_store = s\<lparr>ms_clock := now'\<rparr>, ls_pc = pc, ls_holds = hs\<rparr>"
    using lock_step.tick [where env = mem_env and V = mem_view and clk = ms_clock and L = demo_lock
        and t = "s\<lparr>ms_clock := now'\<rparr>" and S = "\<lparr>ls_store = s, ls_pc = pc, ls_holds = hs\<rparr>"] s(3) assms(2)
    by simp
  with s show ?thesis unfolding reaches_def
    by (intro exI [of _ "s\<lparr>ms_clock := now'\<rparr>"]) (auto simp: holds_dir_def)
qed

lemma demo_epochs:
  obtains e0 e1 e2 where "epoch_new 0 = Inr e0" "epoch_new 1 = Inr e1" "epoch_new 2 = Inr e2"
    "wf_epoch e0" "wf_epoch e1" "wf_epoch e2" "epoch_val e0 = 0" "epoch_val e1 = 1" "epoch_val e2 = 2"
proof -
  have "\<exists>e. epoch_new v = Inr e" if "unat v < 2 ^ 40" for v
    using that epoch_new_total [of v] by (cases "epoch_new v") auto
  from this [of 0] this [of 1] this [of 2] that show ?thesis by (auto simp: epoch_new_Inr)
qed

lemma all_idle: "(\<lambda>_. Idle)(i := Idle) = (\<lambda>_. Idle)"
  by auto

lemmas demo_eval = all_idle lease_def claimed_def lease_file_def expiry_def MAX_UTC_def epoch_less_def
  verdict_def outranked_def regressed_def scavenged_def kept_def fast_path_def next_of_def

lemma demo_first:
  assumes "epoch_new 0 = Inr e0" "wf_epoch e0" "epoch_val e0 = 0"
  shows "demo_reaches [lease (demo_lock 0) e0 0] 0 (\<lambda>_. Idle) ((\<lambda>_. None)(0 := Some (e0, 0)))"
proof -
  note start = demo_reaches_start
  have 1: "demo_reaches [] 0 ((\<lambda>_. Idle)(0 := Checked)) (\<lambda>_. None)"
    by (rule mem_lock.reaches_check [OF start]) (simp_all add: fast_path_def)
  have 2: "demo_reaches [lease (demo_lock 0) e0 0] 0 ((\<lambda>_. Idle)(0 := Claimed e0 0)) (\<lambda>_. None)"
    using mem_lock.reaches_claim [OF 1, of 0 e0] assms(1) by (simp add: next_of_def)
  have 3: "demo_reaches [lease (demo_lock 0) e0 0] 0 ((\<lambda>_. Idle)(0 := Scavenged e0 0 False)) (\<lambda>_. None)"
    using mem_lock.reaches_scavenge [OF 2, of 0 e0 0] by (simp add: demo_eval)
  show ?thesis
    using mem_lock.reaches_owner [OF 3, of 0 e0 0 False] assms by (simp add: demo_eval)
qed

lemma demo_second:
  assumes "demo_reaches [lease (demo_lock 0) e0 0] now (\<lambda>_. Idle) hs" "0 \<le> now" "now \<le> 60000000000"
    and "epoch_new 1 = Inr e1" "epoch_val e0 = 0" "epoch_val e1 = 1"
  shows "demo_reaches (if now < 60000000000 then [lease (demo_lock 0) e0 0, lease (demo_lock 1) e1 now]
      else [lease (demo_lock 1) e1 now]) now ((\<lambda>_. Idle)(1 := Scavenged e1 now False)) hs"
proof -
  have 1: "demo_reaches [lease (demo_lock 0) e0 0] now ((\<lambda>_. Idle)(1 := Checked)) hs"
    by (rule mem_lock.reaches_check [OF assms(1)]) (simp_all add: demo_eval)
  have 2: "demo_reaches [lease (demo_lock 0) e0 0, lease (demo_lock 1) e1 now] now ((\<lambda>_. Idle)(1 := Claimed e1 now)) hs"
    using mem_lock.reaches_claim [OF 1, of 1 e1] assms(4,5) by (simp add: next_of_def)
  show ?thesis
    using mem_lock.reaches_scavenge [OF 2, of 1 e1 now] assms(2,3,5,6) by (auto simp: demo_eval)
qed

text \<open>The second client takes the lock over after the first one's lease.\<close>

lemma demo_takeover:
  obtains e0 e1 where "demo_reaches [lease (demo_lock 1) e1 60000000000] 60000000000 (\<lambda>_. Idle)
    ((\<lambda>_. None)(0 := Some (e0, 0), 1 := Some (e1, 60000000000)))"
proof (rule demo_epochs)
  fix e0 e1 e2 assume e: "epoch_new 0 = Inr e0" "epoch_new 1 = Inr e1" "wf_epoch e0" "wf_epoch e1"
    "epoch_val e0 = 0" "epoch_val e1 = 1"
  have "demo_reaches [lease (demo_lock 0) e0 0] 60000000000 (\<lambda>_. Idle) ((\<lambda>_. None)(0 := Some (e0, 0)))"
    by (rule demo_tick [OF demo_first [OF e(1,3,5)]]) simp
  from demo_second [OF this _ _ e(2,5,6)]
  have "demo_reaches [lease (demo_lock 1) e1 60000000000] 60000000000
      ((\<lambda>_. Idle)(1 := Scavenged e1 60000000000 False)) ((\<lambda>_. None)(0 := Some (e0, 0)))" by simp
  from mem_lock.reaches_owner [OF this, of 1 e1 60000000000 False] e(4)
  show ?thesis by (intro that) (simp add: demo_eval)
qed

text \<open>The second client, of a higher priority, waits in the queue while the first one renews.\<close>

lemma demo_overlap:
  obtains e0 e1 xs pc where "demo_reaches xs 0 pc ((\<lambda>_. None)(0 := Some (e0, 0), 1 := Some (e1, 0)))"
proof (rule demo_epochs)
  fix e0 e1 e2 assume e: "epoch_new 0 = Inr e0" "epoch_new 1 = Inr e1" "epoch_new 2 = Inr e2"
    "wf_epoch e0" "wf_epoch e1" "epoch_val e0 = 0" "epoch_val e1 = 1" "epoch_val e2 = 2"
  let ?l0 = "lease (demo_lock 0) e0 0" and ?l1 = "lease (demo_lock 1) e1 0" and ?l2 = "lease (demo_lock 0) e2 0"
  let ?pc = "(\<lambda>_. Idle)(1 := Scavenged e1 0 False)" and ?hs = "(\<lambda>_. None)(0 := Some (e0, 0 :: time))"
  have 1: "demo_reaches [?l0, ?l1] 0 ?pc ?hs"
    using demo_second [OF demo_first [OF e(1,4,6)] _ _ e(2,6,7)] by simp
  have 2: "demo_reaches [?l0, ?l1] 0 (?pc(0 := Checked)) ?hs"
    by (rule mem_lock.reaches_check [OF 1]) (simp_all add: demo_eval)
  have 3: "demo_reaches [?l0, ?l1, ?l2] 0 (?pc(0 := Claimed e2 0)) ?hs"
    using mem_lock.reaches_claim [OF 2, of 0 e2] e(3,7) by (simp add: next_of_def)
  have 4: "demo_reaches [?l1, ?l2] 0 (?pc(0 := Scavenged e2 0 False)) ?hs"
    using mem_lock.reaches_scavenge [OF 3, of 0 e2 0] e(6-8) by (simp add: demo_eval)
  from mem_lock.reaches_owner [OF 4, of 1 e1 0 False] e(5,7,8) show ?thesis
    by (intro that [of "[?l1, ?l2]" "?pc(0 := Scavenged e2 0 False, 1 := Idle)"]) (simp add: demo_eval)
qed

section \<open>Properties\<close>

lemma reachesD:
  assumes "reaches env V clk L S0 dir xs now pc hs"
  obtains S where "lock_steps env V clk L S0 S" "ls_pc S = pc" "ls_holds S = hs" "clk (ls_store S) = now"
  using assms unfolding reaches_def by fastforce



text \<open>C22.  The window in a renewal: the renewing client deletes its previous file before the verdict
  on its new one, so a client that claimed in between becomes owner while the guard of the first one
  still holds a lease that has not expired.  No clock jumps and no client is frozen.\<close>

theorem renewal_overlap:
  "\<exists>S e f. lock_steps mem_env mem_view ms_clock demo_lock demo_start S \<and>
     ls_holds S 0 = Some (e, 0) \<and> ls_holds S 1 = Some (f, 0) \<and>
     ms_clock (ls_store S) < expiry (lease (demo_lock 0) e 0) \<and>
     ms_clock (ls_store S) < expiry (lease (demo_lock 1) f 0)"
proof (rule demo_overlap, erule reachesD)
  fix e0 e1 pc S assume S: "lock_steps mem_env mem_view ms_clock demo_lock demo_start S"
    "ls_holds S = (\<lambda>_. None)(0 := Some (e0, 0), 1 := Some (e1, 0))" "ms_clock (ls_store S) = 0"
  then show ?thesis by (intro exI [of _ S] exI [of _ e0] exI [of _ e1]) (simp add: demo_eval)
qed

text \<open>C19.  An acquisition on a directory that nobody else changes meanwhile, on every branch: it
  stops at another holder's valid lease, runs out of epochs, or claims the next epoch, deletes the
  dead and its own entries below it, and ends with the verdict on what is left, dropping its claim
  when it failed or yielded.  One round of the claim loop is enough.\<close>

theorem acquire_refines:
  assumes "lock_store env V clk" "holds_dir V (le_enc env) (lk_prefix lk) xs s" "short_lease (lk_duration lk)"
  shows "\<exists>t. acquire (Suc fuel) env lk s = (fst (acquire_spec lk (le_now env s) (clk s) xs), t) \<and>
    holds_dir V (le_enc env) (lk_prefix lk) (snd (acquire_spec lk (le_now env s) (clk s) xs)) t \<and> clk t = clk s"
  using lock_store.acquire_dir [OF assms] by (simp add: does_def)

theorem acquire_refines_witness:
  "\<exists>t. acquire 1 mem_env (demo_lock 0) (ls_store demo_start) =
      (fst (acquire_spec (demo_lock 0) 0 0 []), t) \<and>
    holds_dir mem_view (le_enc mem_env) [''lock''] (snd (acquire_spec (demo_lock 0) 0 0 [])) t \<and> ms_clock t = 0"
  using acquire_refines [OF mem_lock.lock_store_axioms, of "demo_lock 0" "[]" "ls_store demo_start" 0]
    holds_empty [of "ls_store demo_start" "le_enc mem_env" "[''lock'']"]
  by (simp add: demo_start_def mem_env_def)

lemma fast_path_dead:
  "(\<And>x. x \<in> set xs \<Longrightarrow> expiry x \<le> now) \<Longrightarrow> \<not> fast_path lk now xs"
  by (cases xs) (force simp: fast_path_def)+

text \<open>C20.  The lock is never stuck: when every lease in the directory has expired by the clock of the
  store, and the clock of the caller is not behind it, the caller acquires the lock, and its lease
  is then the only one in the directory.\<close>

theorem acquire_live:
  assumes "lock_store env V clk" "holds_dir V (le_enc env) (lk_prefix lk) xs s" "short_lease (lk_duration lk)"
    and "unat (next_of xs) < 2 ^ 40" "\<forall>x \<in> set xs. expiry x \<le> clk s" "clk s \<le> le_now env s"
  shows "\<exists>e t. acquire (Suc fuel) env lk s = (Inr (Owner e), t) \<and>
    holds_dir V (le_enc env) (lk_prefix lk) [lease lk e (clk s)] t"
proof -
  obtain e where e: "epoch_new (next_of xs) = Inr e"
    using assms(4) epoch_new_total [of "next_of xs"] by (cases "epoch_new (next_of xs)") auto
  have wf: "wf_dir (lk_prefix lk) xs" using assms(2) by (simp add: holds_dir_def)
  let ?ys = "xs @ [claimed (lk_prefix lk) e (clk s) (lease_file lk)]"
  have "scavenged lk e (clk s) xs = []"
    using assms(5) wf_dir_less_next [OF wf] e
    by (auto simp: scavenged_def filter_empty_conv kept_def epoch_less_def epoch_new_Inr)
  then have left: "scavenged lk e (clk s) ?ys = [lease lk e (clk s)]"
    by (simp add: scavenged_def lease_def claimed_def epoch_less_def)
  then have "decision lk e (clk s) ?ys = Owner e"
    by (simp add: decision_def verdict_def outranked_def epoch_less_def)
  moreover have "\<not> fast_path lk (le_now env s) xs"
    using assms(5,6) by (intro fast_path_dead) fastforce
  ultimately have "acquire_spec lk (le_now env s) (clk s) xs = (Inr (Owner e), [lease lk e (clk s)])"
    by (simp add: acquire_spec_def e Let_def left after_verdict_def dropped_def)
  with lock_store.acquire_dir [OF assms(1-3), of fuel] show ?thesis by (auto simp: does_def)
qed

theorem acquire_live_witness:
  "\<exists>e t. acquire 1 mem_env (demo_lock 0) (ls_store demo_start) = (Inr (Owner e), t) \<and>
    holds_dir mem_view (le_enc mem_env) [''lock''] [lease (demo_lock 0) e 0] t"
  using acquire_live [OF mem_lock.lock_store_axioms, of "demo_lock 0" "[]" "ls_store demo_start" 0]
    holds_empty [of "ls_store demo_start" "le_enc mem_env" "[''lock'']"]
  by (simp add: demo_start_def mem_env_def next_of_def)

text \<open>C21.  The repair leaves exactly the first lease that has not expired by the clock of the store,
  and its own marker is gone.\<close>

theorem unsafe_break_locks_exact:
  assumes "lock_store env V clk" "holds_dir V (le_enc env) (lk_prefix lk) xs s" "unat (next_of xs) < 2 ^ 40"
  shows "\<exists>t. unsafe_break_locks (Suc fuel) env lk s = (Inr (), t) \<and>
    holds_dir V (le_enc env) (lk_prefix lk) (take 1 (filter (\<lambda>x. clk s < expiry x) xs)) t"
  using lock_store.unsafe_break_locks_dir [OF assms] by (auto simp: does_def)

theorem unsafe_break_locks_exact_witness:
  "\<exists>t. unsafe_break_locks 1 mem_env (demo_lock 0) (ls_store demo_start) = (Inr (), t) \<and>
    holds_dir mem_view (le_enc mem_env) [''lock''] [] t"
  using unsafe_break_locks_exact [OF mem_lock.lock_store_axioms, of "demo_lock 0" "[]" "ls_store demo_start" 0]
    holds_empty [of "ls_store demo_start" "le_enc mem_env" "[''lock'']"]
  by (simp add: next_of_def demo_start_def)

end
