(* ===== verification/Guard.thy ===== *)
theory Guard
  imports Lock
begin

text \<open>
  The guard of a held lock: \<open>bepository-lock/src/guard.rs\<close>.  The timers, the cancellation token and
  the monotonic clock are parameters (\<open>timers\<close>); times are nanoseconds.  The renewal task is the
  function \<open>renewal_loop\<close>, and the receiver of its result is part of the guard.  Both loops have
  fuel, which counts their rounds; a result of \<open>None\<close> means that the loop is still running.
\<close>

section \<open>Data\<close>

datatype lock_lost = Preempted | Expired nat nat | LostClockRegression | LostCancelled

text \<open>What the receiving end of the renewal task sees: nothing yet, a reason, or a dropped sender.\<close>

datatype lost_rx = Empty | Sent lock_lost | Closed

record lock_guard =
  lg_epoch :: epoch
  lg_lost_rx :: lost_rx
  lg_renew_cancelled :: bool
  lg_lock :: lock

record 'o timers =
  tm_now :: "'o \<Rightarrow> nat"
  tm_cancelled :: "'o \<Rightarrow> bool"
  tm_abort :: "'o \<Rightarrow> 'o option"
  tm_systime :: "nat \<Rightarrow> 'o \<Rightarrow> bool"
  tm_sleep :: "bool \<Rightarrow> nat \<Rightarrow> 'o \<Rightarrow> bool option \<times> 'o"

abbreviation secs :: "nat \<Rightarrow> nat" where
  "secs n \<equiv> n * 1000000000"

definition renew_interval :: "lock \<Rightarrow> nat" where
  "renew_interval lk = secs (unat (lk_duration lk div 3))"

definition retry_interval :: nat where
  "retry_interval = secs 15"

text \<open>The product wraps, as in a release build.\<close>

definition give_up_after :: "lock \<Rightarrow> nat" where
  "give_up_after lk = unat (lk_duration lk * 2 div 3)"

section \<open>Acquisition\<close>

text \<open>A cancellation that arrives during a call of \<open>acquire\<close> leaves the state \<open>tm_abort\<close>.\<close>

fun hold ::
  "nat \<Rightarrow> 'o timers \<Rightarrow> ('o, 'v) lock_env \<Rightarrow> nat \<Rightarrow> lock \<Rightarrow> 'o \<Rightarrow> ((lock_error + lock_guard) \<times> 'o) option" where
  "hold 0 tm env fuel lk s = None"
| "hold (Suc rounds) tm env fuel lk s =
     (if tm_cancelled tm s then Some (Inl Cancelled, s)
      else case tm_abort tm s of
        Some t \<Rightarrow> Some (Inl Cancelled, t)
      | None \<Rightarrow>
          (case acquire fuel env lk s of
             (Inl e, t) \<Rightarrow> Some (Inl e, t)
           | (Inr (Owner epoch), t) \<Rightarrow>
               Some (Inr \<lparr>lg_epoch = epoch, lg_lost_rx = Empty, lg_renew_cancelled = False, lg_lock = lk\<rparr>, t)
           | (Inr QueuedBackwardClock, t) \<Rightarrow> Some (Inl ClockRegression, t)
           | (Inr _, t) \<Rightarrow>
               (case tm_sleep tm False (secs (max (unat (lk_duration lk div 3)) 1)) t of
                  (None, u) \<Rightarrow> Some (Inl Cancelled, u)
                | (Some _, u) \<Rightarrow> hold rounds tm env fuel lk u)))"

section \<open>Renewal\<close>

definition cancellable_sleep :: "'o timers \<Rightarrow> nat \<Rightarrow> bool \<Rightarrow> 'o \<Rightarrow> (lock_lost + bool) \<times> 'o" where
  "cancellable_sleep tm duration use_systime s =
     (if use_systime \<and> tm_systime tm duration s
      then (case tm_sleep tm True duration s of
              (None, t) \<Rightarrow> (Inl LostCancelled, t) | (Some is_ok, t) \<Rightarrow> (Inr is_ok, t))
      else (case tm_sleep tm False duration s of
              (None, t) \<Rightarrow> (Inl LostCancelled, t) | (Some _, t) \<Rightarrow> (Inr False, t)))"

fun renewal_rounds ::
  "nat \<Rightarrow> 'o timers \<Rightarrow> ('o, 'v) lock_env \<Rightarrow> nat \<Rightarrow> lock \<Rightarrow> nat \<Rightarrow> bool \<Rightarrow> 'o \<Rightarrow> (lock_lost \<times> 'o) option" where
  "renewal_rounds 0 tm env fuel lk last_success use_systime s = None"
| "renewal_rounds (Suc rounds) tm env fuel lk last_success use_systime s =
     (let elapsed = (tm_now tm s - last_success) div 1000000000 in
      if elapsed \<ge> give_up_after lk then Some (Expired elapsed (give_up_after lk), s)
      else case acquire fuel env lk s of
        (Inr (Owner _), t) \<Rightarrow>
          (case cancellable_sleep tm (renew_interval lk) use_systime t of
             (Inr b, u) \<Rightarrow> renewal_rounds rounds tm env fuel lk (tm_now tm t) b u
           | (Inl lost, u) \<Rightarrow> Some (lost, u))
      | (Inr QueuedBackwardClock, t) \<Rightarrow> Some (LostClockRegression, t)
      | (Inr _, t) \<Rightarrow> Some (Preempted, t)
      | (Inl e, t) \<Rightarrow>
          (case cancellable_sleep tm retry_interval use_systime t of
             (Inr b, u) \<Rightarrow> renewal_rounds rounds tm env fuel lk last_success b u
           | (Inl lost, u) \<Rightarrow> Some (lost, u)))"

definition renewal_loop ::
  "nat \<Rightarrow> 'o timers \<Rightarrow> ('o, 'v) lock_env \<Rightarrow> nat \<Rightarrow> lock \<Rightarrow> nat \<Rightarrow> 'o \<Rightarrow> (lock_lost \<times> 'o) option" where
  "renewal_loop rounds tm env fuel lk acquired_at s =
     (case cancellable_sleep tm (renew_interval lk) True s of
        (Inl lost, t) \<Rightarrow> Some (lost, t)
      | (Inr b, t) \<Rightarrow> renewal_rounds rounds tm env fuel lk acquired_at b t)"

section \<open>The guard\<close>

definition lost :: "lock_guard \<Rightarrow> lock_lost option" where
  "lost g = (case lg_lost_rx g of Sent reason \<Rightarrow> Some reason | Closed \<Rightarrow> Some LostCancelled | Empty \<Rightarrow> None)"

definition guard_release ::
  "('o, 'v) lock_env \<Rightarrow> lock_guard \<Rightarrow> 'o \<Rightarrow> (lock_lost + unit) \<times> 'o" where
  "guard_release env g s =
     (case release env (lg_lock g) s of
        (_, t) \<Rightarrow> (case lg_lost_rx g of
          Sent reason \<Rightarrow> (Inl reason, t) | Closed \<Rightarrow> (Inl LostCancelled, t) | Empty \<Rightarrow> (Inr (), t)))"

section \<open>A store that is out of reach\<close>

text \<open>Timers that sleep at least as long as they are asked to and at most \<open>late\<close> longer, and a store
  whose calls take at most \<open>slow\<close> and fail.\<close>

definition deadline :: "lock \<Rightarrow> nat \<Rightarrow> nat \<Rightarrow> nat \<Rightarrow> nat" where
  "deadline lk slow late last_success =
     last_success + secs (give_up_after lk) + slow + retry_interval + late"

locale unreachable_store =
  fixes tm :: "'o timers" and env :: "('o, 'v) lock_env" and fuel :: nat and lk :: lock and late slow :: nat
  assumes asleep: "tm_sleep tm b d s = (r, t) \<Longrightarrow> tm_now tm t \<le> tm_now tm s + d + late \<and>
      (r \<noteq> None \<longrightarrow> tm_now tm s + d \<le> tm_now tm t)"
    and fails: "\<exists>e t. acquire fuel env lk s = (Inl e, t) \<and> tm_now tm s \<le> tm_now tm t \<and> tm_now tm t \<le> tm_now tm s + slow"
begin

lemma cancellable_sleep_time:
  assumes "cancellable_sleep tm d b s = (r, t)"
  shows "tm_now tm t \<le> tm_now tm s + d + late" "r = Inr c \<Longrightarrow> tm_now tm s + d \<le> tm_now tm t"
    "r = Inl x \<Longrightarrow> x = LostCancelled"
  using assms by (auto simp: cancellable_sleep_def split: if_splits prod.splits option.splits dest!: asleep)

lemma renewal_rounds_expire:
  assumes "last_success \<le> tm_now tm s" "tm_now tm s \<le> deadline lk slow late last_success"
    and "secs (give_up_after lk) \<le> tm_now tm s - last_success + n * retry_interval"
  shows "\<exists>reason t. renewal_rounds (Suc n) tm env fuel lk last_success b s = Some (reason, t) \<and>
    (reason = LostCancelled \<or> (\<exists>el. reason = Expired el (give_up_after lk))) \<and>
    tm_now tm t \<le> deadline lk slow late last_success"
  using assms
proof (induction n arbitrary: s b)
  case 0
  then have "give_up_after lk \<le> (tm_now tm s - last_success) div 1000000000"
    by (simp add: less_eq_div_iff_mult_less_eq)
  with 0 show ?case by (simp add: Let_def)
next
  case (Suc n)
  let ?el = "(tm_now tm s - last_success) div 1000000000"
  show ?case
  proof (cases "give_up_after lk \<le> ?el")
    case True
    with Suc.prems show ?thesis by (simp add: Let_def)
  next
    case False
    then have early: "tm_now tm s - last_success < secs (give_up_after lk)"
      by (simp add: not_le div_less_iff_less_mult)
    obtain e t where t: "acquire fuel env lk s = (Inl e, t)" "tm_now tm s \<le> tm_now tm t"
      "tm_now tm t \<le> tm_now tm s + slow" using fails by blast
    obtain r u where u: "cancellable_sleep tm retry_interval b t = (r, u)" by fastforce
    note time = cancellable_sleep_time [OF u]
    have step: "renewal_rounds (Suc (Suc n)) tm env fuel lk last_success b s =
        (case r of Inr b \<Rightarrow> renewal_rounds (Suc n) tm env fuel lk last_success b u | Inl x \<Rightarrow> Some (x, u))"
      using False t(1) u by (simp add: Let_def)
    have bound: "tm_now tm u \<le> deadline lk slow late last_success" using early t(3) time(1) Suc.prems(1)
      unfolding deadline_def by linarith
    show ?thesis
    proof (cases r)
      case (Inl x)
      with step bound time(3) show ?thesis by simp
    next
      case (Inr c)
      from time(2) [OF this] t(2) Suc.prems early have
        "last_success \<le> tm_now tm u" "secs (give_up_after lk) \<le> tm_now tm u - last_success + n * retry_interval"
        by (simp_all add: algebra_simps)
      from Suc.IH [OF this(1) bound this(2)] Inr step show ?thesis by simp
    qed
  qed
qed

end

text \<open>An exact timer, and a store that refuses every call.\<close>

definition exact_timers :: "nat timers" where
  "exact_timers = \<lparr>tm_now = (\<lambda>s. s), tm_cancelled = (\<lambda>_. False), tm_abort = (\<lambda>_. None),
     tm_systime = (\<lambda>_ _. True), tm_sleep = (\<lambda>_ d s. (Some True, s + d))\<rparr>"

definition refusing_env :: "(nat, epoch_file) lock_env" where
  "refusing_env =
     \<lparr>le_store = \<lparr>os_list = (\<lambda>_. err (OsOther ''refused'')), os_get = (\<lambda>_. err (OsOther ''refused'')),
        os_create = (\<lambda>_ _. err (OsOther ''refused'')), os_head = (\<lambda>_. err (OsOther ''refused'')),
        os_delete = (\<lambda>_. err (OsOther ''refused''))\<rparr>,
      le_enc = id, le_dec = Some, le_now = int\<rparr>"

interpretation refusing: unreachable_store exact_timers refusing_env fuel lk 0 0
  by unfold_locales
    (auto simp: exact_timers_def refusing_env_def acquire_def current_owner_def list_epoch_metas_def bnd_def
      os_call_def err_def)

section \<open>Properties\<close>



end
