(* ===== verification/Framing.thy ===== *)
theory Framing
  imports Errors
begin

text \<open>
  Message framing: \<open>bepository-bep/src/framing.rs\<close>.  A reader is the bytes that are still to come
  and a writer is what it has written, with the number of bytes the connection takes before it
  breaks.  The protobuf encodings of \<open>Header\<close> and \<open>Hello\<close> and the LZ4 block functions are
  parameters (\<open>wire\<close>).
\<close>

section \<open>Data\<close>

definition MAX_MESSAGE_SIZE :: nat where "MAX_MESSAGE_SIZE = 500 * 1024 * 1024"
definition HELLO_MAGIC :: nat where "HELLO_MAGIC = 0x2EA7D90B"
definition MAX_HELLO_SIZE :: nat where "MAX_HELLO_SIZE = 32 * 1024"
definition CLIENT_NAME :: bytes where "CLIENT_NAME = ''bepository''"

record header =
  hd_type :: i32
  hd_compression :: i32

datatype message_compression = CompressionNone | CompressionLz4

text \<open>The accessor of the generated code: an unknown value is the default.\<close>

definition header_compression :: "header \<Rightarrow> message_compression" where
  "header_compression h = (if hd_compression h = 1 then CompressionLz4 else CompressionNone)"

record raw_message =
  rm_header :: header
  rm_body :: bytes

record hello =
  he_device_name :: bytes
  he_client_name :: bytes
  he_client_version :: bytes
  he_num_connections :: i32
  he_timestamp :: i64

datatype frame_error = BepErr bep_error | ExpectFailed string

record wire =
  header_enc :: "header \<Rightarrow> bytes"
  header_dec :: "bytes \<Rightarrow> header option"
  hello_enc :: "hello \<Rightarrow> bytes"
  hello_dec :: "bytes \<Rightarrow> hello option"
  lz_compress :: "bytes \<Rightarrow> bytes"
  lz_decompress :: "bytes \<Rightarrow> nat \<Rightarrow> bytes option"

section \<open>Streams\<close>

text \<open>\<open>read_exact\<close>, the big-endian reads and \<open>put_u16\<close>, \<open>put_u32\<close>.\<close>

definition read_exact :: "nat \<Rightarrow> (bytes, frame_error, bytes) op" where
  "read_exact n s =
     (if length s < n then (Inl (BepErr (NetworkError ''early eof'')), [])
      else (Inr (take n s), drop n s))"

definition be_bytes :: "nat \<Rightarrow> nat \<Rightarrow> bytes" where
  "be_bytes k n = map char_of (be_digits 256 k n)"

definition read_uint :: "nat \<Rightarrow> (bytes, frame_error, nat) op" where
  "read_uint k = bnd (read_exact k) (\<lambda>bs. ok (be_value 256 (map byte bs)))"

record writer =
  wr_out :: bytes
  wr_room :: nat

definition write_all :: "bytes \<Rightarrow> (writer, frame_error, unit) op" where
  "write_all d w =
     (if length d \<le> wr_room w then (Inr (), w\<lparr>wr_out := wr_out w @ d, wr_room := wr_room w - length d\<rparr>)
      else (Inl (BepErr (NetworkError ''write'')), w\<lparr>wr_out := wr_out w @ take (wr_room w) d, wr_room := 0\<rparr>))"

section \<open>Messages\<close>

definition read_header_prefixed :: "(bytes, frame_error, bytes) op" where
  "read_header_prefixed =
     bnd (read_uint 2) (\<lambda>len.
       if len > MAX_MESSAGE_SIZE then err (BepErr (PeerBadMessage ''message too large''))
       else read_exact len)"

definition read_body_prefixed :: "(bytes, frame_error, bytes) op" where
  "read_body_prefixed =
     bnd (read_uint 4) (\<lambda>len.
       if len > MAX_MESSAGE_SIZE then err (BepErr (PeerBadMessage ''message too large''))
       else read_exact len)"

definition decompress_lz4 :: "wire \<Rightarrow> bytes \<Rightarrow> frame_error + bytes" where
  "decompress_lz4 w data =
     (if length data < 4 then Inl (BepErr (PeerBadMessage ''LZ4 data too short for length prefix''))
      else let uncompressed_size = be_value 256 (map byte (take 4 data)) in
        if uncompressed_size > MAX_MESSAGE_SIZE
        then Inl (BepErr (PeerBadMessage ''claimed uncompressed size exceeds maximum''))
        else case lz_decompress w (drop 4 data) uncompressed_size of
          None \<Rightarrow> Inl (BepErr (PeerBadMessage ''lz4''))
        | Some decompressed \<Rightarrow>
            if length decompressed \<noteq> uncompressed_size
            then Inl (BepErr (PeerBadMessage ''decompressed size does not match claimed''))
            else Inr decompressed)"

definition compress_lz4 :: "wire \<Rightarrow> bytes \<Rightarrow> frame_error + bytes" where
  "compress_lz4 w data =
     (if length data < 2 ^ 32 then Inr (be_bytes 4 (length data) @ lz_compress w data)
      else Inl (ExpectFailed ''data too large for u32 prefix''))"

definition read_message :: "wire \<Rightarrow> (bytes, frame_error, raw_message) op" where
  "read_message w =
     bnd read_header_prefixed (\<lambda>header_buf.
     bnd (lift_res (case header_dec w header_buf of
            None \<Rightarrow> Inl (BepErr (PeerBadMessage ''protobuf decode error'')) | Some h \<Rightarrow> Inr h)) (\<lambda>header.
     bnd read_body_prefixed (\<lambda>body_buf.
     bnd (if header_compression header = CompressionLz4 then lift_res (decompress_lz4 w body_buf)
          else ok body_buf) (\<lambda>body.
       ok \<lparr>rm_header = header, rm_body = body\<rparr>))))"

definition write_header_prefixed :: "bytes \<Rightarrow> (writer, frame_error, unit) op" where
  "write_header_prefixed data =
     bnd (if length data < 2 ^ 16 then write_all (be_bytes 2 (length data))
          else err (BepErr (BepInternal ''header data too large for u16''))) (\<lambda>_.
       write_all data)"

definition write_body_prefixed :: "bytes \<Rightarrow> (writer, frame_error, unit) op" where
  "write_body_prefixed data =
     bnd (if length data < 2 ^ 32 then write_all (be_bytes 4 (length data))
          else err (BepErr (BepInternal ''body data too large for u32''))) (\<lambda>_.
       write_all data)"

definition write_message :: "wire \<Rightarrow> header \<Rightarrow> bytes \<Rightarrow> bool \<Rightarrow> (writer, frame_error, unit) op" where
  "write_message w header body compress =
     (let header_to_write = (if compress then header\<lparr>hd_compression := 1\<rparr> else header) in
      bnd (write_header_prefixed (header_enc w header_to_write)) (\<lambda>_.
        if compress then bnd (lift_res (compress_lz4 w body)) write_body_prefixed
        else write_body_prefixed body))"

section \<open>Hello\<close>

text \<open>The time of the system is in seconds from the epoch.\<close>

definition send_hello :: "wire \<Rightarrow> bytes \<Rightarrow> int \<Rightarrow> bytes \<Rightarrow> (writer, frame_error, unit) op" where
  "send_hello w client_version now device_name =
     (if now < 0 then err (BepErr (BepInternal ''failed to get system time''))
      else if now > i64_max then err (BepErr (BepInternal ''timestamp exceeds i64::MAX''))
      else let encoded = hello_enc w \<lparr>he_device_name = device_name, he_client_name = CLIENT_NAME,
              he_client_version = client_version, he_num_connections = 1, he_timestamp = now\<rparr>
        in if length encoded < 2 ^ 16
           then write_all (be_bytes 4 HELLO_MAGIC @ be_bytes 2 (length encoded) @ encoded)
           else err (ExpectFailed ''hello message too large''))"

definition recv_hello :: "wire \<Rightarrow> (bytes, frame_error, hello) op" where
  "recv_hello w =
     bnd (read_uint 4) (\<lambda>magic.
       if magic \<noteq> HELLO_MAGIC then err (BepErr (PeerBadHello ''expected magic''))
       else bnd (read_uint 2) (\<lambda>len.
         if len > MAX_HELLO_SIZE then err (BepErr (PeerBadHello ''hello message too large''))
         else bnd (read_exact len) (\<lambda>buf.
           case hello_dec w buf of
             None \<Rightarrow> err (BepErr (PeerBadMessage ''protobuf decode error''))
           | Some h \<Rightarrow>
               if he_client_name h = [] then err (BepErr (PeerBadHello ''peer sent empty client_name''))
               else if he_device_name h = [] then err (BepErr (PeerBadHello ''peer sent empty device_name''))
               else ok h)))"

section \<open>Reading what was written\<close>

lemma length_be_bytes [simp]: "length (be_bytes k n) = k"
  by (simp add: be_bytes_def)

lemma be_bytes_value: "n < 256 ^ k \<Longrightarrow> be_value 256 (map byte (be_bytes k n)) = n"
proof -
  assume n: "n < 256 ^ k"
  have "map byte (be_bytes k n) = be_digits 256 k n"
    using be_digits_bound [of 256] by (auto simp: be_bytes_def byte_def comp_def intro!: map_idI)
  with n show ?thesis by (simp add: be_value_digits)
qed

lemma read_exact_append: "n = length a \<Longrightarrow> read_exact n (a @ s) = (Inr a, s)"
  by (simp add: read_exact_def)

lemma read_uint_append: "n < 256 ^ k \<Longrightarrow> read_uint k (be_bytes k n @ s) = (Inr n, s)"
  by (simp add: read_uint_def bnd_def read_exact_append ok_def be_bytes_value)

lemma read_header_append:
  "length d < 2 ^ 16 \<Longrightarrow> read_header_prefixed (be_bytes 2 (length d) @ d @ s) = (Inr d, s)"
  by (simp add: read_header_prefixed_def bnd_def read_uint_append MAX_MESSAGE_SIZE_def read_exact_append)

lemma read_body_append:
  "length d \<le> MAX_MESSAGE_SIZE \<Longrightarrow> read_body_prefixed (be_bytes 4 (length d) @ d @ s) = (Inr d, s)"
  by (simp add: read_body_prefixed_def bnd_def read_uint_append MAX_MESSAGE_SIZE_def read_exact_append)

lemma read_body_oversized:
  "MAX_MESSAGE_SIZE < n \<Longrightarrow> n < 2 ^ 32 \<Longrightarrow>
   read_body_prefixed (be_bytes 4 n @ s) = (Inl (BepErr (PeerBadMessage ''message too large'')), s)"
  by (simp add: read_body_prefixed_def bnd_def read_uint_append err_def)

lemma write_all_ok:
  "length d \<le> wr_room w \<Longrightarrow>
   write_all d w = (Inr (), w\<lparr>wr_out := wr_out w @ d, wr_room := wr_room w - length d\<rparr>)"
  by (simp add: write_all_def)

text \<open>A reader that succeeds reads only what it needs: more input changes nothing.\<close>

definition extends :: "(bytes, frame_error, 'a) op \<Rightarrow> bool" where
  "extends m \<longleftrightarrow> (\<forall>s x r q. m s = (Inr x, r) \<longrightarrow> m (s @ q) = (Inr x, r @ q))"

lemma extends_ok: "extends (ok x)" and extends_err: "extends (err e)" and extends_lift: "extends (lift_res r)"
  by (auto simp: extends_def op_simps)

lemma extends_read_exact: "extends (read_exact n)"
  by (auto simp: extends_def read_exact_def split: if_splits)

lemma extends_bnd:
  assumes "extends m" "\<And>x. extends (f x)"
  shows "extends (bnd m f)"
  using assms unfolding extends_def bnd_def by (auto split: prod.splits sum.splits)

lemma extends_if: "extends m \<Longrightarrow> extends n \<Longrightarrow> extends (if b then m else n)"
  by simp

lemma extends_option: "extends n \<Longrightarrow> (\<And>x. extends (f x)) \<Longrightarrow> extends (case y of None \<Rightarrow> n | Some x \<Rightarrow> f x)"
  by (cases y) auto

lemmas extends_rules = extends_ok extends_err extends_lift extends_read_exact extends_bnd extends_if extends_option

lemma extends_read_message: "extends (read_message w)"
  unfolding read_message_def read_header_prefixed_def read_body_prefixed_def read_uint_def
  by (intro extends_rules)

lemma extendsD: "extends m \<Longrightarrow> m s = (Inr x, r) \<Longrightarrow> m (s @ q) = (Inr x, r @ q)"
  by (simp add: extends_def)

section \<open>Properties\<close>

definition wf_header :: "header \<Rightarrow> bool" where
  "wf_header h \<longleftrightarrow> in_i32 (hd_type h) \<and> in_i32 (hd_compression h)"

definition wf_hello :: "hello \<Rightarrow> bool" where
  "wf_hello h \<longleftrightarrow> utf8_valid (he_device_name h) \<and> utf8_valid (he_client_name h) \<and> utf8_valid (he_client_version h) \<and>
     in_i32 (he_num_connections h) \<and> in_i64 (he_timestamp h)"

locale wire_laws =
  fixes w :: wire
  assumes header_codec: "wf_header h \<Longrightarrow> header_dec w (header_enc w h) = Some h"
    and header_short: "wf_header h \<Longrightarrow> length (header_enc w h) < 2 ^ 16"
    and hello_codec: "wf_hello e \<Longrightarrow> hello_dec w (hello_enc w e) = Some e"
    and lz_codec: "lz_decompress w (lz_compress w d) (length d) = Some d"
begin

lemma decompress_compress:
  assumes "length d \<le> MAX_MESSAGE_SIZE"
  shows "compress_lz4 w d = Inr (be_bytes 4 (length d) @ lz_compress w d)"
    "decompress_lz4 w (be_bytes 4 (length d) @ lz_compress w d) = Inr d"
  using assms by (simp_all add: compress_lz4_def decompress_lz4_def MAX_MESSAGE_SIZE_def be_bytes_value lz_codec)

text \<open>The bytes of a message on the wire.\<close>

lemma read_frame:
  assumes "wf_header h" "length d \<le> MAX_MESSAGE_SIZE"
  shows "read_message w (be_bytes 2 (length (header_enc w h)) @ header_enc w h @ be_bytes 4 (length d) @ d @ rest) =
    ((if header_compression h = CompressionLz4
      then map_sum id (\<lambda>b. \<lparr>rm_header = h, rm_body = b\<rparr>) (decompress_lz4 w d)
      else Inr \<lparr>rm_header = h, rm_body = d\<rparr>), rest)"
  using read_header_append [OF header_short [OF assms(1)]] read_body_append [OF assms(2), of rest]
    header_codec [OF assms(1)]
  by (auto simp: read_message_def bnd_def lift_res_def ok_def split: sum.split)

end

section \<open>A wire format that keeps the laws\<close>

fun put_str :: "bytes \<Rightarrow> bytes" where
  "put_str [] = ''0''"
| "put_str (c # cs) = CHR ''1'' # c # put_str cs"

fun get_str :: "bytes \<Rightarrow> (bytes \<times> bytes) option" where
  "get_str (m # c # s) =
     (if m = CHR ''1'' then map_option (\<lambda>(a, r). (c # a, r)) (get_str s) else Some ([], c # s))"
| "get_str [m] = Some ([], [])"
| "get_str [] = None"

definition put_int :: "int \<Rightarrow> bytes" where
  "put_int i = be_bytes 8 (nat (i + 2 ^ 63))"

definition get_int :: "bytes \<Rightarrow> int" where
  "get_int bs = int (be_value 256 (map byte bs)) - 2 ^ 63"

lemma get_put_str: "get_str (put_str a @ s) = Some (a, s)"
  by (induction a) (cases s; simp)+

lemma get_put_int: "in_i64 i \<Longrightarrow> get_int (put_int i) = i"
  by (simp add: get_int_def put_int_def in_i64_def i64_min_def i64_max_def be_bytes_value nat_less_iff)

lemma length_put_int [simp]: "length (put_int i) = 8"
  by (simp add: put_int_def)

lemma in_i32_i64: "in_i32 i \<Longrightarrow> in_i64 i"
  by (simp add: in_i32_def in_i64_def i64_min_def i64_max_def)

definition plain_hello_dec :: "bytes \<Rightarrow> hello option" where
  "plain_hello_dec s =
     Option.bind (get_str s) (\<lambda>(d, s1). Option.bind (get_str s1) (\<lambda>(c, s2). Option.bind (get_str s2) (\<lambda>(v, s3).
       Some \<lparr>he_device_name = d, he_client_name = c, he_client_version = v,
         he_num_connections = get_int (take 8 s3), he_timestamp = get_int (drop 8 s3)\<rparr>)))"

definition plain_wire :: wire where
  "plain_wire =
     \<lparr>header_enc = (\<lambda>h. put_int (hd_type h) @ put_int (hd_compression h)),
      header_dec = (\<lambda>s. Some \<lparr>hd_type = get_int (take 8 s), hd_compression = get_int (drop 8 s)\<rparr>),
      hello_enc = (\<lambda>h. put_str (he_device_name h) @ put_str (he_client_name h) @ put_str (he_client_version h) @
        put_int (he_num_connections h) @ put_int (he_timestamp h)),
      hello_dec = plain_hello_dec,
      lz_compress = (\<lambda>d. d), lz_decompress = (\<lambda>d n. Some d)\<rparr>"

interpretation plain: wire_laws plain_wire
  by unfold_locales
    (simp_all add: plain_wire_def plain_hello_dec_def get_put_str get_put_int in_i32_i64 wf_header_def wf_hello_def)

definition payload :: "wire \<Rightarrow> bytes \<Rightarrow> bool \<Rightarrow> bytes" where
  "payload w body compress = (if compress then be_bytes 4 (length body) @ lz_compress w body else body)"

definition sent_header :: "header \<Rightarrow> bool \<Rightarrow> header" where
  "sent_header h compress = (if compress then h\<lparr>hd_compression := 1\<rparr> else h)"

lemma write_message_out:
  assumes "write_message w h body compress wr = (Inr (), wr')"
  shows "wr_out wr' = wr_out wr @ be_bytes 2 (length (header_enc w (sent_header h compress))) @
    header_enc w (sent_header h compress) @ be_bytes 4 (length (payload w body compress)) @ payload w body compress"
  using assms
  by (auto simp: write_message_def Let_def write_header_prefixed_def write_body_prefixed_def sent_header_def payload_def
      compress_lz4_def bnd_def lift_res_def err_def write_all_def split: if_splits)

text \<open>C24.  A message that was written is read back, with the compression mark the writer set, and
  exactly its bytes are consumed; no strict prefix of it is accepted as a message.\<close>

theorem message_round_trip:
  assumes "wire_laws w" "wf_header h" "length body \<le> MAX_MESSAGE_SIZE"
    and "length (payload w body compress) \<le> MAX_MESSAGE_SIZE" "compress \<or> hd_compression h \<noteq> 1"
    and "write_message w h body compress wr = (Inr (), wr')"
  shows "\<exists>f. wr_out wr' = wr_out wr @ f \<and>
    (\<forall>rest. read_message w (f @ rest) = (Inr \<lparr>rm_header = sent_header h compress, rm_body = body\<rparr>, rest)) \<and>
    (\<forall>p q m r. f = p @ q \<and> q \<noteq> [] \<longrightarrow> read_message w p \<noteq> (Inr m, r))"
proof -
  let ?h = "sent_header h compress" and ?d = "payload w body compress"
  let ?f = "be_bytes 2 (length (header_enc w ?h)) @ header_enc w ?h @ be_bytes 4 (length ?d) @ ?d"
  have wf: "wf_header ?h" using assms(2) by (simp add: sent_header_def wf_header_def in_i32_def)
  have read: "read_message w (?f @ rest) = (Inr \<lparr>rm_header = ?h, rm_body = body\<rparr>, rest)" for rest
    using wire_laws.read_frame [OF assms(1) wf assms(4), of rest] wire_laws.decompress_compress [OF assms(1,3)] assms(5)
    by (auto simp: sent_header_def payload_def header_compression_def)
  have "read_message w p \<noteq> (Inr m, r)" if "?f = p @ q" "q \<noteq> []" for p q m r
  proof
    assume "read_message w p = (Inr m, r)"
    from extendsD [OF extends_read_message this, of q] read [of "[]"] that show False by simp
  qed
  with read write_message_out [OF assms(6)] show ?thesis by blast
qed

theorem message_round_trip_witness:
  "\<exists>f. wr_out (snd (write_message plain_wire \<lparr>hd_type = 1, hd_compression = 0\<rparr> ''body'' True \<lparr>wr_out = [], wr_room = 100\<rparr>)) = f \<and>
    read_message plain_wire f = (Inr \<lparr>rm_header = \<lparr>hd_type = 1, hd_compression = 1\<rparr>, rm_body = ''body''\<rparr>, [])"
proof -
  let ?h = "\<lparr>hd_type = 1, hd_compression = 0\<rparr>" and ?wr = "\<lparr>wr_out = [], wr_room = 100\<rparr>"
  have "fst (write_message plain_wire ?h ''body'' True ?wr) = Inr ()"
    by (simp add: write_message_def write_header_prefixed_def write_body_prefixed_def compress_lz4_def bnd_def
        lift_res_def write_all_def plain_wire_def)
  then have "write_message plain_wire ?h ''body'' True ?wr = (Inr (), snd (write_message plain_wire ?h ''body'' True ?wr))"
    by (simp add: prod_eq_iff)
  from message_round_trip [OF plain.wire_laws_axioms _ _ _ _ this] obtain f where
    "wr_out (snd (write_message plain_wire ?h ''body'' True ?wr)) = f"
    "\<And>rest. read_message plain_wire (f @ rest) = (Inr \<lparr>rm_header = sent_header ?h True, rm_body = ''body''\<rparr>, rest)"
    by (auto simp: wf_header_def in_i32_def payload_def plain_wire_def MAX_MESSAGE_SIZE_def)
  from this(1) this(2) [of "[]"] show ?thesis by (simp add: sent_header_def)
qed

lemma read_body_bounded: "read_body_prefixed s = (Inr d, t) \<Longrightarrow> length d \<le> MAX_MESSAGE_SIZE"
  by (auto simp: read_body_prefixed_def bnd_def err_def read_exact_def split: if_splits prod.splits sum.splits)

lemma decompress_bounded: "decompress_lz4 w d = Inr b \<Longrightarrow> length b \<le> MAX_MESSAGE_SIZE"
  by (auto simp: decompress_lz4_def Let_def split: if_splits option.splits)

text \<open>C25.  Whatever a peer sends, a message that is accepted has a body within the limit: neither a
  length field nor a compressed body makes the reader return more.\<close>

theorem read_message_bounded:
  assumes "read_message w s = (Inr m, t)"
  shows "length (rm_body m) \<le> MAX_MESSAGE_SIZE"
  using assms unfolding read_message_def
  by (elim bnd_InrE) (auto simp: op_simps split: if_splits dest: read_body_bounded decompress_bounded)

theorem read_message_bounded_witness:
  "\<exists>m t. read_message plain_wire (be_bytes 2 16 @ put_int 0 @ put_int 0 @ be_bytes 4 1 @ ''x'') = (Inr m, t) \<and>
    length (rm_body m) \<le> MAX_MESSAGE_SIZE"
proof -
  have "header_enc plain_wire \<lparr>hd_type = 0, hd_compression = 0\<rparr> = put_int 0 @ put_int 0"
    by (simp add: plain_wire_def)
  then have "read_message plain_wire (be_bytes 2 16 @ put_int 0 @ put_int 0 @ be_bytes 4 1 @ ''x'') =
      (Inr \<lparr>rm_header = \<lparr>hd_type = 0, hd_compression = 0\<rparr>, rm_body = ''x''\<rparr>, [])"
    using plain.read_frame [of "\<lparr>hd_type = 0, hd_compression = 0\<rparr>" "''x''" "[]"]
    by (simp add: wf_header_def in_i32_def MAX_MESSAGE_SIZE_def header_compression_def)
  with read_message_bounded [OF this] show ?thesis by blast
qed

text \<open>A hello that was sent is received as sent, whatever follows it.\<close>

lemma hello_round_trip:
  assumes "wire_laws w" "utf8_valid version" "utf8_valid name" "name \<noteq> []"
    and "h = \<lparr>he_device_name = name, he_client_name = CLIENT_NAME, he_client_version = version,
          he_num_connections = 1, he_timestamp = now\<rparr>"
    and "length (hello_enc w h) \<le> MAX_HELLO_SIZE" "send_hello w version now name wr = (Inr (), wr')"
  shows "\<exists>f. wr_out wr' = wr_out wr @ f \<and> (\<forall>rest. recv_hello w (f @ rest) = (Inr h, rest))"
proof -
  have now: "0 \<le> now" "now \<le> i64_max" using assms(7) by (auto simp: send_hello_def err_def split: if_splits)
  then have "wf_hello h" using assms(2,3,5)
    by (simp add: wf_hello_def CLIENT_NAME_def utf8_ascii byte_def in_i32_def in_i64_def i64_min_def)
  from wire_laws.hello_codec [OF assms(1) this] have dec: "hello_dec w (hello_enc w h) = Some h" .
  let ?f = "be_bytes 4 HELLO_MAGIC @ be_bytes 2 (length (hello_enc w h)) @ hello_enc w h"
  have "wr_out wr' = wr_out wr @ ?f"
    using assms(5,7) now by (auto simp: send_hello_def Let_def write_all_def err_def split: if_splits)
  moreover have "recv_hello w (?f @ rest) = (Inr h, rest)" for rest
    using assms(4-6) dec
    by (simp add: recv_hello_def bnd_def read_uint_append HELLO_MAGIC_def MAX_HELLO_SIZE_def read_exact_append ok_def
        CLIENT_NAME_def)
  ultimately show ?thesis by blast
qed

end
