(* ===== verification/Retry.thy ===== *)
theory Retry
  imports Errors Complex_Main
begin

text \<open>
  Retries of storage operations: \<open>bepository-bep/src/retry.rs\<close>.  A policy is the value of its
  trait object.  Durations are seconds as real numbers, without the rounding of \<open>f64\<close>.  The
  shutdown token is a function that says whether it fires during the sleep after an attempt.  The
  loop has fuel; \<open>retry_spec\<close> gives the fuel that is always enough for the policies of the code.
\<close>

section \<open>Policies\<close>

type_synonym retry_policy = "u32 \<Rightarrow> storage_error \<Rightarrow> real option"

fun standard_map_error :: "storage_error \<Rightarrow> bep_error" where
  "standard_map_error (TransientIo msg) = BepTransientIo msg"
| "standard_map_error (Corruption msg) = BepCorruption msg"
| "standard_map_error (UnsupportedVersion found supported) = BepUnsupportedVersion found supported"
| "standard_map_error (Standby msg) = BepStandby msg"
| "standard_map_error (NotFound msg) = BepCorruption (''not found: '' @ msg)"
| "standard_map_error (InvalidInput msg) = PeerBadMessage (''invalid input: '' @ msg)"
| "standard_map_error (Internal msg) = BepInternal msg"

record exponential_backoff =
  eb_base :: real
  eb_multiplier :: real
  eb_max_delay :: real
  eb_max_attempts :: u32

definition exponential_backoff_new :: "real \<Rightarrow> real \<Rightarrow> real \<Rightarrow> u32 \<Rightarrow> exponential_backoff option" where
  "exponential_backoff_new base multiplier max_delay max_attempts =
     (if multiplier \<ge> 0 then Some \<lparr>eb_base = base, eb_multiplier = multiplier, eb_max_delay = max_delay,
        eb_max_attempts = max_attempts\<rparr> else None)"

definition exponential_backoff_default :: exponential_backoff where
  "exponential_backoff_default = \<lparr>eb_base = 1, eb_multiplier = 2, eb_max_delay = 60, eb_max_attempts = 10\<rparr>"

definition backoff_next_delay :: "exponential_backoff \<Rightarrow> retry_policy" where
  "backoff_next_delay p attempt error =
     (if \<not> storage_is_transient error then None
      else if attempt \<ge> eb_max_attempts p then None
      else let base_secs = eb_base p * eb_multiplier p ^ unat attempt
           in Some (min base_secs (eb_max_delay p)))"

definition no_retry_next_delay :: retry_policy where
  "no_retry_next_delay attempt error = None"

definition immediate_next_delay :: "u32 \<Rightarrow> retry_policy" where
  "immediate_next_delay max_attempts attempt error =
     (if \<not> storage_is_transient error then None
      else if attempt < max_attempts then Some 0 else None)"

section \<open>The loop\<close>

fun retry_loop ::
  "nat \<Rightarrow> retry_policy \<Rightarrow> (u32 \<Rightarrow> bool) \<Rightarrow> ('s, storage_error, 'a) op \<Rightarrow> u32 \<Rightarrow> 's \<Rightarrow> ((bep_error + 'a) \<times> 's) option" where
  "retry_loop 0 policy shutdown f attempt s = None"
| "retry_loop (Suc fuel) policy shutdown f attempt s =
     (case f s of
        (Inr val, t) \<Rightarrow> Some (Inr val, t)
      | (Inl e, t) \<Rightarrow>
          (case policy attempt e of
             Some delay \<Rightarrow>
               if delay = 0 then retry_loop fuel policy shutdown f (attempt + 1) t
               else if shutdown attempt then Some (Inl (BepTransientIo ''shutdown requested during retry''), t)
               else retry_loop fuel policy shutdown f (attempt + 1) t
           | None \<Rightarrow> Some (Inl (standard_map_error e), t)))"

definition retry_storage_op ::
  "nat \<Rightarrow> retry_policy \<Rightarrow> (u32 \<Rightarrow> bool) \<Rightarrow> ('s, storage_error, 'a) op \<Rightarrow> 's \<Rightarrow> ((bep_error + 'a) \<times> 's) option" where
  "retry_storage_op fuel policy shutdown f s = retry_loop fuel policy shutdown f 0 s"

section \<open>Bounded policies\<close>

text \<open>The contract of the policies: only transient errors are retried, and only so often.\<close>

locale bounded_policy =
  fixes policy :: retry_policy and limit :: u32
  assumes retries: "policy n e \<noteq> None \<longleftrightarrow> storage_is_transient e \<and> n < limit"

interpretation backoff: bounded_policy "backoff_next_delay p" "eb_max_attempts p"
  by unfold_locales (auto simp: backoff_next_delay_def Let_def not_le)

interpretation no_retry: bounded_policy no_retry_next_delay 0
  by unfold_locales (simp add: no_retry_next_delay_def)

interpretation immediate: bounded_policy "immediate_next_delay n" n
  by unfold_locales (simp add: immediate_next_delay_def)

text \<open>The state after a number of calls of an operation.\<close>

fun after_calls :: "('s, 'e, 'a) op \<Rightarrow> nat \<Rightarrow> 's \<Rightarrow> 's" where
  "after_calls f 0 s = s"
| "after_calls f (Suc n) s = after_calls f n (snd (f s))"

text \<open>The outcome of a retried operation whose last call is the one in state \<open>s\<close>, as attempt \<open>n\<close>.\<close>

definition settles ::
  "u32 \<Rightarrow> (u32 \<Rightarrow> bool) \<Rightarrow> u32 \<Rightarrow> (storage_error + 'a) \<Rightarrow> (bep_error + 'a) \<Rightarrow> bool" where
  "settles limit shutdown n r out \<longleftrightarrow>
     (case r of
        Inr v \<Rightarrow> out = Inr v
      | Inl e \<Rightarrow> out = Inl (standard_map_error e) \<and> \<not> (storage_is_transient e \<and> n < limit) \<or>
          out = Inl (BepTransientIo ''shutdown requested during retry'') \<and> storage_is_transient e \<and> n < limit \<and> shutdown n)"

context bounded_policy
begin

lemma retry_loop_spec:
  assumes "unat limit - unat n < fuel"
  shows "\<exists>k out. unat n + k \<le> max (unat n) (unat limit) \<and>
    retry_loop fuel policy shutdown f n s = Some (out, snd (f (after_calls f k s))) \<and>
    (\<forall>j < k. \<exists>msg. fst (f (after_calls f j s)) = Inl (TransientIo msg)) \<and>
    settles limit shutdown (n + of_nat k) (fst (f (after_calls f k s))) out"
  using assms
proof (induction fuel arbitrary: n s)
  case (Suc fuel)
  obtain r t where f: "f s = (r, t)" by fastforce
  let ?done = "\<exists>out. retry_loop (Suc fuel) policy shutdown f n s = Some (out, t) \<and> settles limit shutdown n r out"
  show ?case
  proof (cases "?done")
    case True
    then show ?thesis using f by (intro exI [of _ "0 :: nat"]) auto
  next
    case False
    then obtain e d where e: "r = Inl e" "policy n e = Some d" "retry_loop (Suc fuel) policy shutdown f n s = retry_loop fuel policy shutdown f (n + 1) t"
      using f retries [of n "projl r"] by (cases r; cases "policy n (projl r)") (auto simp: settles_def split: if_splits)
    then have lt: "storage_is_transient e" "n < limit" using retries [of n e] by auto
    have "unat limit < 2 ^ 32" using unsigned_less [of limit] by simp
    with lt(2) have n1: "unat (n + 1) = Suc (unat n)" by (simp add: unat_word_ariths word_less_nat_alt)
    with Suc.prems lt(2) have "unat limit - unat (n + 1) < fuel" by (simp add: word_less_nat_alt)
    from Suc.IH [OF this, of t] obtain k out where k: "unat (n + 1) + k \<le> max (unat (n + 1)) (unat limit)"
      "retry_loop fuel policy shutdown f (n + 1) t = Some (out, snd (f (after_calls f k t)))"
      "\<forall>j < k. \<exists>msg. fst (f (after_calls f j t)) = Inl (TransientIo msg)"
      "settles limit shutdown (n + 1 + of_nat k) (fst (f (after_calls f k t))) out" by blast
    have "\<exists>msg. fst (f (after_calls f j s)) = Inl (TransientIo msg)" if "j < Suc k" for j
      using that k(3) lt(1) f e(1) by (cases j; cases e) auto
    then show ?thesis
      using k n1 lt(2) e(3) f by (intro exI [of _ "Suc k"] exI [of _ out]) (simp add: word_less_nat_alt add.assoc)
  qed
qed simp

end

section \<open>Properties\<close>

text \<open>C26.  With the backoff policy of the code, a retried operation always ends, after at most
  \<open>max_attempts\<close> retries: the calls before the last one failed with transient errors, and the
  last one succeeded, or its error is mapped because it is not transient or the attempts are used
  up, or the shutdown token fired during the sleep.\<close>

theorem retry_spec:
  "\<exists>k out. k \<le> unat (eb_max_attempts p) \<and>
    retry_storage_op (Suc (unat (eb_max_attempts p))) (backoff_next_delay p) shutdown f s =
      Some (out, snd (f (after_calls f k s))) \<and>
    (\<forall>j < k. \<exists>msg. fst (f (after_calls f j s)) = Inl (TransientIo msg)) \<and>
    settles (eb_max_attempts p) shutdown (of_nat k) (fst (f (after_calls f k s))) out"
  unfolding retry_storage_op_def
  using backoff.retry_loop_spec [of p 0 "Suc (unat (eb_max_attempts p))" shutdown f s] by simp

theorem retry_spec_witness:
  "\<exists>k out. k \<le> 10 \<and>
    retry_storage_op 11 (backoff_next_delay exponential_backoff_default) (\<lambda>_. False)
      (\<lambda>n. (if n < 3 then Inl (TransientIo ''blip'') else Inr ''done'', Suc n)) (0 :: nat) = Some (out, Suc k)"
proof -
  let ?f = "\<lambda>n :: nat. (if n < 3 then Inl (TransientIo ''blip'') else Inr ''done'', Suc n)"
  have calls: "after_calls ?f k n = k + n" for k n by (induction k arbitrary: n) auto
  show ?thesis
    using retry_spec [of exponential_backoff_default "\<lambda>_. False" ?f 0]
    by (auto simp: exponential_backoff_default_def calls)
qed

end
