(* ===== verification/Proto.thy ===== *)
theory Proto
  imports Errors
begin

text \<open>
  The protocol buffer messages of \<open>bepository-bep/proto/bep.proto\<close> and
  \<open>bepository-storage/proto/storage.proto\<close> that the code computes with, as \<open>prost\<close> declares
  them (an enum field is an \<open>i32\<close>, a message field an option), and the conversions between
  the two of \<open>bepository-storage/src/proto.rs\<close>.
\<close>

section \<open>bep.proto\<close>

record counter =
  cnt_id :: u64
  cnt_value :: u64

record vector =
  counters :: "counter list"

record block_info =
  bi_hash :: bytes
  bi_offset :: i64
  bi_size :: i32

record unix_data =
  ud_owner_name :: bytes
  ud_group_name :: bytes
  ud_uid :: i32
  ud_gid :: i32

record windows_data =
  wd_owner_name :: bytes
  wd_owner_is_group :: bool

record xattr =
  xa_name :: bytes
  xa_value :: bytes

record xattr_data =
  xattrs :: "xattr list"

record platform_data =
  pd_unix :: "unix_data option"
  pd_windows :: "windows_data option"
  pd_linux :: "xattr_data option"
  pd_darwin :: "xattr_data option"
  pd_freebsd :: "xattr_data option"
  pd_netbsd :: "xattr_data option"

record file_info =
  fi_name :: bytes
  fi_size :: i64
  fi_modified_s :: i64
  fi_modified_by :: u64
  fi_version :: "vector option"
  fi_sequence :: i64
  fi_blocks :: "block_info list"
  fi_symlink_target :: bytes
  fi_blocks_hash :: bytes
  fi_previous_blocks_hash :: bytes
  fi_encrypted :: bytes
  fi_type :: i32
  fi_permissions :: u32
  fi_modified_ns :: i32
  fi_block_size :: i32
  fi_platform :: "platform_data option"
  fi_local_flags :: u32
  fi_version_hash :: bytes
  fi_inode_change_ns :: i64
  fi_encryption_trailer_size :: i32
  fi_deleted :: bool
  fi_invalid :: bool
  fi_no_permissions :: bool

datatype file_info_type =
  TypeFile | TypeDirectory | TypeSymlinkFile | TypeSymlinkDirectory | TypeSymlink

fun file_info_type_i32 :: "file_info_type \<Rightarrow> i32" where
  "file_info_type_i32 TypeFile = 0"
| "file_info_type_i32 TypeDirectory = 1"
| "file_info_type_i32 TypeSymlinkFile = 2"
| "file_info_type_i32 TypeSymlinkDirectory = 3"
| "file_info_type_i32 TypeSymlink = 4"

definition file_info_type_try_from :: "i32 \<Rightarrow> file_info_type option" where
  "file_info_type_try_from i =
     (if i = 0 then Some TypeFile
      else if i = 1 then Some TypeDirectory
      else if i = 2 then Some TypeSymlinkFile
      else if i = 3 then Some TypeSymlinkDirectory
      else if i = 4 then Some TypeSymlink
      else None)"

section \<open>storage.proto\<close>

record block_ref =
  seqno :: u64

record folder_index_meta =
  fm_max_sequence :: i64
  fm_next_blockseq :: "u64 option"

record remote_index_state =
  ri_index_id :: u64
  ri_max_sequence :: i64

record s_counter =
  s_cnt_id :: u64
  s_cnt_value :: u64

record s_vector =
  s_counters :: "s_counter list"

record s_block_info =
  sb_hash :: bytes
  sb_offset :: i64
  sb_size :: i32
  sb_blockseq :: "u64 option"
  sb_inline_data :: "bytes option"

record s_unix_data =
  s_ud_owner_name :: bytes
  s_ud_group_name :: bytes
  s_ud_uid :: i32
  s_ud_gid :: i32

record s_windows_data =
  s_wd_owner_name :: bytes
  s_wd_owner_is_group :: bool

record s_xattr =
  s_xa_name :: bytes
  s_xa_value :: bytes

record s_xattr_data =
  s_xattrs :: "s_xattr list"

record s_platform_data =
  s_pd_unix :: "s_unix_data option"
  s_pd_windows :: "s_windows_data option"
  s_pd_linux :: "s_xattr_data option"
  s_pd_darwin :: "s_xattr_data option"
  s_pd_freebsd :: "s_xattr_data option"
  s_pd_netbsd :: "s_xattr_data option"

record s_file_info =
  sf_name :: bytes
  sf_size :: i64
  sf_modified_s :: i64
  sf_modified_by :: u64
  sf_version :: "s_vector option"
  sf_sequence :: i64
  sf_blocks :: "s_block_info list"
  sf_symlink_target :: bytes
  sf_blocks_hash :: bytes
  sf_previous_blocks_hash :: bytes
  sf_encrypted :: bytes
  sf_type :: i32
  sf_permissions :: u32
  sf_modified_ns :: i32
  sf_block_size :: i32
  sf_platform :: "s_platform_data option"
  sf_local_flags :: u32
  sf_version_hash :: bytes
  sf_inode_change_ns :: i64
  sf_encryption_trailer_size :: i32
  sf_deleted :: bool
  sf_invalid :: bool
  sf_no_permissions :: bool

datatype s_file_info_type = SUnspecified | SFile | SDirectory | SSymlink

fun s_file_info_type_i32 :: "s_file_info_type \<Rightarrow> i32" where
  "s_file_info_type_i32 SUnspecified = 0"
| "s_file_info_type_i32 SFile = 1"
| "s_file_info_type_i32 SDirectory = 2"
| "s_file_info_type_i32 SSymlink = 3"

definition s_file_info_type_try_from :: "i32 \<Rightarrow> s_file_info_type option" where
  "s_file_info_type_try_from i =
     (if i = 0 then Some SUnspecified
      else if i = 1 then Some SFile
      else if i = 2 then Some SDirectory
      else if i = 3 then Some SSymlink
      else None)"

record file_msg =
  file_file_info :: "s_file_info option"

record inbox_msg =
  inbox_file_info :: "s_file_info option"

section \<open>proto.rs\<close>

definition bep_type_to_storage :: "i32 \<Rightarrow> i32" where
  "bep_type_to_storage t =
     s_file_info_type_i32
       (case (case file_info_type_try_from t of Some b \<Rightarrow> b | None \<Rightarrow> TypeFile) of
          TypeFile \<Rightarrow> SFile
        | TypeDirectory \<Rightarrow> SDirectory
        | TypeSymlinkFile \<Rightarrow> SSymlink
        | TypeSymlinkDirectory \<Rightarrow> SSymlink
        | TypeSymlink \<Rightarrow> SSymlink)"

definition storage_type_to_bep :: "i32 \<Rightarrow> storage_error + i32" where
  "storage_type_to_bep t =
     (case s_file_info_type_try_from t of
        None \<Rightarrow> Inl (Corruption ''invalid storage FileInfoType value'')
      | Some v \<Rightarrow>
          (case v of
             SUnspecified \<Rightarrow> Inl (Corruption ''storage FileInfoType is UNSPECIFIED'')
           | SFile \<Rightarrow> Inr (file_info_type_i32 TypeFile)
           | SDirectory \<Rightarrow> Inr (file_info_type_i32 TypeDirectory)
           | SSymlink \<Rightarrow> Inr (file_info_type_i32 TypeSymlink)))"

definition s_of_counter :: "counter \<Rightarrow> s_counter" where
  "s_of_counter b = \<lparr>s_cnt_id = cnt_id b, s_cnt_value = cnt_value b\<rparr>"

definition b_of_counter :: "s_counter \<Rightarrow> counter" where
  "b_of_counter s = \<lparr>cnt_id = s_cnt_id s, cnt_value = s_cnt_value s\<rparr>"

definition s_of_vector :: "vector \<Rightarrow> s_vector" where
  "s_of_vector b = \<lparr>s_counters = map s_of_counter (counters b)\<rparr>"

definition b_of_vector :: "s_vector \<Rightarrow> vector" where
  "b_of_vector s = \<lparr>counters = map b_of_counter (s_counters s)\<rparr>"

definition s_of_block_info :: "block_info \<Rightarrow> s_block_info" where
  "s_of_block_info b =
     \<lparr>sb_hash = bi_hash b, sb_offset = bi_offset b, sb_size = bi_size b,
      sb_blockseq = None, sb_inline_data = None\<rparr>"

definition b_of_block_info :: "s_block_info \<Rightarrow> block_info" where
  "b_of_block_info s =
     \<lparr>bi_hash = sb_hash s, bi_offset = sb_offset s, bi_size = sb_size s\<rparr>"

definition s_of_unix_data :: "unix_data \<Rightarrow> s_unix_data" where
  "s_of_unix_data b =
     \<lparr>s_ud_owner_name = ud_owner_name b, s_ud_group_name = ud_group_name b,
      s_ud_uid = ud_uid b, s_ud_gid = ud_gid b\<rparr>"

definition b_of_unix_data :: "s_unix_data \<Rightarrow> unix_data" where
  "b_of_unix_data s =
     \<lparr>ud_owner_name = s_ud_owner_name s, ud_group_name = s_ud_group_name s,
      ud_uid = s_ud_uid s, ud_gid = s_ud_gid s\<rparr>"

definition s_of_windows_data :: "windows_data \<Rightarrow> s_windows_data" where
  "s_of_windows_data b =
     \<lparr>s_wd_owner_name = wd_owner_name b, s_wd_owner_is_group = wd_owner_is_group b\<rparr>"

definition b_of_windows_data :: "s_windows_data \<Rightarrow> windows_data" where
  "b_of_windows_data s =
     \<lparr>wd_owner_name = s_wd_owner_name s, wd_owner_is_group = s_wd_owner_is_group s\<rparr>"

definition s_of_xattr :: "xattr \<Rightarrow> s_xattr" where
  "s_of_xattr b = \<lparr>s_xa_name = xa_name b, s_xa_value = xa_value b\<rparr>"

definition b_of_xattr :: "s_xattr \<Rightarrow> xattr" where
  "b_of_xattr s = \<lparr>xa_name = s_xa_name s, xa_value = s_xa_value s\<rparr>"

definition s_of_xattr_data :: "xattr_data \<Rightarrow> s_xattr_data" where
  "s_of_xattr_data b = \<lparr>s_xattrs = map s_of_xattr (xattrs b)\<rparr>"

definition b_of_xattr_data :: "s_xattr_data \<Rightarrow> xattr_data" where
  "b_of_xattr_data s = \<lparr>xattrs = map b_of_xattr (s_xattrs s)\<rparr>"

definition s_of_platform_data :: "platform_data \<Rightarrow> s_platform_data" where
  "s_of_platform_data b =
     \<lparr>s_pd_unix = map_option s_of_unix_data (pd_unix b),
      s_pd_windows = map_option s_of_windows_data (pd_windows b),
      s_pd_linux = map_option s_of_xattr_data (pd_linux b),
      s_pd_darwin = map_option s_of_xattr_data (pd_darwin b),
      s_pd_freebsd = map_option s_of_xattr_data (pd_freebsd b),
      s_pd_netbsd = map_option s_of_xattr_data (pd_netbsd b)\<rparr>"

definition b_of_platform_data :: "s_platform_data \<Rightarrow> platform_data" where
  "b_of_platform_data s =
     \<lparr>pd_unix = map_option b_of_unix_data (s_pd_unix s),
      pd_windows = map_option b_of_windows_data (s_pd_windows s),
      pd_linux = map_option b_of_xattr_data (s_pd_linux s),
      pd_darwin = map_option b_of_xattr_data (s_pd_darwin s),
      pd_freebsd = map_option b_of_xattr_data (s_pd_freebsd s),
      pd_netbsd = map_option b_of_xattr_data (s_pd_netbsd s)\<rparr>"

definition s_of_file_info :: "file_info \<Rightarrow> s_file_info" where
  "s_of_file_info b =
     \<lparr>sf_name = fi_name b,
      sf_size = fi_size b,
      sf_modified_s = fi_modified_s b,
      sf_modified_by = fi_modified_by b,
      sf_version = map_option s_of_vector (fi_version b),
      sf_sequence = fi_sequence b,
      sf_blocks = map s_of_block_info (fi_blocks b),
      sf_symlink_target = fi_symlink_target b,
      sf_blocks_hash = fi_blocks_hash b,
      sf_previous_blocks_hash = fi_previous_blocks_hash b,
      sf_encrypted = fi_encrypted b,
      sf_type = bep_type_to_storage (fi_type b),
      sf_permissions = fi_permissions b,
      sf_modified_ns = fi_modified_ns b,
      sf_block_size = fi_block_size b,
      sf_platform = map_option s_of_platform_data (fi_platform b),
      sf_local_flags = fi_local_flags b,
      sf_version_hash = fi_version_hash b,
      sf_inode_change_ns = fi_inode_change_ns b,
      sf_encryption_trailer_size = fi_encryption_trailer_size b,
      sf_deleted = fi_deleted b,
      sf_invalid = fi_invalid b,
      sf_no_permissions = fi_no_permissions b\<rparr>"

definition b_of_file_info :: "s_file_info \<Rightarrow> storage_error + file_info" where
  "b_of_file_info s =
     rbind (storage_type_to_bep (sf_type s)) (\<lambda>t. Inr
     \<lparr>fi_name = sf_name s,
      fi_size = sf_size s,
      fi_modified_s = sf_modified_s s,
      fi_modified_by = sf_modified_by s,
      fi_version = map_option b_of_vector (sf_version s),
      fi_sequence = sf_sequence s,
      fi_blocks = map b_of_block_info (sf_blocks s),
      fi_symlink_target = sf_symlink_target s,
      fi_blocks_hash = sf_blocks_hash s,
      fi_previous_blocks_hash = sf_previous_blocks_hash s,
      fi_encrypted = sf_encrypted s,
      fi_type = t,
      fi_permissions = sf_permissions s,
      fi_modified_ns = sf_modified_ns s,
      fi_block_size = sf_block_size s,
      fi_platform = map_option b_of_platform_data (sf_platform s),
      fi_local_flags = sf_local_flags s,
      fi_version_hash = sf_version_hash s,
      fi_inode_change_ns = sf_inode_change_ns s,
      fi_encryption_trailer_size = sf_encryption_trailer_size s,
      fi_deleted = sf_deleted s,
      fi_invalid = sf_invalid s,
      fi_no_permissions = sf_no_permissions s\<rparr>)"

section \<open>Round trips\<close>

lemma b_s_counter [simp]: "b_of_counter (s_of_counter c) = c"
  by (simp add: b_of_counter_def s_of_counter_def)

lemma b_s_vector [simp]: "b_of_vector (s_of_vector v) = v"
  by (simp add: b_of_vector_def s_of_vector_def comp_def map_idI)

lemma b_s_block_info [simp]: "b_of_block_info (s_of_block_info b) = b"
  by (simp add: b_of_block_info_def s_of_block_info_def)

lemma s_of_block_info_sel [simp]:
  "sb_hash (s_of_block_info b) = bi_hash b" "sb_offset (s_of_block_info b) = bi_offset b"
  "sb_size (s_of_block_info b) = bi_size b" "sb_blockseq (s_of_block_info b) = None"
  "sb_inline_data (s_of_block_info b) = None"
  by (simp_all add: s_of_block_info_def)

lemma b_s_unix_data [simp]: "b_of_unix_data (s_of_unix_data u) = u"
  by (simp add: b_of_unix_data_def s_of_unix_data_def)

lemma b_s_windows_data [simp]: "b_of_windows_data (s_of_windows_data w) = w"
  by (simp add: b_of_windows_data_def s_of_windows_data_def)

lemma b_s_xattr [simp]: "b_of_xattr (s_of_xattr x) = x"
  by (simp add: b_of_xattr_def s_of_xattr_def)

lemma b_s_xattr_data [simp]: "b_of_xattr_data (s_of_xattr_data x) = x"
  by (simp add: b_of_xattr_data_def s_of_xattr_data_def comp_def map_idI)

lemma map_option_inverse: "(\<And>x. f (g x) = x) \<Longrightarrow> map_option f (map_option g v) = v"
  by (cases v) auto

lemma b_s_platform_data [simp]: "b_of_platform_data (s_of_platform_data p) = p"
  by (simp add: b_of_platform_data_def s_of_platform_data_def map_option_inverse)

text \<open>The type a file has after a round trip: the symlink variants collapse.\<close>

definition canonical_type :: "i32 \<Rightarrow> i32" where
  "canonical_type t = (if t = 1 then 1 else if t = 2 \<or> t = 3 \<or> t = 4 then 4 else 0)"

lemma storage_type_round_trip:
  "storage_type_to_bep (bep_type_to_storage t) = Inr (canonical_type t)"
  by (simp add: storage_type_to_bep_def bep_type_to_storage_def canonical_type_def
      file_info_type_try_from_def s_file_info_type_try_from_def)

lemma b_s_file_info:
  "b_of_file_info (s_of_file_info f) = Inr (f\<lparr>fi_type := canonical_type (fi_type f)\<rparr>)"
  by (simp add: b_of_file_info_def s_of_file_info_def storage_type_round_trip
      map_option_inverse comp_def map_idI)

lemma b_of_file_info_error:
  "(\<exists>e. b_of_file_info s = Inl e) \<longleftrightarrow> sf_type s \<notin> {1, 2, 3}"
  by (auto simp: b_of_file_info_def storage_type_to_bep_def s_file_info_type_try_from_def)

text \<open>
  C14. Storing a file entry and reading it back loses nothing but the deprecated symlink
  variants of its type (and maps an unknown type to a plain file): all other 22 fields of
  \<open>FileInfo\<close>, platform data included, come back; and a stored entry is rejected, as
  corruption, exactly when its type is not one the store writes.
\<close>

theorem file_info_round_trip:
  "b_of_file_info (s_of_file_info f) = Inr (f\<lparr>fi_type := canonical_type (fi_type f)\<rparr>) \<and>
   ((\<exists>m. b_of_file_info s = Inl (Corruption m)) \<longleftrightarrow> sf_type s \<notin> {1, 2, 3})"
  using b_s_file_info
  by (auto simp: b_of_file_info_def storage_type_to_bep_def s_file_info_type_try_from_def)

end
