(* ===== verification/Validate.thy ===== *)
theory Validate
  imports Proto
begin

text \<open>
  Checks on what a peer sends: the block list of a \<open>FileInfo\<close>
  (\<open>bepository-bep/src/validate.rs\<close>) and the file names the store accepts
  (\<open>validate_file_name\<close> of \<open>bepository-storage/src/api.rs\<close>).
\<close>

section \<open>Block lists\<close>

definition MAX_BLOCK_SIZE :: i32 where
  "MAX_BLOCK_SIZE = 16 * 1024 * 1024"

text \<open>The loop over the blocks: the offset reached, or the first violation.\<close>

fun validate_blocks :: "block_info list \<Rightarrow> i64 \<Rightarrow> bep_error + i64" where
  "validate_blocks [] expected_offset = Inr expected_offset"
| "validate_blocks (block # blocks) expected_offset =
     (if bi_size block \<le> 0 then Inl (PeerBadMessage ''non-positive block size'')
      else if bi_size block > MAX_BLOCK_SIZE then
        Inl (PeerBadMessage ''block size exceeds 16 MiB maximum'')
      else if length (bi_hash block) \<noteq> 32 then
        Inl (PeerBadMessage ''block hash is not 32 bytes'')
      else if bi_offset block \<noteq> expected_offset then
        Inl (PeerBadMessage ''non-contiguous block list'')
      else case i64_checked_add expected_offset (bi_size block) of
             None \<Rightarrow> Inl (PeerBadMessage ''block list size overflows i64'')
           | Some off \<Rightarrow> validate_blocks blocks off)"

definition validate_file_info :: "file_info \<Rightarrow> bep_error + unit" where
  "validate_file_info file =
     (if fi_size file < 0 then Inl (PeerBadMessage ''negative file size'')
      else rbind (validate_blocks (fi_blocks file) 0) (\<lambda>expected_offset.
        if fi_blocks file \<noteq> [] \<and> expected_offset \<noteq> fi_size file
        then Inl (PeerBadMessage ''block list does not cover the file size'')
        else Inr ()))"

definition block_ok :: "block_info \<Rightarrow> bool" where
  "block_ok b \<longleftrightarrow> 0 < bi_size b \<and> bi_size b \<le> MAX_BLOCK_SIZE \<and> length (bi_hash b) = 32"

text \<open>Blocks that follow each other from an offset.\<close>

fun contiguous :: "i64 \<Rightarrow> block_info list \<Rightarrow> bool" where
  "contiguous off [] \<longleftrightarrow> True"
| "contiguous off (b # bs) \<longleftrightarrow> bi_offset b = off \<and> contiguous (off + bi_size b) bs"

abbreviation blocks_size :: "block_info list \<Rightarrow> int" where
  "blocks_size bs \<equiv> sum_list (map bi_size bs)"

lemma blocks_size_nonneg: "\<forall>b \<in> set bs. block_ok b \<Longrightarrow> 0 \<le> blocks_size bs"
  by (rule sum_list_nonneg) (auto simp: block_ok_def)

lemma validate_blocks_iff:
  "in_i64 off \<Longrightarrow> 0 \<le> off \<Longrightarrow>
   validate_blocks bs off = Inr r \<longleftrightarrow>
     (\<forall>b \<in> set bs. block_ok b) \<and> contiguous off bs \<and> r = off + blocks_size bs \<and> r \<le> i64_max"
proof (induction bs arbitrary: off)
  case Nil
  then show ?case by (auto simp: in_i64_def)
next
  case (Cons b bs)
  show ?case
  proof (cases "block_ok b \<and> bi_offset b = off")
    case False
    then show ?thesis by (auto simp: block_ok_def)
  next
    case True
    then have step: "validate_blocks (b # bs) off =
        (case i64_checked_add off (bi_size b) of
           None \<Rightarrow> Inl (PeerBadMessage ''block list size overflows i64'')
         | Some off \<Rightarrow> validate_blocks bs off)" and pos: "0 < bi_size b"
      by (auto simp: block_ok_def)
    show ?thesis
    proof (cases "off + bi_size b \<le> i64_max")
      case fits: True
      then have "in_i64 (off + bi_size b)" using Cons.prems pos
        by (simp add: in_i64_def i64_min_def)
      with Cons.IH [of "off + bi_size b"] Cons.prems True pos show ?thesis
        by (simp add: step i64_checked_add_def add.assoc del: validate_blocks.simps)
    next
      case over: False
      then have "\<not> in_i64 (off + bi_size b)" by (simp add: in_i64_def)
      with over True show ?thesis
        using blocks_size_nonneg [of bs]
        by (auto simp: step i64_checked_add_def simp del: validate_blocks.simps)
    qed
  qed
qed

lemma validate_blocks_start:
  "validate_blocks bs 0 = Inr r \<longleftrightarrow>
     (\<forall>b \<in> set bs. block_ok b) \<and> contiguous 0 bs \<and> r = blocks_size bs \<and> r \<le> i64_max"
  using validate_blocks_iff [of 0] by (simp add: in_i64_def i64_min_def i64_max_def)

lemma validate_file_info_Ok:
  assumes "in_i64 (fi_size f)"
  shows "validate_file_info f = Inr () \<longleftrightarrow>
     0 \<le> fi_size f \<and> (\<forall>b \<in> set (fi_blocks f). block_ok b) \<and> contiguous 0 (fi_blocks f) \<and>
     (fi_blocks f = [] \<or> blocks_size (fi_blocks f) = fi_size f)"
proof (cases "validate_blocks (fi_blocks f) 0")
  case (Inl e)
  then have "\<not> ((\<forall>b \<in> set (fi_blocks f). block_ok b) \<and> contiguous 0 (fi_blocks f)
      \<and> blocks_size (fi_blocks f) \<le> i64_max)"
    using validate_blocks_start [of "fi_blocks f" "blocks_size (fi_blocks f)"] by auto
  with Inl assms show ?thesis by (auto simp: validate_file_info_def in_i64_def)
next
  case (Inr r)
  then show ?thesis
    using validate_blocks_start [of "fi_blocks f" r] by (auto simp: validate_file_info_def)
qed

text \<open>A contiguous list of non-empty blocks covers each byte of its range once.\<close>

definition covers :: "block_info \<Rightarrow> int \<Rightarrow> bool" where
  "covers b p \<longleftrightarrow> bi_offset b \<le> p \<and> p < bi_offset b + bi_size b"

lemma contiguous_above:
  "contiguous off bs \<Longrightarrow> \<forall>b \<in> set bs. block_ok b \<Longrightarrow> b \<in> set bs \<Longrightarrow> off \<le> bi_offset b"
  by (induction off bs rule: contiguous.induct) (fastforce simp: block_ok_def)+

lemma contiguous_cover:
  "contiguous off bs \<Longrightarrow> \<forall>b \<in> set bs. block_ok b \<Longrightarrow>
   off \<le> p \<and> p < off + blocks_size bs \<longleftrightarrow> (\<exists>!i. i < length bs \<and> covers (bs ! i) p)"
proof (induction off bs rule: contiguous.induct)
  case (1 off)
  then show ?case by (auto simp: Ex1_def)
next
  case (2 off b bs)
  then have b: "bi_offset b = off" "0 < bi_size b" by (auto simp: block_ok_def)
  have IH: "off + bi_size b \<le> p \<and> p < off + bi_size b + blocks_size bs
      \<longleftrightarrow> (\<exists>!i. i < length bs \<and> covers (bs ! i) p)" using 2 by simp
  have above: "off + bi_size b \<le> p" if "i < length bs" "covers (bs ! i) p" for i
    using contiguous_above [of "off + bi_size b" bs "bs ! i"] 2 that by (auto simp: covers_def)
  have total: "0 \<le> blocks_size bs" using 2 blocks_size_nonneg by simp
  have shift: "(\<exists>!i. i < length (b # bs) \<and> covers ((b # bs) ! i) p)
      \<longleftrightarrow> (\<exists>!i. i < length bs \<and> covers (bs ! i) p)" if "\<not> covers b p"
  proof -
    have "i < length (b # bs) \<and> covers ((b # bs) ! i) p
        \<longleftrightarrow> (\<exists>j. i = Suc j \<and> j < length bs \<and> covers (bs ! j) p)" for i
      using that by (cases i) auto
    then show ?thesis by auto
  qed
  show ?case
  proof (cases "covers b p")
    case True
    then have "i < length (b # bs) \<and> covers ((b # bs) ! i) p \<longleftrightarrow> i = 0" for i
      using above [of "i - 1"] b by (cases i) (auto simp: covers_def)
    moreover have "off \<le> p \<and> p < off + blocks_size (b # bs)"
      using True b total by (simp add: covers_def)
    ultimately show ?thesis by simp
  next
    case False
    then show ?thesis unfolding shift [OF False] IH [symmetric]
      using b by (auto simp: covers_def)
  qed
qed

text \<open>
  C15. A peer's file entry with blocks passes validation exactly when its size is not negative,
  every block has a size in (0, 16 MiB] and a 32-byte hash, the blocks follow each other
  from offset 0 without gap or overlap and their sizes add up to the file size; an
  entry without blocks passes exactly when its size is not negative.  In a valid entry with
  blocks, every byte of the file, and no other, is covered by exactly one block.
\<close>

theorem validate_file_info_spec:
  assumes "in_i64 (fi_size f)"
  shows "(validate_file_info f = Inr () \<longleftrightarrow>
            0 \<le> fi_size f \<and> (\<forall>b \<in> set (fi_blocks f). block_ok b) \<and> contiguous 0 (fi_blocks f) \<and>
            (fi_blocks f = [] \<or> blocks_size (fi_blocks f) = fi_size f)) \<and>
         (validate_file_info f = Inr () \<and> fi_blocks f \<noteq> [] \<longrightarrow>
            (\<forall>p. 0 \<le> p \<and> p < fi_size f \<longleftrightarrow>
               (\<exists>!i. i < length (fi_blocks f) \<and> covers (fi_blocks f ! i) p)))"
proof -
  have "\<forall>p. 0 \<le> p \<and> p < fi_size f \<longleftrightarrow>
      (\<exists>!i. i < length (fi_blocks f) \<and> covers (fi_blocks f ! i) p)"
    if "validate_file_info f = Inr ()" "fi_blocks f \<noteq> []"
  proof -
    from that validate_file_info_Ok [OF assms] have "contiguous 0 (fi_blocks f)"
      "\<forall>b \<in> set (fi_blocks f). block_ok b" "blocks_size (fi_blocks f) = fi_size f" by auto
    with contiguous_cover [of 0 "fi_blocks f"] show ?thesis by simp
  qed
  with validate_file_info_Ok [OF assms] show ?thesis by blast
qed

definition default_file_info :: file_info where
  "default_file_info =
     \<lparr>fi_name = [], fi_size = 0, fi_modified_s = 0, fi_modified_by = 0, fi_version = None,
      fi_sequence = 0, fi_blocks = [], fi_symlink_target = [], fi_blocks_hash = [],
      fi_previous_blocks_hash = [], fi_encrypted = [], fi_type = 0, fi_permissions = 0,
      fi_modified_ns = 0, fi_block_size = 0, fi_platform = None, fi_local_flags = 0,
      fi_version_hash = [], fi_inode_change_ns = 0, fi_encryption_trailer_size = 0,
      fi_deleted = False, fi_invalid = False, fi_no_permissions = False\<rparr>"

definition example_file :: file_info where
  "example_file = default_file_info\<lparr>fi_name := ''docs/a.txt'', fi_size := 200000,
     fi_blocks := [\<lparr>bi_hash = replicate 32 CHR ''x'', bi_offset = 0, bi_size = 131072\<rparr>,
                   \<lparr>bi_hash = replicate 32 CHR ''y'', bi_offset = 131072, bi_size = 68928\<rparr>]\<rparr>"

theorem validate_file_info_spec_witness:
  "validate_file_info example_file = Inr () \<and>
   (\<exists>!i. i < length (fi_blocks example_file) \<and> covers (fi_blocks example_file ! i) 150000)"
proof -
  have "in_i64 (fi_size example_file)" "validate_file_info example_file = Inr ()"
    "fi_blocks example_file \<noteq> []" "0 \<le> (150000::int) \<and> 150000 < fi_size example_file"
    by code_simp+
  with validate_file_info_spec [of example_file] show ?thesis by blast
qed

section \<open>File names\<close>

fun validate_components :: "bytes list \<Rightarrow> storage_error + unit" where
  "validate_components [] = Inr ()"
| "validate_components (c # cs) =
     (if c = [] then Inl (InvalidInput ''empty path component rejected'')
      else if c = ''..'' then Inl (InvalidInput ''path traversal rejected'')
      else validate_components cs)"

definition validate_file_name :: "bytes \<Rightarrow> storage_error + unit" where
  "validate_file_name name =
     (if name = [] then Inl (InvalidInput ''empty file name'')
      else if prefix ''/'' name then Inl (InvalidInput ''absolute file path rejected'')
      else if CHR 0x00 \<in> set name then Inl (InvalidInput ''null byte in file name'')
      else validate_components (split_char CHR ''/'' name))"

definition valid_name :: "bytes \<Rightarrow> bool" where
  "valid_name name \<longleftrightarrow> validate_file_name name = Inr ()"

lemma validate_components_iff:
  "validate_components cs = Inr () \<longleftrightarrow> [] \<notin> set cs \<and> ''..'' \<notin> set cs"
  by (induction cs) auto

lemma valid_name_iff:
  "valid_name name \<longleftrightarrow>
     CHR 0x00 \<notin> set name \<and> [] \<notin> set (split_char CHR ''/'' name) \<and>
     ''..'' \<notin> set (split_char CHR ''/'' name)"
  by (auto simp: valid_name_def validate_file_name_def validate_components_iff prefix_def)

lemma valid_name_ne [simp]: "\<not> valid_name []"
  by (simp add: valid_name_iff)

lemma valid_name_slash:
  assumes "valid_name name" and "name = a @ CHR ''/'' # b"
  shows "a \<noteq> [] \<and> b \<noteq> [] \<and> hd b \<noteq> CHR ''/'' \<and> last a \<noteq> CHR ''/''"
proof -
  have ne: "[] \<notin> set (split_char CHR ''/'' a)" "[] \<notin> set (split_char CHR ''/'' b)"
    using assms by (simp_all add: valid_name_iff split_char_append)
  then have "a \<noteq> []" "b \<noteq> []" by auto
  moreover have "hd b \<noteq> CHR ''/''" using ne(2) \<open>b \<noteq> []\<close> by (cases b) auto
  moreover have "last a \<noteq> CHR ''/''"
  proof
    assume "last a = CHR ''/''"
    then have "a = butlast a @ CHR ''/'' # []" using \<open>a \<noteq> []\<close> by (metis append_butlast_last_id)
    then have "split_char CHR ''/'' a = split_char CHR ''/'' (butlast a) @ [[]]"
      by (metis split_char_append split_char.simps(1))
    with ne(1) show False by simp
  qed
  ultimately show ?thesis by simp
qed

text \<open>Where a name leads when its components are walked from the folder's root, as the path
  from the root, \<open>None\<close> when the walk leaves the folder.\<close>

fun walk :: "bytes list \<Rightarrow> bytes list \<Rightarrow> bytes list option" where
  "walk here [] = Some here"
| "walk here (c # cs) =
     (if c = ''..'' then (if here = [] then None else walk (butlast here) cs)
      else if c = [] \<or> c = ''.'' then walk here cs
      else walk (here @ [c]) cs)"

lemma walk_inside:
  "''..'' \<notin> set cs \<Longrightarrow> walk here cs = Some (here @ filter (\<lambda>c. c \<noteq> [] \<and> c \<noteq> ''.'') cs)"
  by (induction cs arbitrary: here) auto

text \<open>
  C16. An accepted file name stays inside its folder: it is not empty, not absolute, has no NUL
  byte, no empty component and no trailing slash, and walking its components from the
  folder's root, at any depth, never leaves the place it starts from.
\<close>

theorem validate_file_name_inside:
  assumes "validate_file_name name = Inr ()"
  shows "name \<noteq> [] \<and> hd name \<noteq> CHR ''/'' \<and> last name \<noteq> CHR ''/'' \<and> CHR 0x00 \<notin> set name \<and>
         (\<forall>here. \<exists>below. walk here (split_char CHR ''/'' name) = Some (here @ below))"
proof -
  have v: "valid_name name" using assms by (simp add: valid_name_def)
  then have ne: "name \<noteq> []" by auto
  have "hd name \<noteq> CHR ''/''"
    using valid_name_slash [OF v, of "[]" "tl name"] ne by (metis append_Nil list.collapse)
  moreover have "last name \<noteq> CHR ''/''"
    using valid_name_slash [OF v, of "butlast name" "[]"] ne
    by (metis append_butlast_last_id)
  ultimately show ?thesis using v ne walk_inside by (auto simp: valid_name_iff)
qed

theorem validate_file_name_inside_witness:
  "validate_file_name ''docs/a.txt'' = Inr () \<and>
   (\<exists>below. walk [''home''] (split_char CHR ''/'' ''docs/a.txt'') = Some ([''home''] @ below)) \<and>
   validate_file_name ''docs/../../etc'' = Inl (InvalidInput ''path traversal rejected'')"
proof -
  have "validate_file_name ''docs/a.txt'' = Inr ()"
    "validate_file_name ''docs/../../etc'' = Inl (InvalidInput ''path traversal rejected'')"
    by code_simp+
  with validate_file_name_inside [of "''docs/a.txt''"] show ?thesis by blast
qed

end
