(* ===== verification/StoreKeys.thy ===== *)
theory StoreKeys
  imports Base32 Validate
begin

text \<open>
  The key layout of a folder's database: \<open>bepository-storage/src/store_keys.rs\<close>.  One
  definition per function of the file; the lemmas show that each key class is decoded by
  its parser, hence injective, that the classes are disjoint, that sequence and block-data
  keys sort as their numbers, and which keys the prefixes used for scans select.
\<close>

definition HASH_LEN :: nat where "HASH_LEN = 32"
definition DEVID_LEN :: nat where "DEVID_LEN = 32"
definition INLINE_BLOCK_THRESHOLD :: int where "INLINE_BLOCK_THRESHOLD = 4096"

definition is_inline_block :: "i32 \<Rightarrow> bool" where
  "is_inline_block sz \<longleftrightarrow> 0 \<le> sz \<and> sz < INLINE_BLOCK_THRESHOLD"

definition FILE_PREFIX :: bytes where "FILE_PREFIX = ''mn''"
definition SEQ_PREFIX :: bytes where "SEQ_PREFIX = ''ms''"
definition BLOCK_PREFIX :: bytes where "BLOCK_PREFIX = ''mb''"
definition BLOCK_REV_PREFIX :: bytes where "BLOCK_REV_PREFIX = ''mr''"
definition IX_KEY :: bytes where "IX_KEY = ''mx''"
definition DEVICE_PREFIX :: bytes where "DEVICE_PREFIX = ''md''"
definition INBOX_PREFIX :: bytes where "INBOX_PREFIX = ''mi''"
definition BLOCK_DATA_PREFIX :: bytes where "BLOCK_DATA_PREFIX = ''bd''"
definition BLOCK_SEGMENT_PREFIX :: bytes where "BLOCK_SEGMENT_PREFIX = ''b''"
definition METADATA_SEGMENT_PREFIX :: bytes where "METADATA_SEGMENT_PREFIX = ''m''"

lemmas tag_defs = FILE_PREFIX_def SEQ_PREFIX_def BLOCK_PREFIX_def BLOCK_REV_PREFIX_def
  IX_KEY_def DEVICE_PREFIX_def INBOX_PREFIX_def BLOCK_DATA_PREFIX_def

section \<open>Names\<close>

definition split_name :: "bytes \<Rightarrow> bytes \<times> bytes" where
  "split_name name = (case rsplit_once ''/'' name of Some p \<Rightarrow> p | None \<Rightarrow> ([], name))"

definition dirname :: "bytes \<Rightarrow> bytes" where
  "dirname name = fst (split_name name)"

definition join_name :: "bytes \<Rightarrow> bytes \<Rightarrow> bytes" where
  "join_name dir basename = (if dir = [] then basename else dir @ ''/'' @ basename)"

section \<open>Keys\<close>

definition file_key :: "bytes \<Rightarrow> bytes" where
  "file_key name = (case split_name name of (dir, basename) \<Rightarrow>
     FILE_PREFIX @ dir @ ''//'' @ basename)"

definition parse_file_key :: "bytes \<Rightarrow> bytes option" where
  "parse_file_key key =
     Option.bind (strip_prefix FILE_PREFIX key) (\<lambda>rest.
     Option.bind (from_utf8 rest) (\<lambda>s.
     Option.bind (rsplit_once ''//'' s) (\<lambda>(dir, basename).
       Some (join_name dir basename))))"

text \<open>\<open>u64::to_be_bytes\<close> and \<open>u64::from_be_bytes\<close>.\<close>

definition to_be_bytes :: "u64 \<Rightarrow> bytes" where
  "to_be_bytes v = map char_of (be_digits 256 8 (unat v))"

definition from_be_bytes :: "bytes \<Rightarrow> u64" where
  "from_be_bytes bs = of_nat (be_value 256 (map byte bs))"

definition SEQ_KEY_LEN :: nat where "SEQ_KEY_LEN = 10"

definition seq_key :: "i64 \<Rightarrow> storage_error + bytes" where
  "seq_key seq =
     (if seq < 0 then Inl (Internal ''sequence numbers must be non-negative'')
      else Inr (''ms'' @ to_be_bytes (word_of_int seq)))"

definition parse_seq_key :: "bytes \<Rightarrow> u64 option" where
  "parse_seq_key key =
     (if length key \<noteq> SEQ_KEY_LEN \<or> \<not> prefix SEQ_PREFIX key then None
      else Some (from_be_bytes (take 8 (drop 2 key))))"

definition SEQ_SCAN_END :: bytes where "SEQ_SCAN_END = ''mt''"

definition seq_scan_start :: "i64 \<Rightarrow> storage_error + bytes" where
  "seq_scan_start since =
     (case i64_checked_add since 1 of
        None \<Rightarrow> Inl (Internal ''sequence number overflow scanning past'')
      | Some next \<Rightarrow> seq_key next)"

definition block_pointer_key :: "bytes \<Rightarrow> bytes \<Rightarrow> bytes" where
  "block_pointer_key dir hash = BLOCK_PREFIX @ dir @ ''/'' @ hash"

definition BLOCK_DATA_KEY_LEN :: nat where "BLOCK_DATA_KEY_LEN = 10"

definition block_data_seq_key :: "u64 \<Rightarrow> bytes" where
  "block_data_seq_key seq = ''bd'' @ to_be_bytes seq"

definition MIN_BLOCK_SEQ :: u64 where "MIN_BLOCK_SEQ = 1024"

definition validate_block_seq :: "u64 \<Rightarrow> storage_error + unit" where
  "validate_block_seq seq =
     (if seq < MIN_BLOCK_SEQ then Inl (Corruption ''invalid block sequence number'') else Inr ())"

definition parse_block_data_seq_key :: "bytes \<Rightarrow> u64 option" where
  "parse_block_data_seq_key key =
     (if length key \<noteq> BLOCK_DATA_KEY_LEN \<or> \<not> prefix BLOCK_DATA_PREFIX key then None
      else let seq = from_be_bytes (take 8 (drop 2 key))
           in if seq < MIN_BLOCK_SEQ then None else Some seq)"

definition BR_FILTER_PREFIX_LEN :: nat where
  "BR_FILTER_PREFIX_LEN = length BLOCK_REV_PREFIX + HASH_LEN"

definition br_prefix_len :: "bytes \<Rightarrow> nat option" where
  "br_prefix_len bs =
     (if length bs \<ge> BR_FILTER_PREFIX_LEN \<and> prefix BLOCK_REV_PREFIX bs
      then Some BR_FILTER_PREFIX_LEN else None)"

definition segment_prefix_len :: "bytes \<Rightarrow> nat option" where
  "segment_prefix_len bs =
     (case bs of c # _ \<Rightarrow> (if c = CHR ''b'' \<or> c = CHR ''m'' then Some 1 else None) | [] \<Rightarrow> None)"

definition block_reverse_key :: "bytes \<Rightarrow> bytes \<Rightarrow> bytes" where
  "block_reverse_key hash name = (case split_name name of (dir, basename) \<Rightarrow>
     BLOCK_REV_PREFIX @ hash @ ''/'' @ dir @ ''//'' @ basename)"

definition block_reverse_prefix :: "bytes \<Rightarrow> bytes" where
  "block_reverse_prefix hash = BLOCK_REV_PREFIX @ hash @ ''/''"

definition parse_block_reverse_key :: "bytes \<Rightarrow> (bytes \<times> bytes) option" where
  "parse_block_reverse_key key =
     Option.bind (strip_prefix BLOCK_REV_PREFIX key) (\<lambda>rest.
       if length rest < HASH_LEN + 1 then None
       else if rest ! HASH_LEN \<noteq> CHR ''/'' then None
       else Option.bind (from_utf8 (drop (HASH_LEN + 1) rest)) (\<lambda>s.
            Option.bind (rsplit_once ''//'' s) (\<lambda>(dir, basename).
              Some (take HASH_LEN rest, join_name dir basename))))"

definition EPOCH_BASE32_LEN :: nat where "EPOCH_BASE32_LEN = 8"

definition inbox_key :: "epoch \<Rightarrow> bytes \<Rightarrow> bytes" where
  "inbox_key epoch name = (case split_name name of (dir, basename) \<Rightarrow>
     INBOX_PREFIX @ as_base32 epoch @ ''/'' @ dir @ ''//'' @ basename)"

definition parse_inbox_key :: "bytes \<Rightarrow> (epoch \<times> bytes) option" where
  "parse_inbox_key key =
     Option.bind (strip_prefix INBOX_PREFIX key) (\<lambda>rest.
       if length rest < EPOCH_BASE32_LEN + 1 then None
       else Option.bind (from_utf8 (take EPOCH_BASE32_LEN rest)) (\<lambda>epoch_str.
            Option.bind (parse_epoch epoch_str) (\<lambda>epoch.
              if rest ! EPOCH_BASE32_LEN \<noteq> CHR ''/'' then None
              else Option.bind (from_utf8 (drop (EPOCH_BASE32_LEN + 1) rest)) (\<lambda>s.
                   Option.bind (rsplit_once ''//'' s) (\<lambda>(dir, basename).
                     Some (epoch, join_name dir basename))))))"

definition DEVICE_KEY_LEN :: nat where "DEVICE_KEY_LEN = 34"

definition device_key :: "bytes \<Rightarrow> bytes" where
  "device_key devid = ''md'' @ devid"

definition parse_block_pointer_key :: "bytes \<Rightarrow> bytes option" where
  "parse_block_pointer_key key =
     (if length key < length BLOCK_PREFIX + 1 + HASH_LEN \<or> \<not> prefix BLOCK_PREFIX key then None
      else if key ! (length key - HASH_LEN - 1) \<noteq> CHR ''/'' then None
      else Some (drop (length key - HASH_LEN) key))"

definition file_key_dir :: "bytes \<Rightarrow> bytes option" where
  "file_key_dir key =
     Option.bind (strip_prefix FILE_PREFIX key) (\<lambda>rest.
     Option.bind (from_utf8 rest) (\<lambda>s.
     Option.bind (rsplit_once ''//'' s) (\<lambda>(dir, _). Some dir)))"

definition block_key_dir :: "bytes \<Rightarrow> bytes option" where
  "block_key_dir key =
     (if \<not> prefix BLOCK_PREFIX key then None
      else let suffix_len = 1 + HASH_LEN; prefix_len = length BLOCK_PREFIX
           in if length key < prefix_len + suffix_len then None
              else from_utf8 (take (length key - suffix_len - prefix_len) (drop prefix_len key)))"

section \<open>Splitting and joining names\<close>

text \<open>The names the store works with: accepted by the check, and text.\<close>

definition good_name :: "bytes \<Rightarrow> bool" where
  "good_name name \<longleftrightarrow> valid_name name \<and> utf8_valid name"

lemma slash_ascii: "byte CHR ''/'' < 0x80"
  by (simp add: byte_def)

lemma split_name_cases:
  obtains (root) "CHR ''/'' \<notin> set name" "split_name name = ([], name)"
  | (nested) dir base where "name = dir @ ''/'' @ base" "CHR ''/'' \<notin> set base"
      "split_name name = (dir, base)"
proof (cases "CHR ''/'' \<in> set name")
  case True
  then obtain dir base where n: "name = dir @ CHR ''/'' # base" "CHR ''/'' \<notin> set base"
    using split_list_last by metis
  have "rsplit_once ''/'' (dir @ ''/'' @ base) = Some (dir, base)"
    by (rule rsplit_once_last [of _ "CHR ''/''" "[]"]) (use n in auto)
  with n nested show ?thesis by (simp add: split_name_def)
next
  case False
  then have "rsplit_once ''/'' name = None" by (auto simp: rsplit_once_None)
  with False root show ?thesis by (simp add: split_name_def)
qed

lemma good_name_hd: "good_name name \<Longrightarrow> hd name \<noteq> CHR ''/''"
  using valid_name_slash [of name "[]" "tl name"]
  by (cases name) (auto simp: good_name_def)

lemma split_name_good:
  assumes g: "good_name name" and s: "split_name name = (dir, base)"
  shows "join_name dir base = name \<and> CHR ''/'' \<notin> set base \<and> base \<noteq> [] \<and>
    (dir = [] \<or> hd dir \<noteq> CHR ''/'') \<and> utf8_valid dir \<and> utf8_valid base"
proof -
  have v: "valid_name name" and u: "utf8_valid name" using g by (auto simp: good_name_def)
  show ?thesis
  proof (cases name rule: split_name_cases)
    case root
    with s v u show ?thesis by (auto simp: join_name_def utf8_valid_def)
  next
    case (nested d b)
    then have e: "name = d @ CHR ''/'' # b" and [simp]: "dir = d" "base = b" using s by auto
    have "d \<noteq> []" "b \<noteq> []" using valid_name_slash [OF v e] by auto
    moreover have "hd d \<noteq> CHR ''/''" using good_name_hd [OF g] e \<open>d \<noteq> []\<close> by simp
    moreover have "utf8_valid d" "utf8_valid b"
      using u e utf8_valid_cut [OF slash_ascii] by auto
    ultimately show ?thesis using nested by (simp add: join_name_def)
  qed
qed

lemma rsplit_dslash:
  "CHR ''/'' \<notin> set base \<Longrightarrow> rsplit_once ''//'' (dir @ ''//'' @ base) = Some (dir, base)"
  by (rule rsplit_once_last [of _ "CHR ''/''" "''/''"])
    (auto simp: Cons_eq_append_conv append_eq_Cons_conv)

lemma utf8_dslash: "utf8_valid dir \<Longrightarrow> utf8_valid base \<Longrightarrow> utf8_valid (dir @ ''//'' @ base)"
  using utf8_valid_cut [OF slash_ascii, of dir "''/'' @ base"]
    utf8_valid_cut [OF slash_ascii, of "[]" base] by (simp add: utf8_valid_def)

text \<open>The common tail of the file, inbox and reverse-reference keys.\<close>

definition name_tail :: "bytes \<Rightarrow> bytes" where
  "name_tail name = (case split_name name of (dir, base) \<Rightarrow> dir @ ''//'' @ base)"

definition parse_tail :: "bytes \<Rightarrow> bytes option" where
  "parse_tail t =
     Option.bind (from_utf8 t) (\<lambda>s.
     Option.bind (rsplit_once ''//'' s) (\<lambda>(dir, base). Some (join_name dir base)))"

lemma parse_tail_name: "good_name name \<Longrightarrow> parse_tail (name_tail name) = Some name"
  using split_name_good [of name]
  by (cases "split_name name") (simp add: parse_tail_def name_tail_def from_utf8_def
      utf8_dslash rsplit_dslash del: append.simps)

lemma keys_by_tail:
  "file_key name = FILE_PREFIX @ name_tail name"
  "block_reverse_key hash name = BLOCK_REV_PREFIX @ hash @ ''/'' @ name_tail name"
  "inbox_key epoch name = INBOX_PREFIX @ as_base32 epoch @ ''/'' @ name_tail name"
  by (simp_all add: file_key_def block_reverse_key_def inbox_key_def name_tail_def split: prod.splits)

section \<open>Each parser inverts its encoder\<close>

lemma parse_file_key_tail:
  "parse_file_key key = Option.bind (strip_prefix FILE_PREFIX key) parse_tail"
  by (simp add: parse_file_key_def parse_tail_def [abs_def])

lemma parse_file_key_enc: "good_name name \<Longrightarrow> parse_file_key (file_key name) = Some name"
  by (simp add: parse_file_key_tail keys_by_tail parse_tail_name)

interpretation file_keys: codec file_key parse_file_key good_name
  by unfold_locales (rule parse_file_key_enc)

lemma parse_block_reverse_key_enc:
  assumes "good_name name" and "length hash = HASH_LEN"
  shows "parse_block_reverse_key (block_reverse_key hash name) = Some (hash, name)"
proof -
  have "Option.bind (from_utf8 (name_tail name)) (\<lambda>s.
      Option.bind (rsplit_once ''//'' s) (\<lambda>(dir, base). Some (hash, join_name dir base)))
      = map_option (Pair hash) (parse_tail (name_tail name))"
    by (simp add: parse_tail_def split_def split: bind_splits)
  then show ?thesis
    using assms parse_tail_name [of name]
    by (simp add: parse_block_reverse_key_def keys_by_tail nth_append)
qed

interpretation reverse_keys: codec "\<lambda>(hash, name). block_reverse_key hash name"
  parse_block_reverse_key "\<lambda>(hash, name). length hash = HASH_LEN \<and> good_name name"
  by unfold_locales (auto simp: parse_block_reverse_key_enc)

lemma epoch_text_ascii: "wf_epoch e \<Longrightarrow> utf8_valid (as_base32 e)"
proof (rule utf8_ascii, rule ballI)
  fix c assume "wf_epoch e" "c \<in> set (as_base32 e)"
  then have "c \<in> set ALPHABET" using wf_epoch_base32(2) by (auto simp: as_base32_def)
  then show "byte c < 0x80" by (auto simp: ALPHABET_def byte_def)
qed

lemma parse_inbox_key_enc:
  assumes "wf_epoch e" and "good_name name"
  shows "parse_inbox_key (inbox_key e name) = Some (e, name)"
proof -
  have "Option.bind (from_utf8 (name_tail name)) (\<lambda>s.
      Option.bind (rsplit_once ''//'' s) (\<lambda>(dir, base). Some (e, join_name dir base)))
      = map_option (Pair e) (parse_tail (name_tail name))"
    by (simp add: parse_tail_def split_def split: bind_splits)
  moreover have "length (as_base32 e) = EPOCH_BASE32_LEN"
    using wf_epoch_base32(1) assms by (simp add: as_base32_def EPOCH_BASE32_LEN_def)
  moreover have "from_utf8 (as_base32 e) = Some (as_base32 e)"
    using epoch_text_ascii assms by (simp add: from_utf8_def)
  ultimately show ?thesis
    using assms parse_tail_name [of name] epoch_text.dec_enc [of e]
    by (simp add: parse_inbox_key_def keys_by_tail nth_append)
qed

interpretation inbox_keys: codec "\<lambda>(e, name). inbox_key e name"
  parse_inbox_key "\<lambda>(e, name). wf_epoch e \<and> good_name name"
  by unfold_locales (auto simp: parse_inbox_key_enc)

section \<open>Numbers in keys\<close>

lemma length_to_be_bytes [simp]: "length (to_be_bytes v) = 8"
  by (simp add: to_be_bytes_def)

lemma byte_char_of: "n < 256 \<Longrightarrow> byte (char_of n) = n"
  by (simp add: byte_def)

lemma map_byte_char_of: "\<forall>d \<in> set ds. d < 256 \<Longrightarrow> map byte (map char_of ds) = ds"
  by (induction ds) (auto simp: byte_char_of)

lemma unat_lt_256_8: "unat (v :: u64) < 256 ^ 8"
  using unsigned_less [of v] by simp

lemma from_to_be_bytes [simp]: "from_be_bytes (to_be_bytes v) = v"
proof -
  have "map byte (to_be_bytes v) = be_digits 256 8 (unat v)"
    unfolding to_be_bytes_def by (rule map_byte_char_of) (auto intro: be_digits_bound)
  then show ?thesis
    unfolding from_be_bytes_def using unat_lt_256_8 [of v] by (simp only: be_value_digits) simp
qed

lemma to_from_be_bytes:
  assumes "length bs = 8"
  shows "to_be_bytes (from_be_bytes bs) = bs"
proof -
  have b: "\<forall>d \<in> set (map byte bs). d < 256"
    by (auto simp: byte_def)
  then have "be_value 256 (map byte bs) < 256 ^ 8"
    using be_value_bound [OF b] assms by simp
  then have "unat (of_nat (be_value 256 (map byte bs)) :: u64) = be_value 256 (map byte bs)"
    by (simp add: unat_of_nat)
  moreover have "be_digits 256 8 (be_value 256 (map byte bs)) = map byte bs"
    using be_digits_value [OF b] assms by simp
  ultimately show ?thesis
    by (simp add: to_be_bytes_def from_be_bytes_def byte_def map_idI)
qed

lemma map_char_of_less:
  "length ds = length es \<Longrightarrow> \<forall>d \<in> set ds \<union> set es. d < (256::nat) \<Longrightarrow> ds < es \<Longrightarrow>
   map char_of ds < (map char_of es :: bytes)"
  by (induction ds es rule: list_induct2) (auto simp: less_char_def)

lemma to_be_bytes_mono: "v < w \<Longrightarrow> to_be_bytes v < to_be_bytes w"
  unfolding to_be_bytes_def
proof (rule map_char_of_less)
  assume "v < w"
  then show "be_digits 256 8 (unat v) < be_digits 256 8 (unat w)"
    using unat_lt_256_8 [of v] unat_lt_256_8 [of w]
    by (intro be_digits_less) (simp_all only: mod_less word_less_nat_alt)
qed (auto intro: be_digits_bound)

lemma seq_tag_codec: "parse_seq_key (''ms'' @ to_be_bytes v) = Some v"
  by (simp add: parse_seq_key_def SEQ_KEY_LEN_def SEQ_PREFIX_def)

interpretation seq_keys: ordered_codec "\<lambda>v. ''ms'' @ to_be_bytes v" parse_seq_key "\<lambda>_. True"
  by unfold_locales (simp_all only: seq_tag_codec list_less_prepend to_be_bytes_mono)

interpretation data_keys: ordered_codec block_data_seq_key parse_block_data_seq_key
  "\<lambda>v. MIN_BLOCK_SEQ \<le> v"
  by unfold_locales
    (auto simp: block_data_seq_key_def parse_block_data_seq_key_def BLOCK_DATA_KEY_LEN_def
      BLOCK_DATA_PREFIX_def to_be_bytes_mono)

lemma word_of_int_less_iff:
  "0 \<le> s \<Longrightarrow> s \<le> i64_max \<Longrightarrow> 0 \<le> t \<Longrightarrow> t \<le> i64_max \<Longrightarrow>
   (word_of_int s :: u64) < word_of_int t \<longleftrightarrow> s < t"
  by (simp add: word_less_def uint_word_of_int i64_max_def mod_pos_pos_trivial)

lemma seq_key_order:
  assumes "0 \<le> s" "s \<le> i64_max" "0 \<le> t" "t \<le> i64_max"
  shows "projr (seq_key s) < projr (seq_key t) \<longleftrightarrow> s < t"
  using assms seq_keys.enc_less_iff [of "word_of_int s" "word_of_int t"]
  by (simp add: seq_key_def word_of_int_less_iff)

lemma parse_seq_key_enc:
  "seq_key s = Inr k \<Longrightarrow> s \<le> i64_max \<Longrightarrow> parse_seq_key k = Some (word_of_int s) \<and>
   uint (word_of_int s :: u64) = s"
  by (auto simp: seq_key_def seq_tag_codec uint_word_of_int i64_max_def mod_pos_pos_trivial
      split: if_splits simp del: append.simps)

text \<open>The half-open range scanned for the sequences after \<open>since\<close>.\<close>

lemma seq_scan_range:
  assumes "seq_scan_start since = Inr start" and "0 \<le> s" "s \<le> i64_max" and "seq_key s = Inr k"
  shows "start \<le> k \<and> k < SEQ_SCAN_END \<longleftrightarrow> since < s"
proof -
  have st: "in_i64 (since + 1)" "seq_key (since + 1) = Inr start"
    using assms(1) by (auto simp: seq_scan_start_def i64_checked_add_def split: if_splits)
  then have "0 \<le> since + 1" by (auto simp: seq_key_def split: if_splits)
  moreover have "since + 1 \<le> i64_max" using st by (simp add: in_i64_def)
  ultimately have "k < start \<longleftrightarrow> s < since + 1"
    using seq_key_order [of s "since + 1"] assms st(2) by simp
  moreover have "k < SEQ_SCAN_END"
    using assms(4) by (auto simp: seq_key_def SEQ_SCAN_END_def less_char_def split: if_splits)
  ultimately show ?thesis by auto
qed

section \<open>Block pointers\<close>

lemma parse_block_pointer_key_enc:
  "length hash = HASH_LEN \<Longrightarrow> parse_block_pointer_key (block_pointer_key dir hash) = Some hash"
  by (simp add: parse_block_pointer_key_def block_pointer_key_def BLOCK_PREFIX_def nth_append
      numeral_3_eq_3)

lemma block_key_dir_enc:
  "length hash = HASH_LEN \<Longrightarrow> utf8_valid dir \<Longrightarrow>
   block_key_dir (block_pointer_key dir hash) = Some dir"
  by (simp add: block_key_dir_def block_pointer_key_def BLOCK_PREFIX_def from_utf8_def)

definition parse_pointer :: "bytes \<Rightarrow> (bytes \<times> bytes) option" where
  "parse_pointer k = Option.bind (block_key_dir k) (\<lambda>d.
     Option.bind (parse_block_pointer_key k) (\<lambda>h. Some (d, h)))"

interpretation pointer_keys: codec "\<lambda>(dir, hash). block_pointer_key dir hash"
  parse_pointer "\<lambda>(dir, hash). utf8_valid dir \<and> length hash = HASH_LEN"
  by unfold_locales (auto simp: parse_pointer_def parse_block_pointer_key_enc block_key_dir_enc)

section \<open>Key classes and scans\<close>

lemma key_tags:
  "take 2 (file_key n) = FILE_PREFIX" "take 2 (block_pointer_key d h) = BLOCK_PREFIX"
  "take 2 (block_reverse_key h n) = BLOCK_REV_PREFIX" "take 2 (inbox_key e n) = INBOX_PREFIX"
  "take 2 (device_key v) = DEVICE_PREFIX" "take 2 IX_KEY = IX_KEY"
  "take 2 (block_data_seq_key q) = BLOCK_DATA_PREFIX"
  "seq_key s = Inr k \<Longrightarrow> take 2 k = SEQ_PREFIX"
  by (auto simp: keys_by_tail block_pointer_key_def device_key_def block_data_seq_key_def
      seq_key_def tag_defs split: if_splits)

lemma tags_distinct:
  "distinct [FILE_PREFIX, SEQ_PREFIX, BLOCK_PREFIX, BLOCK_REV_PREFIX, IX_KEY, DEVICE_PREFIX,
     INBOX_PREFIX, BLOCK_DATA_PREFIX]"
  by (simp add: tag_defs)

lemma prefix_two: "length p = 2 \<Longrightarrow> prefix p k \<longleftrightarrow> take 2 k = p"
  by (metis append_eq_conv_conj append_take_drop_id prefix_def)

lemma reverse_prefix_iff:
  "length h = HASH_LEN \<Longrightarrow> length h' = HASH_LEN \<Longrightarrow>
   prefix (block_reverse_prefix h) (block_reverse_key h' n) \<longleftrightarrow> h = h'"
  by (auto simp: block_reverse_prefix_def keys_by_tail prefix_def append_eq_append_conv)

lemma inbox_scan_prefix:
  assumes "wf_epoch e" "wf_epoch e'" "good_name name"
  shows "prefix (inbox_key e []) (inbox_key e' name) \<longleftrightarrow> e = e' \<and> dirname name = []"
proof -
  obtain dir base where s: "split_name name = (dir, base)" by fastforce
  have len: "length (as_base32 e) = length (as_base32 e')"
    using assms wf_epoch_base32(1) by (simp add: as_base32_def)
  have empty: "name_tail [] = ''//''" by (simp add: name_tail_def split_name_def)
  have "prefix (inbox_key e []) (inbox_key e' name)
      \<longleftrightarrow> as_base32 e = as_base32 e' \<and> prefix ''//'' (dir @ ''//'' @ base)"
    using len by (auto simp: keys_by_tail empty name_tail_def [of name] s prefix_def)
  also have "prefix ''//'' (dir @ ''//'' @ base) \<longleftrightarrow> dir = []"
    using split_name_good [OF assms(3) s] by (cases dir) auto
  also have "as_base32 e = as_base32 e' \<longleftrightarrow> e = e'"
    using epoch_text.enc_eq_iff assms by blast
  finally show ?thesis by (simp add: dirname_def s)
qed

section \<open>Properties\<close>

text \<open>
  C10. Every key class is decoded by its parser: for accepted names, 32-byte hashes, valid
  epochs and block sequences, \<open>parse_file_key\<close>, \<open>parse_seq_key\<close>, \<open>parse_block_pointer_key\<close>
  with \<open>block_key_dir\<close>, \<open>parse_block_data_seq_key\<close>, \<open>parse_block_reverse_key\<close> and
  \<open>parse_inbox_key\<close> return what the key was built from, and \<open>file_key_dir\<close> the directory.
\<close>

theorem key_round_trips:
  assumes "good_name name" and "length hash = HASH_LEN" and "epoch_new v = Inr e"
    and "MIN_BLOCK_SEQ \<le> bseq" and "0 \<le> s" and "s \<le> i64_max"
  shows "parse_file_key (file_key name) = Some name \<and>
         file_key_dir (file_key name) = Some (dirname name) \<and>
         map_option uint (Option.bind (case seq_key s of Inr k \<Rightarrow> Some k | Inl _ \<Rightarrow> None) parse_seq_key)
           = Some s \<and>
         parse_block_pointer_key (block_pointer_key (dirname name) hash) = Some hash \<and>
         block_key_dir (block_pointer_key (dirname name) hash) = Some (dirname name) \<and>
         parse_block_data_seq_key (block_data_seq_key bseq) = Some bseq \<and>
         parse_block_reverse_key (block_reverse_key hash name) = Some (hash, name) \<and>
         parse_inbox_key (inbox_key e name) = Some (e, name)"
proof -
  obtain dir base where sp: "split_name name = (dir, base)" by fastforce
  note g = split_name_good [OF assms(1) sp]
  have "file_key_dir (file_key name) = Some dir"
    using g utf8_dslash [of dir base] rsplit_dslash [of base dir]
    by (simp add: file_key_dir_def keys_by_tail name_tail_def sp from_utf8_def)
  moreover have "wf_epoch e" using assms(3) by (simp add: epoch_new_Inr)
  moreover have "map_option uint
      (Option.bind (case seq_key s of Inr k \<Rightarrow> Some k | Inl _ \<Rightarrow> None) parse_seq_key) = Some s"
    using parse_seq_key_enc [of s] assms by (auto simp: seq_key_def)
  ultimately show ?thesis
    using assms g by (simp add: parse_file_key_enc parse_block_pointer_key_enc block_key_dir_enc
        data_keys.dec_enc parse_block_reverse_key_enc parse_inbox_key_enc dirname_def sp)
qed

theorem key_round_trips_witness:
  "parse_inbox_key (inbox_key \<lparr>epoch_val = 9, epoch_base32 = ''00000009''\<rparr> ''docs/a.txt'')
     = Some (\<lparr>epoch_val = 9, epoch_base32 = ''00000009''\<rparr>, ''docs/a.txt'') \<and>
   parse_file_key (file_key ''docs/a.txt'') = Some ''docs/a.txt''"
proof -
  have "epoch_new 9 = Inr \<lparr>epoch_val = 9, epoch_base32 = ''00000009''\<rparr>"
    "good_name ''docs/a.txt''" "length (replicate 32 CHR ''h'') = HASH_LEN"
    "MIN_BLOCK_SEQ \<le> 1024" "0 \<le> (7::int)" "7 \<le> i64_max"
    by code_simp+
  from key_round_trips [OF this(2,3,1,4-6)] show ?thesis by simp
qed

text \<open>
  The range \<open>files_since\<close> scans selects exactly the sequence keys after \<open>since\<close>: the start
  key exists for every sequence from -1 up to the largest but one, and a sequence key lies
  between it and the end marker exactly when its number is greater than \<open>since\<close>.
\<close>

lemma seq_scan_exact:
  assumes "-1 \<le> since" and "since < i64_max" and "0 \<le> s" and "s \<le> i64_max"
  shows "\<exists>start k. seq_scan_start since = Inr start \<and> seq_key s = Inr k \<and>
           (start \<le> k \<and> k < SEQ_SCAN_END \<longleftrightarrow> since < s)"
proof -
  have "in_i64 (since + 1)" using assms by (simp add: in_i64_def i64_min_def)
  then obtain start where "seq_scan_start since = Inr start"
    using assms by (auto simp: seq_scan_start_def i64_checked_add_def seq_key_def)
  moreover obtain k where "seq_key s = Inr k" using assms by (simp add: seq_key_def)
  ultimately show ?thesis using seq_scan_range assms by blast
qed

text \<open>
  The key classes never collide: each key carries the two-byte tag of its class, and the
  eight tags are different, so a write to one class never touches another; the segment
  extractor sends exactly the block-data class to the block segment.
\<close>

lemma key_classes_disjoint:
  "map (take 2) [file_key n, block_pointer_key d h, block_reverse_key h n, IX_KEY, device_key v,
     inbox_key e n, block_data_seq_key q]
     = [FILE_PREFIX, BLOCK_PREFIX, BLOCK_REV_PREFIX, IX_KEY, DEVICE_PREFIX, INBOX_PREFIX,
        BLOCK_DATA_PREFIX] \<and>
   (case seq_key s of Inr k \<Rightarrow> take 2 k = SEQ_PREFIX | Inl _ \<Rightarrow> s < 0) \<and>
   distinct [FILE_PREFIX, SEQ_PREFIX, BLOCK_PREFIX, BLOCK_REV_PREFIX, IX_KEY, DEVICE_PREFIX,
     INBOX_PREFIX, BLOCK_DATA_PREFIX] \<and>
   map (\<lambda>k. (segment_prefix_len k, take 1 k = BLOCK_SEGMENT_PREFIX))
     [file_key n, block_pointer_key d h, block_reverse_key h n, IX_KEY, device_key v,
      inbox_key e n, block_data_seq_key q]
     = replicate 6 (Some 1, False) @ [(Some 1, True)]"
proof -
  have "case seq_key s of Inr k \<Rightarrow> take 2 k = SEQ_PREFIX | Inl _ \<Rightarrow> s < 0"
    by (simp add: seq_key_def SEQ_PREFIX_def)
  moreover have "map (\<lambda>k. (segment_prefix_len k, take 1 k = BLOCK_SEGMENT_PREFIX))
     [file_key n, block_pointer_key d h, block_reverse_key h n, IX_KEY, device_key v,
      inbox_key e n, block_data_seq_key q]
     = replicate 6 (Some 1, False) @ [(Some 1, True)]"
    by (simp add: keys_by_tail block_pointer_key_def device_key_def block_data_seq_key_def tag_defs
        segment_prefix_len_def BLOCK_SEGMENT_PREFIX_def numeral_nat)
  ultimately show ?thesis using tags_distinct by (simp add: key_tags)
qed

text \<open>
  C11. The prefix the compaction filter scans for the staged files of the current epoch,
  \<open>inbox_key(epoch, "")\<close>, selects the staged files of the folder's root directory only: the
  key of a staged file has that prefix exactly when it is of that epoch and its directory is
  empty, so the staged files of every subdirectory are missed.
\<close>

theorem inbox_prefix_root_only:
  assumes "epoch_new v = Inr e" and "epoch_new v' = Inr e'" and "good_name name"
  shows "prefix (inbox_key e []) (inbox_key e' name) \<longleftrightarrow> e = e' \<and> dirname name = []"
  using assms inbox_scan_prefix by (simp add: epoch_new_Inr)

theorem inbox_prefix_root_only_witness:
  "\<not> prefix (inbox_key \<lparr>epoch_val = 9, epoch_base32 = ''00000009''\<rparr> [])
       (inbox_key \<lparr>epoch_val = 9, epoch_base32 = ''00000009''\<rparr> ''docs/a.txt'')"
proof -
  have "epoch_new 9 = Inr \<lparr>epoch_val = 9, epoch_base32 = ''00000009''\<rparr>"
    "good_name ''docs/a.txt''" "dirname ''docs/a.txt'' \<noteq> []"
    by code_simp+
  with inbox_prefix_root_only [OF this(1) this(1) this(2)] show ?thesis by simp
qed

end
