(* ===== verification/SlateDb.thy ===== *)
theory SlateDb
  imports StoreKeys "HOL-Library.RBT"
begin

text \<open>
  The third-party code the store relies on, as parameters: the embedded database SlateDB
  (\<open>slate\<close>), the \<open>prost\<close> encodings of the stored messages and the \<open>fastbloom\<close> filters
  (\<open>lib\<close>).  What the code relies on is stated by \<open>slate_laws\<close>, \<open>codec_laws\<close> and
  \<open>bloom_laws\<close>.

  The theory also fixes the reference semantics: a database that is a finite map and never
  fails (\<open>map_slate\<close>).  \<open>sim\<close> relates a program run on any lawful database to the same
  program run on the map: either both give the same result and the same contents, or the
  former stopped with a database error, and then its contents satisfy a given invariant.
  \<open>rbt_slate\<close> is a lawful database that computes.
\<close>

section \<open>Errors\<close>

text \<open>The error kinds the code tells apart.\<close>

datatype slate_error = SlateFenced | SlateData | SlateInvalid | SlateOther

fun slate_err :: "slate_error \<Rightarrow> storage_error" where
  "slate_err SlateFenced = Standby ''slatedb fenced''"
| "slate_err SlateData = Corruption ''slatedb data error''"
| "slate_err SlateInvalid = InvalidInput ''slatedb invalid''"
| "slate_err SlateOther = TransientIo ''slatedb''"

definition io_err :: "storage_error \<Rightarrow> bool" where
  "io_err e \<longleftrightarrow> e \<in> range slate_err"

lemma io_err_slate_err [simp]: "io_err (slate_err e)"
  by (simp add: io_err_def)

lemma io_err_iff:
  "io_err e \<longleftrightarrow> e \<in> {Standby ''slatedb fenced'', Corruption ''slatedb data error'',
     InvalidInput ''slatedb invalid'', TransientIo ''slatedb''}"
proof
  assume "io_err e"
  then obtain x where "e = slate_err x" by (auto simp: io_err_def)
  then show "e \<in> {Standby ''slatedb fenced'', Corruption ''slatedb data error'',
     InvalidInput ''slatedb invalid'', TransientIo ''slatedb''}" by (cases x) auto
next
  assume "e \<in> {Standby ''slatedb fenced'', Corruption ''slatedb data error'',
     InvalidInput ''slatedb invalid'', TransientIo ''slatedb''}"
  then show "io_err e" unfolding io_err_def image_def
    by (auto intro: slate_err.simps [symmetric])
qed

section \<open>The database interface\<close>

datatype 'v batch_op = BPut bytes 'v | BDelete bytes

type_synonym 'v batch = "'v batch_op list"

text \<open>An iterator: the entries it yields, then the error it ends with, if any.\<close>

type_synonym 'v iter = "(bytes \<times> 'v) list \<times> slate_error option"

record ('d, 'v) slate =
  db_get :: "bytes \<Rightarrow> ('d, slate_error, 'v option) op"
  db_write :: "'v batch \<Rightarrow> ('d, slate_error, unit) op"
  db_scan_prefix :: "bytes \<Rightarrow> ('d, slate_error, 'v iter) op"
  db_scan :: "bytes \<Rightarrow> bytes \<Rightarrow> ('d, slate_error, 'v iter) op"
  db_flush :: "('d, slate_error, unit) op"

fun apply_op :: "'v batch_op \<Rightarrow> (bytes \<rightharpoonup> 'v) \<Rightarrow> (bytes \<rightharpoonup> 'v)" where
  "apply_op (BPut k v) m = m(k \<mapsto> v)"
| "apply_op (BDelete k) m = m(k := None)"

definition apply_batch :: "'v batch \<Rightarrow> (bytes \<rightharpoonup> 'v) \<Rightarrow> (bytes \<rightharpoonup> 'v)" where
  "apply_batch b m = fold apply_op b m"

lemma apply_batch_simps [simp]:
  "apply_batch [] m = m"
  "apply_batch (x # b) m = apply_batch b (apply_op x m)"
  "apply_batch (b @ c) m = apply_batch c (apply_batch b m)"
  by (simp_all add: apply_batch_def)

lemma finite_dom_apply_batch [simp]: "finite (dom m) \<Longrightarrow> finite (dom (apply_batch b m))"
proof (induction b arbitrary: m)
  case Nil
  then show ?case by simp
next
  case (Cons x b)
  have "finite (dom (apply_op x m))" using Cons.prems by (cases x) auto
  with Cons.IH show ?case by simp
qed

text \<open>The entries of a map whose keys satisfy a predicate, in key order.\<close>

definition entries_of :: "(bytes \<Rightarrow> bool) \<Rightarrow> (bytes \<rightharpoonup> 'v) \<Rightarrow> (bytes \<times> 'v) list" where
  "entries_of P m = map (\<lambda>k. (k, the (m k))) (sorted_list_of_set {k \<in> dom m. P k})"

lemma set_entries_of:
  "finite (dom m) \<Longrightarrow> set (entries_of P m) = {(k, v). m k = Some v \<and> P k}"
  by (force simp: entries_of_def)

lemma map_fst_entries_of: "map fst (entries_of P m) = sorted_list_of_set {k \<in> dom m. P k}"
  by (simp add: entries_of_def comp_def)

text \<open>
  What the code relies on: reads return the current contents and change nothing; a write
  applies the whole batch or, when it fails, all of it or nothing; scans yield the entries in
  key order, all of them unless they end with an error; a flush changes no contents.
\<close>

definition get_law :: "('d, 'v) slate \<Rightarrow> ('d \<Rightarrow> bytes \<rightharpoonup> 'v) \<Rightarrow> bool" where
  "get_law db A \<longleftrightarrow> (\<forall>k d r d'. db_get db k d = (r, d') \<longrightarrow>
     A d' = A d \<and> (r = Inr (A d k) \<or> (\<exists>e. r = Inl e)))"

definition write_law :: "('d, 'v) slate \<Rightarrow> ('d \<Rightarrow> bytes \<rightharpoonup> 'v) \<Rightarrow> bool" where
  "write_law db A \<longleftrightarrow> (\<forall>b d r d'. db_write db b d = (r, d') \<longrightarrow>
     (r = Inr () \<and> A d' = apply_batch b (A d) \<or>
      (\<exists>e. r = Inl e) \<and> (A d' = A d \<or> A d' = apply_batch b (A d))))"

definition iter_ok :: "(bytes \<Rightarrow> bool) \<Rightarrow> (bytes \<rightharpoonup> 'v) \<Rightarrow> 'v iter \<Rightarrow> bool" where
  "iter_ok P m it \<longleftrightarrow>
     prefix (fst it) (entries_of P m) \<and> (snd it = None \<longrightarrow> fst it = entries_of P m)"

definition scan_law :: "('d, 'v) slate \<Rightarrow> ('d \<Rightarrow> bytes \<rightharpoonup> 'v) \<Rightarrow> bool" where
  "scan_law db A \<longleftrightarrow>
     (\<forall>p d r d'. db_scan_prefix db p d = (r, d') \<longrightarrow>
        A d' = A d \<and> (\<forall>it. r = Inr it \<longrightarrow> iter_ok (prefix p) (A d) it)) \<and>
     (\<forall>lo hi d r d'. db_scan db lo hi d = (r, d') \<longrightarrow>
        A d' = A d \<and> (\<forall>it. r = Inr it \<longrightarrow> iter_ok (\<lambda>k. lo \<le> k \<and> k < hi) (A d) it))"

definition flush_law :: "('d, 'v) slate \<Rightarrow> ('d \<Rightarrow> bytes \<rightharpoonup> 'v) \<Rightarrow> bool" where
  "flush_law db A \<longleftrightarrow> (\<forall>d r d'. db_flush db d = (r, d') \<longrightarrow> A d' = A d)"

definition slate_laws :: "('d, 'v) slate \<Rightarrow> ('d \<Rightarrow> bytes \<rightharpoonup> 'v) \<Rightarrow> bool" where
  "slate_laws db A \<longleftrightarrow>
     get_law db A \<and> write_law db A \<and> scan_law db A \<and> flush_law db A \<and> (\<forall>d. finite (dom (A d)))"

section \<open>Encodings and filters\<close>

datatype bloom_item = ItemHash bytes | ItemSeq u64

record ('v, 'b) lib =
  enc_file :: "file_msg \<Rightarrow> 'v"
  dec_file :: "'v \<Rightarrow> file_msg option"
  enc_inbox :: "inbox_msg \<Rightarrow> 'v"
  dec_inbox :: "'v \<Rightarrow> inbox_msg option"
  enc_meta :: "folder_index_meta \<Rightarrow> 'v"
  dec_meta :: "'v \<Rightarrow> folder_index_meta option"
  enc_remote :: "remote_index_state \<Rightarrow> 'v"
  dec_remote :: "'v \<Rightarrow> remote_index_state option"
  enc_ref :: "block_ref \<Rightarrow> 'v"
  dec_ref :: "'v \<Rightarrow> block_ref option"
  raw :: "bytes \<Rightarrow> 'v"
  unraw :: "'v \<Rightarrow> bytes"
  bloom_insert :: "bloom_item \<Rightarrow> 'b \<Rightarrow> 'b"
  bloom_contains :: "bloom_item \<Rightarrow> 'b \<Rightarrow> bool"

text \<open>Decoding inverts encoding; raw values are read back as they were written.\<close>

definition codec_laws :: "('v, 'b) lib \<Rightarrow> bool" where
  "codec_laws lib \<longleftrightarrow>
     (\<forall>x. dec_file lib (enc_file lib x) = Some x) \<and>
     (\<forall>x. dec_inbox lib (enc_inbox lib x) = Some x) \<and>
     (\<forall>x. dec_meta lib (enc_meta lib x) = Some x) \<and>
     (\<forall>x. dec_remote lib (enc_remote lib x) = Some x) \<and>
     (\<forall>x. dec_ref lib (enc_ref lib x) = Some x) \<and>
     (\<forall>x. unraw lib (raw lib x) = x)"

text \<open>A bloom filter has no false negatives.\<close>

definition bloom_laws :: "('v, 'b) lib \<Rightarrow> bool" where
  "bloom_laws lib \<longleftrightarrow>
     (\<forall>x y f. x = y \<or> bloom_contains lib x f \<longrightarrow> bloom_contains lib x (bloom_insert lib y f))"

lemma codec_lawsD:
  assumes "codec_laws lib"
  shows "dec_file lib (enc_file lib a) = Some a" "dec_inbox lib (enc_inbox lib b) = Some b"
    "dec_meta lib (enc_meta lib c) = Some c" "dec_remote lib (enc_remote lib d) = Some d"
    "dec_ref lib (enc_ref lib e) = Some e" "unraw lib (raw lib f) = f"
  using assms by (auto simp: codec_laws_def)

section \<open>The reference database\<close>

definition map_slate :: "(bytes \<rightharpoonup> 'v, 'v) slate" where
  "map_slate =
     \<lparr>db_get = (\<lambda>k m. (Inr (m k), m)),
      db_write = (\<lambda>b m. (Inr (), apply_batch b m)),
      db_scan_prefix = (\<lambda>p m. (Inr (entries_of (prefix p) m, None), m)),
      db_scan = (\<lambda>lo hi m. (Inr (entries_of (\<lambda>k. lo \<le> k \<and> k < hi) m, None), m)),
      db_flush = (\<lambda>m. (Inr (), m))\<rparr>"

lemma map_slate_simps [simp]:
  "db_get map_slate k m = (Inr (m k), m)"
  "db_write map_slate b m = (Inr (), apply_batch b m)"
  "db_scan_prefix map_slate p m = (Inr (entries_of (prefix p) m, None), m)"
  "db_scan map_slate lo hi m = (Inr (entries_of (\<lambda>k. lo \<le> k \<and> k < hi) m, None), m)"
  "db_flush map_slate m = (Inr (), m)"
  by (simp_all add: map_slate_def)

section \<open>A lawful database that computes\<close>

fun rbt_op :: "'v batch_op \<Rightarrow> (bytes, 'v) RBT.rbt \<Rightarrow> (bytes, 'v) RBT.rbt" where
  "rbt_op (BPut k v) t = RBT.insert k v t"
| "rbt_op (BDelete k) t = RBT.delete k t"

definition rbt_slate :: "((bytes, 'v) RBT.rbt, 'v) slate" where
  "rbt_slate =
     \<lparr>db_get = (\<lambda>k t. (Inr (RBT.lookup t k), t)),
      db_write = (\<lambda>b t. (Inr (), fold rbt_op b t)),
      db_scan_prefix = (\<lambda>p t. (Inr (filter (\<lambda>kv. prefix p (fst kv)) (RBT.entries t), None), t)),
      db_scan = (\<lambda>lo hi t.
        (Inr (filter (\<lambda>kv. lo \<le> fst kv \<and> fst kv < hi) (RBT.entries t), None), t)),
      db_flush = (\<lambda>t. (Inr (), t))\<rparr>"

lemma lookup_rbt_op: "RBT.lookup (rbt_op x t) = apply_op x (RBT.lookup t)"
  by (cases x) simp_all

lemma lookup_rbt_ops: "RBT.lookup (fold rbt_op b t) = apply_batch b (RBT.lookup t)"
  by (induction b arbitrary: t) (simp_all add: lookup_rbt_op)

lemma rbt_entries_of:
  "filter (\<lambda>kv. P (fst kv)) (RBT.entries t) = entries_of P (RBT.lookup t)"
proof -
  let ?es = "filter (\<lambda>kv. P (fst kv)) (RBT.entries t)"
  have keys: "set (map fst ?es) = {k \<in> dom (RBT.lookup t). P k}"
    by (force simp: RBT.lookup_in_tree [symmetric] dom_def image_iff)
  have "sorted (map fst ?es)" "distinct (map fst ?es)"
    using RBT.sorted_entries [of t] RBT.distinct_entries [of t]
    by (auto simp: sorted_filter distinct_map_filter)
  then have "map fst ?es = sorted_list_of_set {k \<in> dom (RBT.lookup t). P k}"
    using keys by (metis sorted_list_of_set.idem_if_sorted_distinct)
  moreover have "map (\<lambda>k. (k, the (RBT.lookup t k))) (map fst ?es) = ?es"
    by (auto simp: comp_def RBT.lookup_in_tree [symmetric] intro!: map_idI)
  ultimately show ?thesis by (metis entries_of_def)
qed

lemma rbt_slate_laws: "slate_laws rbt_slate RBT.lookup"
  by (auto simp: slate_laws_def get_law_def write_law_def scan_law_def flush_law_def rbt_slate_def
      lookup_rbt_ops rbt_entries_of rbt_entries_of [of "\<lambda>k. lo \<le> k \<and> k < hi" for lo hi] iter_ok_def)

section \<open>Simulation by the reference database\<close>

named_theorems sim_rules \<open>structural rules of the simulation\<close>

definition sim ::
  "('s \<Rightarrow> 'c) \<Rightarrow> 'c \<Rightarrow> ('c \<Rightarrow> bool) \<Rightarrow>
   ('s, storage_error, 'a) op \<Rightarrow> ('c, storage_error, 'a) op \<Rightarrow> bool" where
  "sim \<alpha> c I m f \<longleftrightarrow>
     (\<forall>s r t. \<alpha> s = c \<longrightarrow> m s = (r, t) \<longrightarrow>
        (r, \<alpha> t) = f c \<or> (\<exists>e. r = Inl e \<and> io_err e \<and> I (\<alpha> t)))"

lemma simD:
  assumes "sim \<alpha> (\<alpha> s) I m f" and "m s = (r, t)"
  shows "(r, \<alpha> t) = f (\<alpha> s) \<or> (\<exists>e. r = Inl e \<and> io_err e \<and> I (\<alpha> t))"
  using assms by (auto simp: sim_def)

lemma sim_InrD:
  assumes "sim \<alpha> (\<alpha> s) I m f" and "m s = (Inr x, t)"
  shows "f (\<alpha> s) = (Inr x, \<alpha> t)"
  using simD [OF assms] by auto

lemma sim_keeps:
  assumes "sim \<alpha> (\<alpha> s) I m f" and "m s = (r, t)" and "I (snd (f (\<alpha> s)))"
  shows "I (\<alpha> t)"
  using simD [OF assms(1,2)] assms(3) by (metis snd_conv)

lemma sim_ok [sim_rules]: "sim \<alpha> c I (ok x) (ok x)"
  by (simp add: sim_def ok_def)

lemma sim_err [sim_rules]: "sim \<alpha> c I (err e) (err e)"
  by (simp add: sim_def err_def)

lemma sim_lift [sim_rules]: "sim \<alpha> c I (lift_res r) (lift_res r)"
  by (simp add: sim_def lift_res_def)

lemma sim_get_st: "(\<And>s. g s = g' (\<alpha> s)) \<Longrightarrow> sim \<alpha> c I (get_st g) (get_st g')"
  by (simp add: sim_def get_st_def)

lemma sim_mod_st: "(\<And>s. \<alpha> (g s) = g' (\<alpha> s)) \<Longrightarrow> sim \<alpha> c I (mod_st g) (mod_st g')"
  by (simp add: sim_def mod_st_def)

lemma sim_bnd:
  assumes m: "sim \<alpha> c I m f" and k: "\<And>x c'. f c = (Inr x, c') \<Longrightarrow> sim \<alpha> c' I (k x) (g x)"
  shows "sim \<alpha> c I (bnd m k) (bnd f g)"
  unfolding sim_def
proof (intro allI impI)
  fix s r t assume c: "\<alpha> s = c" and run: "bnd m k s = (r, t)"
  obtain r1 s1 where m1: "m s = (r1, s1)" by fastforce
  have "(r1, \<alpha> s1) = f c \<or> (\<exists>e. r1 = Inl e \<and> io_err e \<and> I (\<alpha> s1))"
    using m c m1 by (auto simp: sim_def)
  then show "(r, \<alpha> t) = bnd f g c \<or> (\<exists>e. r = Inl e \<and> io_err e \<and> I (\<alpha> t))"
  proof
    assume f: "(r1, \<alpha> s1) = f c"
    show ?thesis
    proof (cases r1)
      case (Inl e)
      with f have "f c = (Inl e, \<alpha> s1)" by simp
      with run m1 Inl show ?thesis by (auto simp: bnd_def)
    next
      case (Inr x)
      with f k have "sim \<alpha> (\<alpha> s1) I (k x) (g x)" by simp
      moreover have "k x s1 = (r, t)" using run m1 Inr by (simp add: bnd_def)
      moreover have "bnd f g c = g x (\<alpha> s1)" using f Inr by (auto intro: bnd_Inr)
      ultimately show ?thesis by (auto simp: sim_def)
    qed
  next
    assume "\<exists>e. r1 = Inl e \<and> io_err e \<and> I (\<alpha> s1)"
    with run m1 show ?thesis by (auto simp: bnd_def)
  qed
qed

lemma sim_if [sim_rules]:
  "(b \<Longrightarrow> sim \<alpha> c I m f) \<Longrightarrow> (\<not> b \<Longrightarrow> sim \<alpha> c I n g) \<Longrightarrow>
   sim \<alpha> c I (if b then m else n) (if b then f else g)"
  by simp

lemma sim_option [sim_rules]:
  "(v = None \<Longrightarrow> sim \<alpha> c I m f) \<Longrightarrow> (\<And>x. v = Some x \<Longrightarrow> sim \<alpha> c I (k x) (g x)) \<Longrightarrow>
   sim \<alpha> c I (case v of None \<Rightarrow> m | Some x \<Rightarrow> k x) (case v of None \<Rightarrow> f | Some x \<Rightarrow> g x)"
  by (cases v) auto

lemma sim_sum [sim_rules]:
  "(\<And>e. v = Inl e \<Longrightarrow> sim \<alpha> c I (m e) (f e)) \<Longrightarrow>
   (\<And>x. v = Inr x \<Longrightarrow> sim \<alpha> c I (k x) (g x)) \<Longrightarrow>
   sim \<alpha> c I (case v of Inl e \<Rightarrow> m e | Inr x \<Rightarrow> k x) (case v of Inl e \<Rightarrow> f e | Inr x \<Rightarrow> g x)"
  by (cases v) auto

lemma sim_prod [sim_rules]:
  "(\<And>a b. p = (a, b) \<Longrightarrow> sim \<alpha> c I (k a b) (g a b)) \<Longrightarrow>
   sim \<alpha> c I (case p of (a, b) \<Rightarrow> k a b) (case p of (a, b) \<Rightarrow> g a b)"
  by (cases p) auto

text \<open>
  \<open>while let Some(kv) = iter.next()? { body }\<close>: the body returns \<open>Inl acc\<close> to go on and
  \<open>Inr x\<close> to return from the function.
\<close>

fun for_iter ::
  "(bytes \<times> 'v) list \<Rightarrow> slate_error option \<Rightarrow> 'a \<Rightarrow>
   (bytes \<times> 'v \<Rightarrow> 'a \<Rightarrow> ('s, storage_error, 'a + 'r) op) \<Rightarrow> ('s, storage_error, 'a + 'r) op" where
  "for_iter [] fin acc body =
     (case fin of None \<Rightarrow> ok (Inl acc) | Some e \<Rightarrow> err (slate_err e))"
| "for_iter (kv # kvs) fin acc body =
     bnd (body kv acc) (\<lambda>r. case r of Inl acc' \<Rightarrow> for_iter kvs fin acc' body | Inr x \<Rightarrow> ok (Inr x))"

text \<open>The reference run goes over all the entries, the other one possibly over the first ones
  only; the bodies read the state and do not change it.\<close>

lemma sim_for_iter:
  assumes body: "\<And>kv acc. sim \<alpha> c I (body kv acc) (body' kv acc)"
    and still: "\<And>kv acc. snd (body' kv acc c) = c" and c: "I c"
  shows "prefix kvs es \<Longrightarrow> (fin = None \<Longrightarrow> kvs = es) \<Longrightarrow>
    sim \<alpha> c I (for_iter kvs fin acc body) (for_iter es None acc body')"
proof (induction kvs arbitrary: es acc)
  case Nil
  show ?case
  proof (cases fin)
    case None
    with Nil show ?thesis by (simp add: sim_ok)
  next
    case (Some e)
    with c show ?thesis by (simp add: sim_def err_def)
  qed
next
  case (Cons kv kvs)
  then obtain es' where es: "es = kv # es'" "prefix kvs es'" by (auto simp: prefix_Cons prefix_def)
  have step: "sim \<alpha> c I (for_iter kvs fin a body) (for_iter es' None a body')" for a
    using Cons.IH [of es' a] Cons.prems es by simp
  show ?case
    unfolding es for_iter.simps
  proof (rule sim_bnd [OF body])
    fix r c' assume "body' kv acc c = (Inr r, c')"
    then have "c' = c" using still [of kv acc] by simp
    then show "sim \<alpha> c' I
        (case r of Inl acc' \<Rightarrow> for_iter kvs fin acc' body | Inr x \<Rightarrow> ok (Inr x))
        (case r of Inl acc' \<Rightarrow> for_iter es' None acc' body' | Inr x \<Rightarrow> ok (Inr x))"
      using step by (cases r) (auto intro: sim_ok)
  qed
qed

lemma for_iter_still:
  assumes "\<And>kv acc. snd (body kv acc c) = c"
  shows "snd (for_iter kvs None acc body c) = c"
proof (induction kvs arbitrary: acc)
  case Nil
  then show ?case by (simp add: ok_def)
next
  case (Cons kv kvs)
  obtain r where "body kv acc c = (r, c)" using assms [of kv acc] by (metis prod.collapse)
  with Cons show ?case by (cases r) (auto simp: bnd_def ok_def split: sum.splits)
qed

end
