(* ===== verification/FolderStore.thy ===== *)
theory FolderStore
  imports SlateDb
begin

text \<open>
  The per-folder store, \<open>bepository-storage/src/store.rs\<close>, with the block resolution of
  \<open>bepository-storage/src/block_read.rs\<close>: one definition per function, each an operation on
  the record \<open>folder_store\<close>.  The database is the parameter \<open>db\<close>, the encodings and bloom
  filters are the parameter \<open>lib\<close>.  An operation is run from its first to its last step:
  the per-name locks and the sequence lock of the code make each of them appear so to the
  other operations on the same name and to the other users of the index counter.
\<close>

section \<open>Active compactions\<close>

record 'b compaction_job_state =
  known_live_hashes :: 'b
  known_live_seqs :: 'b

record 'b compaction_state =
  jobs :: "(u64 \<times> 'b compaction_job_state) list"
  next_job :: u64

definition compaction_state_new :: "'b compaction_state" where
  "compaction_state_new = \<lparr>jobs = [], next_job = 1\<rparr>"

definition register :: "'b \<Rightarrow> 'b \<Rightarrow> 'b compaction_state \<Rightarrow> u64 \<times> 'b compaction_state" where
  "register hashes seqs gc =
     (let job_id = next_job gc
      in (job_id, gc\<lparr>next_job := job_id + 1,
            jobs := (job_id, \<lparr>known_live_hashes = hashes, known_live_seqs = seqs\<rparr>)
                    # filter (\<lambda>j. fst j \<noteq> job_id) (jobs gc)\<rparr>))"

definition unregister :: "u64 \<Rightarrow> 'b compaction_state \<Rightarrow> 'b compaction_state" where
  "unregister job_id gc = gc\<lparr>jobs := filter (\<lambda>j. fst j \<noteq> job_id) (jobs gc)\<rparr>"

definition record_block_write ::
  "('v, 'b) lib \<Rightarrow> bytes \<Rightarrow> u64 option \<Rightarrow> 'b compaction_state \<Rightarrow> 'b compaction_state" where
  "record_block_write lib hash seq gc =
     gc\<lparr>jobs := map (\<lambda>(i, job). (i, job\<lparr>
        known_live_hashes := bloom_insert lib (ItemHash hash) (known_live_hashes job),
        known_live_seqs := (case seq of None \<Rightarrow> known_live_seqs job
          | Some s \<Rightarrow> bloom_insert lib (ItemSeq s) (known_live_seqs job))\<rparr>)) (jobs gc)\<rparr>"

definition is_block_safe :: "('v, 'b) lib \<Rightarrow> bytes \<Rightarrow> 'b compaction_state \<Rightarrow> bool" where
  "is_block_safe lib hash gc \<longleftrightarrow>
     (if jobs gc = [] then True
      else list_all (\<lambda>(_, job). bloom_contains lib (ItemHash hash) (known_live_hashes job)) (jobs gc))"

definition known_live_hash_contains ::
  "('v, 'b) lib \<Rightarrow> u64 \<Rightarrow> bytes \<Rightarrow> 'b compaction_state \<Rightarrow> bool" where
  "known_live_hash_contains lib job_id hash gc \<longleftrightarrow>
     (case map_of (jobs gc) job_id of
        None \<Rightarrow> True
      | Some job \<Rightarrow> bloom_contains lib (ItemHash hash) (known_live_hashes job))"

definition known_live_seq_contains ::
  "('v, 'b) lib \<Rightarrow> u64 \<Rightarrow> u64 \<Rightarrow> 'b compaction_state \<Rightarrow> bool" where
  "known_live_seq_contains lib job_id seq gc \<longleftrightarrow>
     (case map_of (jobs gc) job_id of
        None \<Rightarrow> True
      | Some job \<Rightarrow> bloom_contains lib (ItemSeq seq) (known_live_seqs job))"

section \<open>The store and its database calls\<close>

record seq_range =
  sr_next :: u64
  sr_end :: u64

record ('d, 'b) folder_store =
  fs_db :: 'd
  fs_gc :: "'b compaction_state"
  fs_blockseq :: seq_range

text \<open>A database call, its error converted by \<open>slate_err\<close>.\<close>

definition on_db ::
  "('d, slate_error, 'a) op \<Rightarrow> (('d, 'b) folder_store, storage_error, 'a) op" where
  "on_db m s = (case m (fs_db s) of (r, d) \<Rightarrow> (map_sum slate_err id r, s\<lparr>fs_db := d\<rparr>))"

definition write_non_durable ::
  "('d, 'v) slate \<Rightarrow> 'v batch \<Rightarrow> (('d, 'b) folder_store, storage_error, unit) op" where
  "write_non_durable db batch = on_db (db_write db batch)"

definition put_non_durable ::
  "('d, 'v) slate \<Rightarrow> bytes \<Rightarrow> 'v \<Rightarrow> (('d, 'b) folder_store, storage_error, unit) op" where
  "put_non_durable db key v = on_db (db_write db [BPut key v])"

text \<open>The result of decoding a stored message, \<open>Corruption\<close> when it fails.\<close>

definition decoded :: "string \<Rightarrow> 'm option \<Rightarrow> storage_error + 'm" where
  "decoded what r = (case r of None \<Rightarrow> Inl (Corruption what) | Some m \<Rightarrow> Inr m)"

definition default_index_meta :: folder_index_meta where
  "default_index_meta = \<lparr>fm_max_sequence = 0, fm_next_blockseq = None\<rparr>"

definition get_index_meta ::
  "('d, 'v) slate \<Rightarrow> ('v, 'b) lib \<Rightarrow>
   (('d, 'b) folder_store, storage_error, folder_index_meta) op" where
  "get_index_meta db lib =
     bnd (on_db (db_get db IX_KEY)) (\<lambda>r. case r of
       None \<Rightarrow> ok default_index_meta
     | Some v \<Rightarrow> lift_res (decoded ''decode FolderIndexMeta'' (dec_meta lib v)))"

definition default_remote_state :: remote_index_state where
  "default_remote_state = \<lparr>ri_index_id = 0, ri_max_sequence = 0\<rparr>"

definition get_remote_state ::
  "('d, 'v) slate \<Rightarrow> ('v, 'b) lib \<Rightarrow> bytes \<Rightarrow>
   (('d, 'b) folder_store, storage_error, remote_index_state) op" where
  "get_remote_state db lib device =
     bnd (on_db (db_get db (device_key device))) (\<lambda>r. case r of
       None \<Rightarrow> ok default_remote_state
     | Some v \<Rightarrow> lift_res (decoded ''decode RemoteIndexState'' (dec_remote lib v)))"

definition put_remote_state ::
  "('d, 'v) slate \<Rightarrow> ('v, 'b) lib \<Rightarrow> bytes \<Rightarrow> remote_index_state \<Rightarrow>
   (('d, 'b) folder_store, storage_error, unit) op" where
  "put_remote_state db lib device state =
     put_non_durable db (device_key device) (enc_remote lib state)"

section \<open>The file index\<close>

definition file_of_msg :: "('v, 'b) lib \<Rightarrow> string \<Rightarrow> 'v \<Rightarrow> storage_error + s_file_info" where
  "file_of_msg lib missing v =
     rbind (decoded ''decode File'' (dec_file lib v)) (\<lambda>file.
       decoded missing (file_file_info file))"

definition get_file_proto ::
  "('d, 'v) slate \<Rightarrow> ('v, 'b) lib \<Rightarrow> bytes \<Rightarrow>
   (('d, 'b) folder_store, storage_error, s_file_info option) op" where
  "get_file_proto db lib name =
     bnd (on_db (db_get db (file_key name))) (\<lambda>r. case r of
       None \<Rightarrow> ok None
     | Some v \<Rightarrow> bnd (lift_res (file_of_msg lib ''missing file_info in File'' v)) (\<lambda>fi. ok (Some fi)))"

definition get_file ::
  "('d, 'v) slate \<Rightarrow> ('v, 'b) lib \<Rightarrow> bytes \<Rightarrow>
   (('d, 'b) folder_store, storage_error, file_info option) op" where
  "get_file db lib name =
     bnd (get_file_proto db lib name) (\<lambda>r. case r of
       None \<Rightarrow> ok None
     | Some fi \<Rightarrow> bnd (lift_res (b_of_file_info fi)) (\<lambda>b. ok (Some b)))"

definition has_pointer :: "s_block_info \<Rightarrow> bool" where
  "has_pointer b \<longleftrightarrow> sb_blockseq b \<noteq> None \<or> sb_inline_data b \<noteq> None"

text \<open>The table built from the old blocks: \<open>entry(..).or_insert(..)\<close> keeps the first.\<close>

fun by_hash :: "s_block_info list \<Rightarrow> (bytes \<rightharpoonup> s_block_info) \<Rightarrow> (bytes \<rightharpoonup> s_block_info)" where
  "by_hash [] m = m"
| "by_hash (b # bs) m =
     by_hash bs (if has_pointer b \<and> m (sb_hash b) = None then m(sb_hash b \<mapsto> b) else m)"

definition carry_block :: "(bytes \<rightharpoonup> s_block_info) \<Rightarrow> s_block_info \<Rightarrow> s_block_info" where
  "carry_block m b =
     (if \<not> has_pointer b then
        (case m (sb_hash b) of
           None \<Rightarrow> b
         | Some src \<Rightarrow> b\<lparr>sb_blockseq := sb_blockseq src, sb_inline_data := sb_inline_data src\<rparr>)
      else b)"

definition carry_block_pointers :: "s_file_info \<Rightarrow> s_file_info \<Rightarrow> s_file_info" where
  "carry_block_pointers new old =
     new\<lparr>sf_blocks := map (carry_block (by_hash (sf_blocks old) Map.empty)) (sf_blocks new)\<rparr>"

text \<open>\<open>+= 1\<close> on an \<open>i64\<close>: release builds wrap around.\<close>

definition i64_wrap :: "int \<Rightarrow> i64" where
  "i64_wrap i = (i + 2 ^ 63) mod 2 ^ 64 - 2 ^ 63"

definition commit_with_new_seq ::
  "('d, 'v) slate \<Rightarrow> ('v, 'b) lib \<Rightarrow> bytes \<Rightarrow> s_file_info \<Rightarrow> 'v batch \<Rightarrow>
   (('d, 'b) folder_store, storage_error, i64 \<times> file_info) op" where
  "commit_with_new_seq db lib name stored batch =
     bnd (get_file_proto db lib name) (\<lambda>prior.
     bnd (case prior of
            None \<Rightarrow> ok (stored, batch)
          | Some old \<Rightarrow>
              if sf_sequence old > 0
              then bnd (lift_res (seq_key (sf_sequence old))) (\<lambda>k.
                     ok (carry_block_pointers stored old, batch @ [BDelete k]))
              else ok (carry_block_pointers stored old, batch)) (\<lambda>(stored, batch).
     bnd (get_index_meta db lib) (\<lambda>meta.
       let seq = i64_wrap (fm_max_sequence meta + 1);
           meta = meta\<lparr>fm_max_sequence := seq\<rparr>;
           stored = stored\<lparr>sf_sequence := seq\<rparr>;
           batch = batch @ [BPut IX_KEY (enc_meta lib meta),
             BPut (file_key name) (enc_file lib \<lparr>file_file_info = Some stored\<rparr>)]
       in bnd (lift_res (seq_key seq)) (\<lambda>k.
          bnd (write_non_durable db (batch @ [BPut k (raw lib name)])) (\<lambda>_.
          bnd (lift_res (b_of_file_info stored)) (\<lambda>committed.
            ok (seq, committed)))))))"

definition put_file ::
  "('d, 'v) slate \<Rightarrow> ('v, 'b) lib \<Rightarrow> file_info \<Rightarrow>
   (('d, 'b) folder_store, storage_error, i64) op" where
  "put_file db lib file =
     bnd (commit_with_new_seq db lib (fi_name file) (s_of_file_info file) []) (\<lambda>(seq, _). ok seq)"

text \<open>The separated blocks a copy carries, with their hashes.\<close>

definition carried_blocks :: "s_file_info \<Rightarrow> (bytes \<times> u64) list" where
  "carried_blocks stored =
     List.map_filter (\<lambda>b. case sb_blockseq b of
         None \<Rightarrow> None
       | Some seq \<Rightarrow> if length (sb_hash b) = HASH_LEN then Some (sb_hash b, seq) else None)
       (sf_blocks stored)"

definition put_file_with_carry ::
  "('d, 'v) slate \<Rightarrow> ('v, 'b) lib \<Rightarrow> file_info \<Rightarrow> bytes \<Rightarrow>
   (('d, 'b) folder_store, storage_error, i64) op" where
  "put_file_with_carry db lib file carry_from =
     bnd (get_file_proto db lib carry_from) (\<lambda>r.
       let (stored, carried) = (case r of
             None \<Rightarrow> (s_of_file_info file, [])
           | Some src \<Rightarrow>
               let stored = carry_block_pointers (s_of_file_info file) src
               in (stored, carried_blocks stored));
           batch = map (\<lambda>(hash, _). BPut (block_reverse_key hash (fi_name file)) (raw lib [])) carried
       in bnd (commit_with_new_seq db lib (fi_name file) stored batch) (\<lambda>(seq, _).
          bnd (mod_st (\<lambda>s. s\<lparr>fs_gc :=
                 fold (\<lambda>(hash, q). record_block_write lib hash (Some q)) carried (fs_gc s)\<rparr>)) (\<lambda>_.
            ok seq)))"

text \<open>Scans: the loop's result, when no iteration returns.\<close>

definition all_files ::
  "('d, 'v) slate \<Rightarrow> ('v, 'b) lib \<Rightarrow>
   (('d, 'b) folder_store, storage_error, file_info list) op" where
  "all_files db lib =
     bnd (on_db (db_scan_prefix db FILE_PREFIX)) (\<lambda>(kvs, fin).
     bnd (for_iter kvs fin [] (\<lambda>(k, v) files.
            bnd (lift_res (file_of_msg lib ''missing file_info in File index entry'' v)) (\<lambda>fi.
            bnd (lift_res (b_of_file_info fi)) (\<lambda>b. ok (Inl (files @ [b])))))) (\<lambda>r.
       ok (case r of Inl files \<Rightarrow> files | Inr files \<Rightarrow> files)))"

definition files_since ::
  "('d, 'v) slate \<Rightarrow> ('v, 'b) lib \<Rightarrow> i64 \<Rightarrow>
   (('d, 'b) folder_store, storage_error, file_info list) op" where
  "files_since db lib since =
     bnd (lift_res (seq_scan_start since)) (\<lambda>start.
     bnd (on_db (db_scan db start SEQ_SCAN_END)) (\<lambda>(kvs, fin).
     bnd (for_iter kvs fin [] (\<lambda>(k, v) files.
            bnd (lift_res (decoded ''invalid name in seq entry'' (from_utf8 (unraw lib v)))) (\<lambda>name.
            bnd (get_file db lib name) (\<lambda>r.
              ok (Inl (case r of None \<Rightarrow> files | Some fi \<Rightarrow> files @ [fi])))))) (\<lambda>r.
       ok (case r of Inl files \<Rightarrow> files | Inr files \<Rightarrow> files))))"

section \<open>The inbox\<close>

definition stage_file ::
  "('d, 'v) slate \<Rightarrow> ('v, 'b) lib \<Rightarrow> epoch \<Rightarrow> file_info \<Rightarrow>
   (('d, 'b) folder_store, storage_error, unit) op" where
  "stage_file db lib epoch file =
     put_non_durable db (inbox_key epoch (fi_name file))
       (enc_inbox lib \<lparr>inbox_file_info = Some (s_of_file_info file)\<rparr>)"

definition complete_file ::
  "('d, 'v) slate \<Rightarrow> ('v, 'b) lib \<Rightarrow> epoch \<Rightarrow> bytes \<Rightarrow> vector option \<Rightarrow>
   (('d, 'b) folder_store, storage_error, file_info option) op" where
  "complete_file db lib epoch name expected_version =
     bnd (on_db (db_get db (inbox_key epoch name))) (\<lambda>r. case r of
       None \<Rightarrow> ok None
     | Some v \<Rightarrow>
         bnd (lift_res (rbind (decoded ''decode staged Inbox'' (dec_inbox lib v)) (\<lambda>inbox.
                decoded ''missing file_info in staged Inbox'' (inbox_file_info inbox)))) (\<lambda>staged.
         if map_option b_of_vector (sf_version staged) \<noteq> expected_version then ok None
         else
           bnd (get_file_proto db lib name) (\<lambda>prior.
             let completed = (case prior of None \<Rightarrow> staged | Some old \<Rightarrow> carry_block_pointers staged old)
             in if list_ex (\<lambda>b. sb_inline_data b = None \<and> sb_blockseq b = None) (sf_blocks completed)
                then err (Internal ''staged file has blocks with neither inline data nor blockseq'')
                else
                  bnd (commit_with_new_seq db lib name staged [BDelete (inbox_key epoch name)])
                    (\<lambda>(_, committed). ok (Some committed)))))"

definition gc_inbox ::
  "('d, 'v) slate \<Rightarrow> epoch \<Rightarrow> (('d, 'b) folder_store, storage_error, nat) op" where
  "gc_inbox db current_epoch =
     bnd (on_db (db_scan_prefix db INBOX_PREFIX)) (\<lambda>(kvs, fin).
     bnd (for_iter kvs fin ([], 0) (\<lambda>(k, v) (batch, count).
            ok (Inl (case parse_inbox_key k of
                Some (epoch, _) \<Rightarrow>
                  if epoch_less epoch current_epoch then (batch @ [BDelete k], count + 1)
                  else (batch, count)
              | None \<Rightarrow> (batch, count))))) (\<lambda>r.
       case r of
         Inr n \<Rightarrow> ok n
       | Inl (batch, count) \<Rightarrow>
           if count > 0 then bnd (write_non_durable db batch) (\<lambda>_. ok count) else ok count))"

definition compute_peer_floor ::
  "('d, 'v) slate \<Rightarrow> ('v, 'b) lib \<Rightarrow>
   (('d, 'b) folder_store, storage_error, i64 option) op" where
  "compute_peer_floor db lib =
     bnd (on_db (db_scan_prefix db DEVICE_PREFIX)) (\<lambda>(kvs, fin).
     bnd (for_iter kvs fin None (\<lambda>(k, v) floor.
            bnd (lift_res (decoded ''decode RemoteIndexState'' (dec_remote lib v))) (\<lambda>state.
              ok (Inl (Some (case floor of
                  Some f \<Rightarrow> min f (ri_max_sequence state)
                | None \<Rightarrow> ri_max_sequence state)))))) (\<lambda>r.
       ok (Option.bind (case r of Inl floor \<Rightarrow> floor | Inr floor \<Rightarrow> floor)
             (\<lambda>f. if f = 0 then None else Some f))))"

section \<open>Block sequence numbers\<close>

definition RESERVATION_N :: u64 where "RESERVATION_N = 256"

definition seq_allocator_load ::
  "('d, 'v) slate \<Rightarrow> ('v, 'b) lib \<Rightarrow> ('d, storage_error, seq_range) op" where
  "seq_allocator_load db lib d =
     (case db_get db IX_KEY d of
        (Inl e, d') \<Rightarrow> (Inl (slate_err e), d')
      | (Inr None, d') \<Rightarrow> (Inr \<lparr>sr_next = 0, sr_end = 0\<rparr>, d')
      | (Inr (Some v), d') \<Rightarrow>
          (rbind (decoded ''decode FolderIndexMeta'' (dec_meta lib v)) (\<lambda>meta.
             let persisted = (case fm_next_blockseq meta of Some n \<Rightarrow> n | None \<Rightarrow> 0)
             in Inr \<lparr>sr_next = persisted, sr_end = persisted\<rparr>), d'))"

definition folder_store_new ::
  "('d, 'v) slate \<Rightarrow> ('v, 'b) lib \<Rightarrow> 'd \<Rightarrow> 'b compaction_state \<Rightarrow>
   storage_error + ('d, 'b) folder_store" where
  "folder_store_new db lib d gc =
     (case seq_allocator_load db lib d of
        (Inl e, _) \<Rightarrow> Inl e
      | (Inr r, d') \<Rightarrow> Inr \<lparr>fs_db = d', fs_gc = gc, fs_blockseq = r\<rparr>)"

text \<open>The next number of the current reservation, if one is left.\<close>

definition take_reserved :: "(('d, 'b) folder_store, storage_error, u64 option) op" where
  "take_reserved s =
     (let state = fs_blockseq s
      in if sr_next state < sr_end state
         then (Inr (Some (sr_next state)), s\<lparr>fs_blockseq := state\<lparr>sr_next := sr_next state + 1\<rparr>\<rparr>)
         else (Inr None, s))"

definition refill ::
  "('d, 'v) slate \<Rightarrow> ('v, 'b) lib \<Rightarrow> (('d, 'b) folder_store, storage_error, u64) op" where
  "refill db lib =
     bnd (get_index_meta db lib) (\<lambda>meta.
       let base = max (case fm_next_blockseq meta of Some n \<Rightarrow> n | None \<Rightarrow> 0) MIN_BLOCK_SEQ;
           next_limit = base + RESERVATION_N
       in bnd (put_non_durable db IX_KEY (enc_meta lib (meta\<lparr>fm_next_blockseq := Some next_limit\<rparr>))) (\<lambda>_.
          bnd (on_db (db_flush db)) (\<lambda>_.
          bnd (mod_st (\<lambda>s. s\<lparr>fs_blockseq := \<lparr>sr_next = base + 1, sr_end = next_limit\<rparr>\<rparr>)) (\<lambda>_.
            ok base))))"

definition allocate ::
  "('d, 'v) slate \<Rightarrow> ('v, 'b) lib \<Rightarrow> (('d, 'b) folder_store, storage_error, u64) op" where
  "allocate db lib =
     bnd take_reserved (\<lambda>r. case r of
       Some seq \<Rightarrow> ok seq
     | None \<Rightarrow> bnd take_reserved (\<lambda>r. case r of
         Some seq \<Rightarrow> ok seq
       | None \<Rightarrow> refill db lib))"

section \<open>Blocks\<close>

definition find_file_entry ::
  "('d, 'v) slate \<Rightarrow> ('v, 'b) lib \<Rightarrow> epoch option \<Rightarrow> bytes \<Rightarrow>
   (('d, 'b) folder_store, storage_error, s_file_info \<times> bytes \<times> bool) op" where
  "find_file_entry db lib epoch name =
     (let main_index =
        bnd (on_db (db_get db (file_key name))) (\<lambda>r. case r of
          None \<Rightarrow> err (NotFound ''file not found in inbox or main index'')
        | Some v \<Rightarrow> bnd (lift_res (decoded ''decode File'' (dec_file lib v))) (\<lambda>file.
            case file_file_info file of
              None \<Rightarrow> err (NotFound ''file not found in inbox or main index'')
            | Some fi \<Rightarrow> ok (fi, file_key name, False)))
      in case epoch of
           None \<Rightarrow> main_index
         | Some ep \<Rightarrow>
             bnd (on_db (db_get db (inbox_key ep name))) (\<lambda>r. case r of
               None \<Rightarrow> main_index
             | Some v \<Rightarrow> bnd (lift_res (decoded ''decode staged Inbox'' (dec_inbox lib v))) (\<lambda>inbox.
                 case inbox_file_info inbox of
                   None \<Rightarrow> main_index
                 | Some fi \<Rightarrow> ok (fi, inbox_key ep name, True))))"

text \<open>One reverse reference: the pointer of its directory, if its data is there.\<close>

definition probe_reverse_ref ::
  "('d, 'v) slate \<Rightarrow> ('v, 'b) lib \<Rightarrow> bytes \<Rightarrow> bytes \<times> 'v \<Rightarrow> unit \<Rightarrow>
   (('d, 'b) folder_store, storage_error, unit + bytes \<times> block_ref) op" where
  "probe_reverse_ref db lib hash = (\<lambda>(k, v) _. case parse_block_reverse_key k of
       None \<Rightarrow> ok (Inl ())
     | Some (_, name) \<Rightarrow>
         bnd (on_db (db_get db (block_pointer_key (dirname name) hash))) (\<lambda>r. case r of
           None \<Rightarrow> ok (Inl ())
         | Some ref_bytes \<Rightarrow>
             bnd (lift_res (decoded ''decode BlockRef'' (dec_ref lib ref_bytes))) (\<lambda>block_ref.
             bnd (lift_res (validate_block_seq (seqno block_ref))) (\<lambda>_.
             bnd (on_db (db_get db (block_data_seq_key (seqno block_ref)))) (\<lambda>d. case d of
               None \<Rightarrow> ok (Inl ())
             | Some _ \<Rightarrow> ok (Inr (dirname name, block_ref)))))))"

definition find_block_dir ::
  "('d, 'v) slate \<Rightarrow> ('v, 'b) lib \<Rightarrow> bytes \<Rightarrow>
   (('d, 'b) folder_store, storage_error, (bytes \<times> block_ref) option) op" where
  "find_block_dir db lib hash =
     bnd (get_st (\<lambda>s. is_block_safe lib hash (fs_gc s))) (\<lambda>safe.
     if \<not> safe then ok None
     else
       bnd (on_db (db_scan_prefix db (block_reverse_prefix hash))) (\<lambda>(kvs, fin).
       bnd (for_iter kvs fin () (probe_reverse_ref db lib hash)) (\<lambda>r.
         ok (case r of Inl _ \<Rightarrow> None | Inr x \<Rightarrow> Some x))))"

text \<open>The loop that points the blocks of a hash to their data, and whether it found one.\<close>

definition set_pointer ::
  "bytes \<Rightarrow> u64 option \<Rightarrow> bytes option \<Rightarrow> s_file_info \<Rightarrow> s_file_info" where
  "set_pointer hash seq data fi =
     fi\<lparr>sf_blocks := map (\<lambda>b. if sb_hash b = hash
        then b\<lparr>sb_blockseq := seq, sb_inline_data := data\<rparr> else b) (sf_blocks fi)\<rparr>"

definition has_hash :: "bytes \<Rightarrow> s_file_info \<Rightarrow> bool" where
  "has_hash hash fi \<longleftrightarrow> list_ex (\<lambda>b. sb_hash b = hash) (sf_blocks fi)"

definition entry_put :: "('v, 'b) lib \<Rightarrow> bytes \<Rightarrow> bool \<Rightarrow> s_file_info \<Rightarrow> 'v batch_op" where
  "entry_put lib key is_inbox fi =
     (if is_inbox then BPut key (enc_inbox lib \<lparr>inbox_file_info = Some fi\<rparr>)
      else BPut key (enc_file lib \<lparr>file_file_info = Some fi\<rparr>))"

definition not_found_block :: storage_error where
  "not_found_block = NotFound ''block with hash not found in file''"

definition hash_len_error :: storage_error where
  "hash_len_error = InvalidInput ''block hash must be 32 bytes''"

definition store_block ::
  "('d, 'v) slate \<Rightarrow> ('v, 'b) lib \<Rightarrow> epoch option \<Rightarrow> bytes \<Rightarrow> bytes \<Rightarrow> bytes \<Rightarrow>
   (('d, 'b) folder_store, storage_error, unit) op" where
  "store_block db lib epoch name hash data =
     (if length hash \<noteq> HASH_LEN then err hash_len_error
      else if int (length data) < INLINE_BLOCK_THRESHOLD then
        bnd (find_file_entry db lib epoch name) (\<lambda>(file_info, key_to_update, is_inbox).
          if \<not> has_hash hash file_info then err not_found_block
          else write_non_durable db
                 [entry_put lib key_to_update is_inbox (set_pointer hash None (Some data) file_info)])
      else
        bnd (find_block_dir db lib hash) (\<lambda>existing.
        bnd (case existing of
               Some (canonical_dir, block_ref) \<Rightarrow>
                 ok (if canonical_dir \<noteq> dirname name
                     then [BPut (block_pointer_key (dirname name) hash) (enc_ref lib block_ref)] else [],
                     seqno block_ref)
             | None \<Rightarrow>
                 bnd (allocate db lib) (\<lambda>seq.
                   ok ([BPut (block_data_seq_key seq) (raw lib data),
                        BPut (block_pointer_key (dirname name) hash) (enc_ref lib \<lparr>seqno = seq\<rparr>)],
                       seq))) (\<lambda>(batch, seq).
        bnd (find_file_entry db lib epoch name) (\<lambda>(file_info, key_to_update, is_inbox).
          if \<not> has_hash hash file_info then err not_found_block
          else
            bnd (write_non_durable db (batch @
                   [BPut (block_reverse_key hash name) (raw lib []),
                    entry_put lib key_to_update is_inbox
                      (set_pointer hash (Some seq) None file_info)])) (\<lambda>_.
            mod_st (\<lambda>s. s\<lparr>fs_gc := record_block_write lib hash (Some seq) (fs_gc s)\<rparr>))))))"

definition reuse_block ::
  "('d, 'v) slate \<Rightarrow> ('v, 'b) lib \<Rightarrow> epoch option \<Rightarrow> bytes \<Rightarrow> bytes \<Rightarrow>
   (('d, 'b) folder_store, storage_error, bool) op" where
  "reuse_block db lib epoch name hash =
     (if length hash \<noteq> HASH_LEN then err hash_len_error
      else
        bnd (find_block_dir db lib hash) (\<lambda>existing. case existing of
          None \<Rightarrow> ok False
        | Some (canonical_dir, block_ref) \<Rightarrow>
            bnd (find_file_entry db lib epoch name) (\<lambda>(file_info, key_to_update, is_inbox).
              if \<not> has_hash hash file_info then err not_found_block
              else
                bnd (write_non_durable db
                      ((if canonical_dir \<noteq> dirname name
                        then [BPut (block_pointer_key (dirname name) hash) (enc_ref lib block_ref)]
                        else []) @
                       [BPut (block_reverse_key hash name) (raw lib []),
                        entry_put lib key_to_update is_inbox
                          (set_pointer hash (Some (seqno block_ref)) None file_info)])) (\<lambda>_.
                bnd (mod_st (\<lambda>s. s\<lparr>fs_gc :=
                       record_block_write lib hash (Some (seqno block_ref)) (fs_gc s)\<rparr>)) (\<lambda>_.
                  ok True)))))"

definition resolve_block_data ::
  "('d, 'v) slate \<Rightarrow> ('v, 'b) lib \<Rightarrow> s_block_info \<Rightarrow>
   (('d, 'b) folder_store, storage_error, bytes option) op" where
  "resolve_block_data db lib block =
     (case sb_inline_data block of
        Some inline_data \<Rightarrow> ok (Some inline_data)
      | None \<Rightarrow>
          (case sb_blockseq block of
             None \<Rightarrow> ok None
           | Some seq \<Rightarrow>
               bnd (lift_res (validate_block_seq seq)) (\<lambda>_.
               bnd (on_db (db_get db (block_data_seq_key seq))) (\<lambda>d.
                 ok (map_option (unraw lib) d)))))"

fun read_block_loop ::
  "('d, 'v) slate \<Rightarrow> ('v, 'b) lib \<Rightarrow> bytes \<Rightarrow> s_block_info list \<Rightarrow>
   (('d, 'b) folder_store, storage_error, bytes) op" where
  "read_block_loop db lib hash [] = err (NotFound ''block not found'')"
| "read_block_loop db lib hash (b # bs) =
     (if sb_hash b = hash then
        bnd (resolve_block_data db lib b) (\<lambda>r. case r of
          Some data \<Rightarrow> ok data
        | None \<Rightarrow> read_block_loop db lib hash bs)
      else read_block_loop db lib hash bs)"

definition read_block ::
  "('d, 'v) slate \<Rightarrow> ('v, 'b) lib \<Rightarrow> bytes \<Rightarrow> bytes \<Rightarrow>
   (('d, 'b) folder_store, storage_error, bytes) op" where
  "read_block db lib name hash =
     (if length hash \<noteq> HASH_LEN then err hash_len_error
      else
        bnd (on_db (db_get db (file_key name))) (\<lambda>r. case r of
          None \<Rightarrow> err (NotFound ''block not found'')
        | Some v \<Rightarrow> bnd (lift_res (decoded ''decode File'' (dec_file lib v))) (\<lambda>file.
            case file_file_info file of
              None \<Rightarrow> err (NotFound ''block not found'')
            | Some fi \<Rightarrow> read_block_loop db lib hash (sf_blocks fi))))"

end
