(* ===== verification/Stats.thy ===== *)
theory Stats
  imports StoreKeys
begin

text \<open>
  The statistics of the compaction filter: \<open>bepository-storage/src/stats.rs\<close>.  The row of the
  database is a key with a value, a merge operand or a tombstone; the length of a value is a
  parameter, as the encodings are.  The log lines at the end of a compaction are not modelled.
\<close>

datatype 'v value_deletable = Value 'v | Merge 'v | DelTombstone

record 'v row_entry =
  re_key :: bytes
  re_value :: "'v value_deletable"

record prefix_stats =
  ps_seen :: u64
  ps_tombstones_seen :: u64
  ps_dropped :: u64
  ps_bytes_total :: u64
  ps_bytes_max :: u64
  ps_bytes_hist :: "u64 list"

definition prefix_stats_default :: prefix_stats where
  "prefix_stats_default = \<lparr>ps_seen = 0, ps_tombstones_seen = 0, ps_dropped = 0, ps_bytes_total = 0,
     ps_bytes_max = 0, ps_bytes_hist = replicate 14 0\<rparr>"

record filter_stats =
  blocks_dropped :: u64
  blocks_kept :: u64
  refs_dropped :: u64
  refs_kept :: u64
  reverse_refs_tombstoned :: u64
  reverse_refs_kept :: u64
  inbox_tombstoned :: u64
  inbox_kept :: u64
  seqs_pruned :: u64
  seqs_kept :: u64
  tombstones_pruned :: u64
  files_kept :: u64
  metadata_kept :: u64
  rows_kept :: u64
  prefix_stats_of :: "bytes \<rightharpoonup> prefix_stats"

definition filter_stats_default :: filter_stats where
  "filter_stats_default = \<lparr>blocks_dropped = 0, blocks_kept = 0, refs_dropped = 0, refs_kept = 0,
     reverse_refs_tombstoned = 0, reverse_refs_kept = 0, inbox_tombstoned = 0, inbox_kept = 0,
     seqs_pruned = 0, seqs_kept = 0, tombstones_pruned = 0, files_kept = 0, metadata_kept = 0,
     rows_kept = 0, prefix_stats_of = Map.empty\<rparr>"

definition prefix_for :: "bytes \<Rightarrow> bytes" where
  "prefix_for key =
     (case key of [] \<Rightarrow> [CHR 0x00, CHR 0x00] | [a] \<Rightarrow> [a, CHR 0x00] | a # b # _ \<Rightarrow> [a, b])"

text \<open>The position of the highest set bit, \<open>63 - leading_zeros\<close>, of a value above zero.\<close>

fun top_bit_from :: "nat \<Rightarrow> nat \<Rightarrow> nat" where
  "top_bit_from 0 n = 0"
| "top_bit_from (Suc fuel) n = (if n < 2 then 0 else Suc (top_bit_from fuel (n div 2)))"

definition bytes_bucket_index :: "u64 \<Rightarrow> nat" where
  "bytes_bucket_index len =
     (if len < 16 then 0
      else if 2 ^ 27 \<le> len then 13
      else (top_bit_from 64 (unat len) - 4) div 2 + 1)"

definition saturating_add :: "u64 \<Rightarrow> u64 \<Rightarrow> u64" where
  "saturating_add a b = (if unat a + unat b < 2 ^ 64 then a + b else - 1)"

definition prefix_record_seen :: "('v \<Rightarrow> u64) \<Rightarrow> 'v row_entry \<Rightarrow> prefix_stats \<Rightarrow> prefix_stats" where
  "prefix_record_seen vlen entry s =
     (let len = (case re_value entry of Value b \<Rightarrow> vlen b | Merge b \<Rightarrow> vlen b | DelTombstone \<Rightarrow> 0);
          i = bytes_bucket_index len
      in s\<lparr>ps_seen := ps_seen s + 1,
           ps_tombstones_seen := (case re_value entry of DelTombstone \<Rightarrow> ps_tombstones_seen s + 1
             | _ \<Rightarrow> ps_tombstones_seen s),
           ps_bytes_total := saturating_add (ps_bytes_total s) len,
           ps_bytes_max := max (ps_bytes_max s) len,
           ps_bytes_hist := (ps_bytes_hist s)[i := ps_bytes_hist s ! i + 1]\<rparr>)"

definition prefix_entry :: "bytes \<Rightarrow> filter_stats \<Rightarrow> prefix_stats" where
  "prefix_entry key s =
     (case prefix_stats_of s (prefix_for key) of Some p \<Rightarrow> p | None \<Rightarrow> prefix_stats_default)"

definition record_seen :: "('v \<Rightarrow> u64) \<Rightarrow> bytes \<Rightarrow> 'v row_entry \<Rightarrow> filter_stats \<Rightarrow> filter_stats" where
  "record_seen vlen key entry s =
     s\<lparr>prefix_stats_of := (prefix_stats_of s)(prefix_for key \<mapsto> prefix_record_seen vlen entry (prefix_entry key s))\<rparr>"

definition record_dropped :: "bytes \<Rightarrow> filter_stats \<Rightarrow> filter_stats" where
  "record_dropped key s =
     s\<lparr>prefix_stats_of := (prefix_stats_of s)(prefix_for key \<mapsto>
        (prefix_entry key s)\<lparr>ps_dropped := ps_dropped (prefix_entry key s) + 1\<rparr>)\<rparr>"

section \<open>Buckets\<close>

lemma top_bit_from_spec:
  "0 < n \<Longrightarrow> n < 2 ^ fuel \<Longrightarrow> 2 ^ top_bit_from fuel n \<le> n \<and> n < 2 ^ Suc (top_bit_from fuel n)"
proof (induction fuel arbitrary: n)
  case (Suc fuel)
  show ?case
  proof (cases "n < 2")
    case False
    then have "0 < n div 2" "n div 2 < 2 ^ fuel" using Suc.prems by auto
    from Suc.IH [OF this] False show ?thesis by auto
  qed (use Suc.prems in auto)
qed simp

text \<open>The histogram has a bucket for every length: bucket \<open>i\<close> starts at \<open>4 ^ (i + 1)\<close>.\<close>

lemma bytes_bucket_index_bound: "bytes_bucket_index len < 14"
proof -
  have "top_bit_from 64 (unat len) \<le> 26" if "\<not> len < 16" "\<not> 2 ^ 27 \<le> len"
  proof (rule ccontr)
    assume big: "\<not> top_bit_from 64 (unat len) \<le> 26"
    have "unat len < 2 ^ 64" using unsigned_less [of len] by simp
    moreover have "16 \<le> unat len" "unat len < 2 ^ 27" using that by (simp_all add: word_less_nat_alt word_le_nat_alt not_less)
    ultimately have "2 ^ top_bit_from 64 (unat len) \<le> unat len" using top_bit_from_spec [of "unat len" 64] by simp
    moreover have "(2 :: nat) ^ 27 \<le> 2 ^ top_bit_from 64 (unat len)" using big by (intro power_increasing) auto
    ultimately show False using \<open>unat len < 2 ^ 27\<close> by linarith
  qed
  then show ?thesis by (auto simp: bytes_bucket_index_def)
qed

end
