(* ===== verification/Compaction.thy ===== *)
theory Compaction
  imports FolderStore Stats
begin

text \<open>
  Garbage collection during compaction: \<open>bepository-storage/src/compaction.rs\<close>.  The filter of a
  job is built from the files the store knows (\<open>create_compaction_filter\<close>) and decides on every
  row the database rewrites (\<open>gc_filter_row\<close>); the scheduler proposes what to compact.  The
  manifest and the size-tiered proposals of the database are parameters of the scheduler, and an
  empty bloom filter is a parameter of the filter's construction.  A snapshot is the contents at
  the time it is taken; waiting for the store to be published is not modelled.  A boxed message
  of an error is \<open>Corruption\<close>.
\<close>

section \<open>Building the filter\<close>

datatype compaction_filter_error = CreationError storage_error | FilterError string

definition job_insert ::
  "('v, 'b) lib \<Rightarrow> u64 \<Rightarrow> bytes option \<Rightarrow> u64 option \<Rightarrow> 'b compaction_state \<Rightarrow> 'b compaction_state" where
  "job_insert lib job_id hash seq gc =
     gc\<lparr>jobs := map (\<lambda>(i, job). (i, if i \<noteq> job_id then job else job\<lparr>
        known_live_hashes := (case hash of None \<Rightarrow> known_live_hashes job
          | Some h \<Rightarrow> bloom_insert lib (ItemHash h) (known_live_hashes job)),
        known_live_seqs := (case seq of None \<Rightarrow> known_live_seqs job
          | Some q \<Rightarrow> bloom_insert lib (ItemSeq q) (known_live_seqs job))\<rparr>)) (jobs gc)\<rparr>"

definition insert_live ::
  "('v, 'b) lib \<Rightarrow> u64 \<Rightarrow> bytes option \<Rightarrow> u64 option \<Rightarrow> (('d, 'b) folder_store, storage_error, unit) op" where
  "insert_live lib job_id hash seq = mod_st (\<lambda>s. s\<lparr>fs_gc := job_insert lib job_id hash seq (fs_gc s)\<rparr>)"

fun index_blocks ::
  "('v, 'b) lib \<Rightarrow> u64 \<Rightarrow> s_block_info list \<Rightarrow> (('d, 'b) folder_store, storage_error, unit) op" where
  "index_blocks lib job_id [] = ok ()"
| "index_blocks lib job_id (b # bs) =
     (case sb_blockseq b of
        None \<Rightarrow> index_blocks lib job_id bs
      | Some seq \<Rightarrow>
          if length (sb_hash b) \<noteq> HASH_LEN then err (Corruption ''invalid hash length in file'')
          else bnd (insert_live lib job_id (Some (sb_hash b)) None) (\<lambda>_.
               case validate_block_seq seq of
                 Inl e \<Rightarrow> err (Corruption ''invalid blockseq in file'')
               | Inr _ \<Rightarrow> bnd (insert_live lib job_id None (Some seq)) (\<lambda>_. index_blocks lib job_id bs)))"

definition index_entry ::
  "('v, 'b) lib \<Rightarrow> u64 \<Rightarrow> ('v \<Rightarrow> s_file_info option option) \<Rightarrow> bytes \<times> 'v \<Rightarrow> unit \<Rightarrow>
   (('d, 'b) folder_store, storage_error, unit + unit) op" where
  "index_entry lib job_id extract = (\<lambda>(k, v) _.
     bnd (lift_res (decoded ''decode'' (extract v))) (\<lambda>r.
     bnd (case r of None \<Rightarrow> ok () | Some fi \<Rightarrow> index_blocks lib job_id (sf_blocks fi)) (\<lambda>_.
       ok (Inl ()))))"

definition index_blocks_under_prefix ::
  "('d, 'v) slate \<Rightarrow> ('v, 'b) lib \<Rightarrow> u64 \<Rightarrow> bytes \<Rightarrow> ('v \<Rightarrow> s_file_info option option) \<Rightarrow>
   (('d, 'b) folder_store, storage_error, unit) op" where
  "index_blocks_under_prefix db lib job_id pre extract =
     bnd (on_db (db_scan_prefix db pre)) (\<lambda>(kvs, fin).
     bnd (for_iter kvs fin () (index_entry lib job_id extract)) (\<lambda>_.
       ok ()))"

record gc_filter =
  gf_job :: u64
  gf_epoch :: epoch
  gf_peer_floor :: "i64 option"
  gf_is_bottom :: bool
  gf_stats :: filter_stats

definition index_live ::
  "('d, 'v) slate \<Rightarrow> ('v, 'b) lib \<Rightarrow> u64 \<Rightarrow> epoch \<Rightarrow> (('d, 'b) folder_store, storage_error, i64 option) op" where
  "index_live db lib job_id epoch =
     bnd (index_blocks_under_prefix db lib job_id (inbox_key epoch [])
            (\<lambda>v. map_option inbox_file_info (dec_inbox lib v))) (\<lambda>_.
     bnd (index_blocks_under_prefix db lib job_id FILE_PREFIX
            (\<lambda>v. map_option file_file_info (dec_file lib v))) (\<lambda>_.
       compute_peer_floor db lib))"

text \<open>A job that fails while it is built is unregistered when its handle is dropped.\<close>

definition create_compaction_filter ::
  "('d, 'v) slate \<Rightarrow> ('v, 'b) lib \<Rightarrow> 'b \<Rightarrow> epoch \<Rightarrow> bool \<Rightarrow>
   (('d, 'b) folder_store, compaction_filter_error, gc_filter) op" where
  "create_compaction_filter db lib bloom0 epoch is_dest_last_run s =
     (let (job_id, gc) = register bloom0 bloom0 (fs_gc s)
      in case index_live db lib job_id epoch (s\<lparr>fs_gc := gc\<rparr>) of
           (Inl e, t) \<Rightarrow> (Inl (CreationError e), t\<lparr>fs_gc := unregister job_id (fs_gc t)\<rparr>)
         | (Inr peer_floor, t) \<Rightarrow>
             (Inr \<lparr>gf_job = job_id, gf_epoch = epoch, gf_peer_floor = peer_floor,
                gf_is_bottom = is_dest_last_run, gf_stats = filter_stats_default\<rparr>, t))"

section \<open>Filtering rows\<close>

datatype decision = Keep | Drop | Tombstone

definition prune_decision :: "gc_filter \<Rightarrow> decision" where
  "prune_decision f = (if gf_is_bottom f then Drop else Tombstone)"

text \<open>A counter that is bumped when a row is dropped, with the drop of its prefix, and one that is
  bumped together with the number of kept rows.\<close>

definition dropped_row :: "(filter_stats \<Rightarrow> filter_stats) \<Rightarrow> bytes \<Rightarrow> gc_filter \<Rightarrow> gc_filter" where
  "dropped_row bump key f = f\<lparr>gf_stats := record_dropped key (bump (gf_stats f))\<rparr>"

definition kept_row :: "(filter_stats \<Rightarrow> filter_stats) \<Rightarrow> gc_filter \<Rightarrow> gc_filter" where
  "kept_row bump f = f\<lparr>gf_stats := (bump (gf_stats f))\<lparr>rows_kept := rows_kept (bump (gf_stats f)) + 1\<rparr>\<rparr>"

definition below_floor :: "gc_filter \<Rightarrow> u64 \<Rightarrow> bool" where
  "below_floor f seq =
     (case gf_peer_floor f of None \<Rightarrow> False | Some fl \<Rightarrow> 0 \<le> fl \<and> int (unat seq) < fl)"

definition stale_deletion :: "('v, 'b) lib \<Rightarrow> gc_filter \<Rightarrow> 'v value_deletable \<Rightarrow> bool" where
  "stale_deletion lib f v =
     (case (gf_peer_floor f, v) of
        (Some fl, Value b) \<Rightarrow>
          (case dec_file lib b of
             Some file \<Rightarrow>
               (case file_file_info file of
                  Some fi \<Rightarrow> sf_deleted fi \<and> sf_sequence fi < fl
                | None \<Rightarrow> False)
           | None \<Rightarrow> False)
      | _ \<Rightarrow> False)"

definition gc_filter_row ::
  "('v \<Rightarrow> u64) \<Rightarrow> ('v, 'b) lib \<Rightarrow> 'b compaction_state \<Rightarrow> 'v row_entry \<Rightarrow> gc_filter \<Rightarrow>
   (compaction_filter_error + decision) \<times> gc_filter" where
  "gc_filter_row vlen lib gc entry f0 =
     (let key = re_key entry;
          f = f0\<lparr>gf_stats := record_seen vlen key entry (gf_stats f0)\<rparr>;
          job = gf_job f;
          prune = (\<lambda>bump. (Inr (prune_decision f), dropped_row bump key f));
          keep = (\<lambda>bump. (Inr Keep, kept_row bump f))
      in if prefix BLOCK_DATA_PREFIX key then
           (case parse_block_data_seq_key key of
              None \<Rightarrow> (Inl (FilterError ''corrupted bd key width/value''), f)
            | Some seq \<Rightarrow>
                if \<not> known_live_seq_contains lib job seq gc
                then prune (\<lambda>s. s\<lparr>blocks_dropped := blocks_dropped s + 1\<rparr>)
                else keep (\<lambda>s. s\<lparr>blocks_kept := blocks_kept s + 1\<rparr>))
         else case parse_block_pointer_key key of
           Some hash \<Rightarrow>
             if \<not> known_live_hash_contains lib job hash gc
             then prune (\<lambda>s. s\<lparr>refs_dropped := refs_dropped s + 1\<rparr>)
             else keep (\<lambda>s. s\<lparr>refs_kept := refs_kept s + 1\<rparr>)
         | None \<Rightarrow>
         (case parse_block_reverse_key key of
           Some (hash, _) \<Rightarrow>
             if \<not> known_live_hash_contains lib job hash gc
             then prune (\<lambda>s. s\<lparr>reverse_refs_tombstoned := reverse_refs_tombstoned s + 1\<rparr>)
             else keep (\<lambda>s. s\<lparr>reverse_refs_kept := reverse_refs_kept s + 1\<rparr>)
         | None \<Rightarrow>
         (case parse_inbox_key key of
           Some (epoch, _) \<Rightarrow>
             if epoch_less epoch (gf_epoch f)
             then prune (\<lambda>s. s\<lparr>inbox_tombstoned := inbox_tombstoned s + 1\<rparr>)
             else keep (\<lambda>s. s\<lparr>inbox_kept := inbox_kept s + 1\<rparr>)
         | None \<Rightarrow>
         (case parse_seq_key key of
           Some seq \<Rightarrow>
             if below_floor f seq
             then prune (\<lambda>s. s\<lparr>seqs_pruned := seqs_pruned s + 1\<rparr>)
             else keep (\<lambda>s. s\<lparr>seqs_kept := seqs_kept s + 1\<rparr>)
         | None \<Rightarrow>
         (case parse_file_key key of
           Some name \<Rightarrow>
             if stale_deletion lib f (re_value entry)
             then prune (\<lambda>s. s\<lparr>tombstones_pruned := tombstones_pruned s + 1\<rparr>)
             else keep (\<lambda>s. s\<lparr>files_kept := files_kept s + 1\<rparr>)
         | None \<Rightarrow> keep (\<lambda>s. s\<lparr>metadata_kept := metadata_kept s + 1\<rparr>))))))"

section \<open>The scheduler\<close>

datatype source_id = SstView nat | SortedRun u32

record segment =
  sg_prefix :: bytes
  sg_l0 :: "nat list"
  sg_compacted :: "u32 list"

record compaction_spec =
  cs_segment :: bytes
  cs_sources :: "source_id list"
  cs_destination :: "u32 option"

record compaction =
  co_active :: bool
  co_spec :: compaction_spec

record compactor_state =
  ct_compacted :: "u32 list"
  ct_segments :: "segment list"
  ct_recent :: "compaction list"

definition METADATA_MIN_L0 :: nat where "METADATA_MIN_L0 = 4"

definition u32_saturating_succ :: "u32 \<Rightarrow> u32" where
  "u32_saturating_succ a = (if a = - 1 then a else a + 1)"

definition retain_block_segment_specs :: "compaction_spec list \<Rightarrow> compaction_spec list" where
  "retain_block_segment_specs specs = filter (\<lambda>s. cs_segment s = BLOCK_SEGMENT_PREFIX) specs"

definition next_free_sr_id :: "u32 list \<Rightarrow> u32" where
  "next_free_sr_id taken = (case taken of [] \<Rightarrow> 0 | t # ts \<Rightarrow> u32_saturating_succ (foldl max t ts))"

definition active_specs :: "compactor_state \<Rightarrow> compaction_spec list" where
  "active_specs state = map co_spec (filter co_active (ct_recent state))"

fun propose_segments ::
  "bytes list \<Rightarrow> segment list \<Rightarrow> u32 \<Rightarrow> compaction_spec list \<Rightarrow> compaction_spec list" where
  "propose_segments active [] next_dest specs = specs"
| "propose_segments active (seg # segs) next_dest specs =
     (if sg_prefix seg = BLOCK_SEGMENT_PREFIX then propose_segments active segs next_dest specs
      else if sg_prefix seg \<in> set active then propose_segments active segs next_dest specs
      else if \<not> METADATA_MIN_L0 \<le> length (sg_l0 seg) \<and> \<not> 1 < length (sg_compacted seg)
      then propose_segments active segs next_dest specs
      else
        let sources = map SstView (sg_l0 seg) @ map SortedRun (sg_compacted seg);
            destination = (case sg_compacted seg of [] \<Rightarrow> next_dest | r # rs \<Rightarrow> foldl min r rs);
            next_dest' = (if sg_compacted seg = [] then u32_saturating_succ next_dest else next_dest)
        in propose_segments active segs next_dest'
             (specs @ [\<lparr>cs_segment = sg_prefix seg, cs_sources = sources, cs_destination = Some destination\<rparr>]))"

text \<open>The store is not published yet, or its database is closing: nothing is proposed.\<close>

definition propose :: "bool option \<Rightarrow> compaction_spec list \<Rightarrow> compactor_state \<Rightarrow> compaction_spec list" where
  "propose store_closing size_tiered_proposals state =
     (case store_closing of
        None \<Rightarrow> []
      | Some closing \<Rightarrow>
          if closing then []
          else
            let specs = retain_block_segment_specs size_tiered_proposals;
                active_segments = map cs_segment (active_specs state);
                next_dest = next_free_sr_id (ct_compacted state @ concat (map sg_compacted (ct_segments state)) @
                  List.map_filter cs_destination specs @ List.map_filter cs_destination (active_specs state))
            in propose_segments active_segments (ct_segments state) next_dest specs)"

end
