(* ===== verification/StoreSim.thy ===== *)
theory StoreSim
  imports FolderStore
begin

text \<open>
  Every operation of \<open>FolderStore\<close> on a lawful database is simulated by the same operation on
  the reference map: the lemmas \<open>*_sim\<close>.  Operations that only read are \<open>still\<close>: on the map
  they leave the state as it is, and their simulation needs no condition.  For operations
  that write, the simulation keeps an invariant \<open>I\<close> across a failed write provided that
  the state after the write satisfies it.
\<close>

definition store_view ::
  "('d \<Rightarrow> bytes \<rightharpoonup> 'v) \<Rightarrow> ('d, 'b) folder_store \<Rightarrow> (bytes \<rightharpoonup> 'v, 'b) folder_store" where
  "store_view A s = \<lparr>fs_db = A (fs_db s), fs_gc = fs_gc s, fs_blockseq = fs_blockseq s\<rparr>"

lemma store_view_sel [simp]:
  "fs_db (store_view A s) = A (fs_db s)" "fs_gc (store_view A s) = fs_gc s"
  "fs_blockseq (store_view A s) = fs_blockseq s"
  by (simp_all add: store_view_def)

lemma store_view_id: "(store_view A s)\<lparr>fs_db := A (fs_db s)\<rparr> = store_view A s"
  by (simp add: store_view_def)

lemma store_view_upd:
  "store_view A (s\<lparr>fs_db := d\<rparr>) = (store_view A s)\<lparr>fs_db := A d\<rparr>"
  "store_view A (s\<lparr>fs_gc := g\<rparr>) = (store_view A s)\<lparr>fs_gc := g\<rparr>"
  "store_view A (s\<lparr>fs_blockseq := q\<rparr>) = (store_view A s)\<lparr>fs_blockseq := q\<rparr>"
  by (simp_all add: store_view_def)

lemma store_view_same: "A d = A (fs_db s) \<Longrightarrow> store_view A (s\<lparr>fs_db := d\<rparr>) = store_view A s"
  by (simp add: store_view_def)

section \<open>Operations that leave the state alone\<close>

named_theorems still_rules \<open>operations that only read\<close>

definition still :: "('s, 'e, 'a) op \<Rightarrow> bool" where
  "still m \<longleftrightarrow> (\<forall>s. snd (m s) = s)"

lemma stillD: "still m \<Longrightarrow> m s = (r, t) \<Longrightarrow> t = s"
  by (metis still_def snd_conv)

lemma still_snd: "still m \<Longrightarrow> snd (m s) = s"
  by (simp add: still_def)

lemma still_basic [still_rules]:
  "still (ok x)" "still (err e)" "still (lift_res r)" "still (get_st f)"
  by (simp_all add: still_def op_simps)

lemma still_bnd [still_rules]:
  "still m \<Longrightarrow> (\<And>x. still (f x)) \<Longrightarrow> still (bnd m f)"
  unfolding still_def bnd_def by (auto split: prod.splits sum.splits) (metis snd_conv)+

lemma still_case [still_rules]:
  "still m \<Longrightarrow> still n \<Longrightarrow> still (if b then m else n)"
  "still m \<Longrightarrow> (\<And>x. still (f x)) \<Longrightarrow> still (case v of None \<Rightarrow> m | Some x \<Rightarrow> f x)"
  "(\<And>e. still (g e)) \<Longrightarrow> (\<And>x. still (f x)) \<Longrightarrow> still (case w of Inl e \<Rightarrow> g e | Inr x \<Rightarrow> f x)"
  "(\<And>a b. still (h a b)) \<Longrightarrow> still (case p of (a, b) \<Rightarrow> h a b)"
  by (simp, cases v, simp_all, cases w, simp_all, cases p, simp_all)

lemma still_prod_app [still_rules]:
  "(\<And>a b. still (h a b acc)) \<Longrightarrow> still ((case p of (a, b) \<Rightarrow> h a b) acc)"
  by (cases p) simp

lemma still_for_iter [still_rules]:
  "(\<And>kv acc. still (body kv acc)) \<Longrightarrow> still (for_iter kvs fin acc body)"
  by (induction kvs arbitrary: acc) (auto intro!: still_rules split: option.splits)

lemma on_db_map:
  "on_db (db_get map_slate k) c = (Inr (fs_db c k), c)"
  "on_db (db_write map_slate b) c = (Inr (), c\<lparr>fs_db := apply_batch b (fs_db c)\<rparr>)"
  "on_db (db_scan_prefix map_slate p) c = (Inr (entries_of (prefix p) (fs_db c), None), c)"
  "on_db (db_scan map_slate lo hi) c =
     (Inr (entries_of (\<lambda>k. lo \<le> k \<and> k < hi) (fs_db c), None), c)"
  "on_db (db_flush map_slate) c = (Inr (), c)"
  by (simp_all add: on_db_def)

lemma still_on_db [still_rules]:
  "still (on_db (db_get map_slate k))" "still (on_db (db_scan_prefix map_slate p))"
  "still (on_db (db_scan map_slate lo hi))" "still (on_db (db_flush map_slate))"
  by (simp_all add: still_def on_db_map)

lemma still_reads [still_rules]:
  "still (get_index_meta map_slate lib)" "still (get_remote_state map_slate lib dev)"
  "still (get_file_proto map_slate lib name)" "still (find_file_entry map_slate lib epoch name)"
  unfolding get_index_meta_def get_remote_state_def get_file_proto_def find_file_entry_def Let_def
  by (intro still_rules)+

lemma still_reads2 [still_rules]:
  "still (get_file map_slate lib name)" "still (all_files map_slate lib)"
  "still (compute_peer_floor map_slate lib)" "still (find_block_dir map_slate lib hash)"
  "still (resolve_block_data map_slate lib block)"
  unfolding get_file_def all_files_def compute_peer_floor_def find_block_dir_def
    resolve_block_data_def probe_reverse_ref_def
  by (intro still_rules)+

lemma still_files_since [still_rules]: "still (files_since map_slate lib since)"
  unfolding files_since_def by (intro still_rules)

lemma still_read_block [still_rules]: "still (read_block map_slate lib name hash)"
proof -
  have "still (read_block_loop map_slate lib hash bs)" for bs
    by (induction bs) (auto intro!: still_rules)
  then show ?thesis unfolding read_block_def by (intro still_rules)
qed

section \<open>Simulation of the database calls\<close>

lemma sim_get [sim_rules]:
  assumes "slate_laws db A" and "I c"
  shows "sim (store_view A) c I (on_db (db_get db k)) (on_db (db_get map_slate k))"
  unfolding sim_def
proof (intro allI impI)
  fix s r t assume c: "store_view A s = c" and run: "on_db (db_get db k) s = (r, t)"
  obtain r1 d where g: "db_get db k (fs_db s) = (r1, d)" by fastforce
  then have "A d = A (fs_db s)" "r1 = Inr (A (fs_db s) k) \<or> (\<exists>e. r1 = Inl e)"
    using assms(1) unfolding slate_laws_def get_law_def by blast+
  moreover have "r = map_sum slate_err id r1" "t = s\<lparr>fs_db := d\<rparr>"
    using run g by (auto simp: on_db_def)
  ultimately show "(r, store_view A t) = on_db (db_get map_slate k) c
      \<or> (\<exists>e. r = Inl e \<and> io_err e \<and> I (store_view A t))"
    using c assms(2) by (auto simp: on_db_map store_view_same)
qed

lemma sim_write:
  assumes "slate_laws db A" and "I c" and "I (c\<lparr>fs_db := apply_batch b (fs_db c)\<rparr>)"
  shows "sim (store_view A) c I (on_db (db_write db b)) (on_db (db_write map_slate b))"
  unfolding sim_def
proof (intro allI impI)
  fix s r t assume c: "store_view A s = c" and run: "on_db (db_write db b) s = (r, t)"
  obtain r1 d where g: "db_write db b (fs_db s) = (r1, d)" by fastforce
  then have "r1 = Inr () \<and> A d = apply_batch b (A (fs_db s)) \<or>
      (\<exists>e. r1 = Inl e) \<and> (A d = A (fs_db s) \<or> A d = apply_batch b (A (fs_db s)))"
    using assms(1) unfolding slate_laws_def write_law_def by blast
  moreover have "r = map_sum slate_err id r1" "t = s\<lparr>fs_db := d\<rparr>"
    using run g by (auto simp: on_db_def)
  ultimately show "(r, store_view A t) = on_db (db_write map_slate b) c
      \<or> (\<exists>e. r = Inl e \<and> io_err e \<and> I (store_view A t))"
    using c assms(2,3) by (auto simp: on_db_map store_view_upd store_view_id)
qed

lemma sim_flush [sim_rules]:
  assumes "slate_laws db A" and "I c"
  shows "sim (store_view A) c I (on_db (db_flush db)) (on_db (db_flush map_slate))"
  unfolding sim_def
proof (intro allI impI)
  fix s r t assume c: "store_view A s = c" and run: "on_db (db_flush db) s = (r, t)"
  obtain r1 d where g: "db_flush db (fs_db s) = (r1, d)" by fastforce
  then have "A d = A (fs_db s)"
    using assms(1) unfolding slate_laws_def flush_law_def by blast
  moreover have "r = map_sum slate_err id r1" "t = s\<lparr>fs_db := d\<rparr>"
    using run g by (auto simp: on_db_def)
  ultimately show "(r, store_view A t) = on_db (db_flush map_slate) c
      \<or> (\<exists>e. r = Inl e \<and> io_err e \<and> I (store_view A t))"
    using c assms(2) by (cases r1) (auto simp: on_db_map store_view_same)
qed

text \<open>A scan and the loop over its iterator.\<close>

definition scan_call ::
  "('d, 'v) slate \<Rightarrow> ('d \<Rightarrow> bytes \<rightharpoonup> 'v) \<Rightarrow> ('d, slate_error, 'v iter) op \<Rightarrow> (bytes \<Rightarrow> bool) \<Rightarrow> bool" where
  "scan_call db A m P \<longleftrightarrow> (\<forall>d r d'. m d = (r, d') \<longrightarrow>
     A d' = A d \<and> (\<forall>it. r = Inr it \<longrightarrow> iter_ok P (A d) it))"

lemma scan_calls:
  assumes "slate_laws db A"
  shows "scan_call db A (db_scan_prefix db p) (prefix p)"
    "scan_call db A (db_scan db lo hi) (\<lambda>k. lo \<le> k \<and> k < hi)"
  using assms unfolding slate_laws_def scan_law_def scan_call_def by simp_all

lemma sim_scan_loop:
  assumes "scan_call db A m P" and I: "I c"
    and n: "on_db n c = (Inr (entries_of P (fs_db c), None), c)"
    and body: "\<And>kv acc. sim (store_view A) c I (body kv acc) (body' kv acc)"
    and calm: "\<And>kv acc. still (body' kv acc)"
    and k: "\<And>r. for_iter (entries_of P (fs_db c)) None acc body' c = (Inr r, c) \<Longrightarrow>
      sim (store_view A) c I (k r) (k' r)"
  shows "sim (store_view A) c I
    (bnd (on_db m) (\<lambda>(kvs, fin). bnd (for_iter kvs fin acc body) k))
    (bnd (on_db n) (\<lambda>(kvs, fin). bnd (for_iter kvs fin acc body') k'))"
  unfolding sim_def
proof (intro allI impI)
  fix s r t
  assume c: "store_view A s = c"
    and run: "bnd (on_db m) (\<lambda>(kvs, fin). bnd (for_iter kvs fin acc body) k) s = (r, t)"
  let ?ref = "bnd (for_iter (entries_of P (fs_db c)) None acc body') k'"
  have ref: "bnd (on_db n) (\<lambda>(kvs, fin). bnd (for_iter kvs fin acc body') k') c = ?ref c"
    using n by (simp add: bnd_def)
  obtain r1 d where g: "m (fs_db s) = (r1, d)" by fastforce
  then have d: "A d = A (fs_db s)" "\<And>it. r1 = Inr it \<Longrightarrow> iter_ok P (A (fs_db s)) it"
    using assms(1) unfolding scan_call_def by blast+
  have call: "on_db m s = (map_sum slate_err id r1, s\<lparr>fs_db := d\<rparr>)"
    and same: "store_view A (s\<lparr>fs_db := d\<rparr>) = c" using g c d by (auto simp: on_db_def store_view_same)
  show "(r, store_view A t) = bnd (on_db n) (\<lambda>(kvs, fin). bnd (for_iter kvs fin acc body') k') c
      \<or> (\<exists>e. r = Inl e \<and> io_err e \<and> I (store_view A t))"
  proof (cases r1)
    case (Inl e)
    with run call have "r = Inl (slate_err e)" "t = s\<lparr>fs_db := d\<rparr>" by (auto simp: bnd_def)
    then show ?thesis using same I by simp
  next
    case (Inr it)
    obtain kvs fin where it: "it = (kvs, fin)" by fastforce
    have ok: "prefix kvs (entries_of P (fs_db c))" "fin = None \<Longrightarrow> kvs = entries_of P (fs_db c)"
      using d(2) [OF Inr] it c [symmetric] by (auto simp: iter_ok_def)
    have "sim (store_view A) c I (bnd (for_iter kvs fin acc body) k) ?ref"
    proof (rule sim_bnd)
      show "sim (store_view A) c I (for_iter kvs fin acc body)
          (for_iter (entries_of P (fs_db c)) None acc body')"
        by (rule sim_for_iter [OF body still_snd [OF calm] I ok])
      fix x c' assume run': "for_iter (entries_of P (fs_db c)) None acc body' c = (Inr x, c')"
      have "still (for_iter (entries_of P (fs_db c)) None acc body')"
        by (rule still_for_iter) (rule calm)
      then have "c' = c" using run' by (rule stillD)
      then show "sim (store_view A) c' I (k x) (k' x)" using k run' by simp
    qed
    moreover have "bnd (for_iter kvs fin acc body) k (s\<lparr>fs_db := d\<rparr>) = (r, t)"
      using run call Inr it by (simp add: bnd_def)
    ultimately show ?thesis unfolding ref using same by (auto simp: sim_def)
  qed
qed

lemma sim_scan_prefix_loop:
  assumes "slate_laws db A" and "I c"
    and "\<And>kv acc. sim (store_view A) c I (body kv acc) (body' kv acc)"
    and "\<And>kv acc. still (body' kv acc)" and "\<And>r. sim (store_view A) c I (k r) (k' r)"
  shows "sim (store_view A) c I
    (bnd (on_db (db_scan_prefix db p)) (\<lambda>(kvs, fin). bnd (for_iter kvs fin acc body) k))
    (bnd (on_db (db_scan_prefix map_slate p)) (\<lambda>(kvs, fin). bnd (for_iter kvs fin acc body') k'))"
  by (rule sim_scan_loop [where P = "prefix p" and db = db])
    (use assms scan_calls in \<open>auto simp: on_db_map\<close>)

lemma sim_scan_range_loop:
  assumes "slate_laws db A" and "I c"
    and "\<And>kv acc. sim (store_view A) c I (body kv acc) (body' kv acc)"
    and "\<And>kv acc. still (body' kv acc)" and "\<And>r. sim (store_view A) c I (k r) (k' r)"
  shows "sim (store_view A) c I
    (bnd (on_db (db_scan db lo hi)) (\<lambda>(kvs, fin). bnd (for_iter kvs fin acc body) k))
    (bnd (on_db (db_scan map_slate lo hi)) (\<lambda>(kvs, fin). bnd (for_iter kvs fin acc body') k'))"
  by (rule sim_scan_loop [where P = "\<lambda>k. lo \<le> k \<and> k < hi" and db = db])
    (use assms scan_calls in \<open>auto simp: on_db_map\<close>)

lemma sim_bnd_still [sim_rules]:
  assumes "still f" and "sim \<alpha> c I m f" and "\<And>x. f c = (Inr x, c) \<Longrightarrow> sim \<alpha> c I (k x) (g x)"
  shows "sim \<alpha> c I (bnd m k) (bnd f g)"
  using assms by (intro sim_bnd) (auto dest: stillD)

lemma sim_prod_app [sim_rules]:
  "(\<And>a b. sim \<alpha> c I (k a b acc) (g a b acc)) \<Longrightarrow>
   sim \<alpha> c I ((case p of (a, b) \<Rightarrow> k a b) acc) ((case p of (a, b) \<Rightarrow> g a b) acc)"
  by (cases p) simp

section \<open>Simulation of the reading operations\<close>

lemma sim_reads [sim_rules]:
  assumes "slate_laws db A" and "I c"
  shows "sim (store_view A) c I (get_index_meta db lib) (get_index_meta map_slate lib)"
    "sim (store_view A) c I (get_remote_state db lib dev) (get_remote_state map_slate lib dev)"
    "sim (store_view A) c I (get_file_proto db lib name) (get_file_proto map_slate lib name)"
    "sim (store_view A) c I (find_file_entry db lib epoch name)
       (find_file_entry map_slate lib epoch name)"
    "sim (store_view A) c I (resolve_block_data db lib block)
       (resolve_block_data map_slate lib block)"
  unfolding get_index_meta_def get_remote_state_def get_file_proto_def find_file_entry_def
    resolve_block_data_def Let_def
  by (intro sim_rules still_rules assms)+

lemma sim_get_file [sim_rules]:
  assumes "slate_laws db A" and "I c"
  shows "sim (store_view A) c I (get_file db lib name) (get_file map_slate lib name)"
  unfolding get_file_def by (intro sim_rules still_rules assms)

lemma sim_all_files:
  assumes "slate_laws db A" and "I c"
  shows "sim (store_view A) c I (all_files db lib) (all_files map_slate lib)"
  unfolding all_files_def
  by (rule sim_scan_prefix_loop, rule assms(1), rule assms(2))
    (intro sim_rules still_rules)+

lemma sim_files_since:
  assumes "slate_laws db A" and "I c"
  shows "sim (store_view A) c I (files_since db lib since) (files_since map_slate lib since)"
  unfolding files_since_def
  by (rule sim_bnd_still, intro still_rules, rule sim_lift,
      rule sim_scan_range_loop, rule assms(1), rule assms(2))
    (intro sim_rules still_rules assms)+

lemma sim_compute_peer_floor:
  assumes "slate_laws db A" and "I c"
  shows "sim (store_view A) c I (compute_peer_floor db lib) (compute_peer_floor map_slate lib)"
  unfolding compute_peer_floor_def
  by (rule sim_scan_prefix_loop, rule assms(1), rule assms(2))
    (intro sim_rules still_rules)+

lemma sim_find_block_dir [sim_rules]:
  assumes "slate_laws db A" and "I c"
  shows "sim (store_view A) c I (find_block_dir db lib hash) (find_block_dir map_slate lib hash)"
  unfolding find_block_dir_def probe_reverse_ref_def
  by (rule sim_bnd_still, intro still_rules, rule sim_get_st, simp, rule sim_if, rule sim_ok,
      rule sim_scan_prefix_loop, rule assms(1), rule assms(2))
    (intro sim_rules still_rules assms)+

lemma sim_read_block:
  assumes "slate_laws db A" and "I c"
  shows "sim (store_view A) c I (read_block db lib name hash) (read_block map_slate lib name hash)"
proof -
  have "sim (store_view A) c I (read_block_loop db lib hash bs) (read_block_loop map_slate lib hash bs)"
    for bs by (induction bs) (auto intro!: sim_rules still_rules assms)
  then show ?thesis unfolding read_block_def by (intro sim_rules still_rules assms)
qed

section \<open>Simulation of the writing operations\<close>

text \<open>
  \<open>simw\<close>: the simulation holds if the state the reference run ends in satisfies the
  invariant.  An operation that reads, writes once and then only computes has this property,
  with no other condition, because its one write leads to that final state.
\<close>

named_theorems simw_rules \<open>structural rules for operations with one write\<close>

definition simw ::
  "('s \<Rightarrow> 'c) \<Rightarrow> 'c \<Rightarrow> ('c \<Rightarrow> bool) \<Rightarrow>
   ('s, storage_error, 'a) op \<Rightarrow> ('c, storage_error, 'a) op \<Rightarrow> bool" where
  "simw \<alpha> c I m f \<longleftrightarrow> (I (snd (f c)) \<longrightarrow> sim \<alpha> c I m f)"

lemma simwD: "simw \<alpha> c I m f \<Longrightarrow> I (snd (f c)) \<Longrightarrow> sim \<alpha> c I m f"
  by (simp add: simw_def)

lemma simw_sim: "sim \<alpha> c I m f \<Longrightarrow> simw \<alpha> c I m f"
  by (simp add: simw_def)

lemma simw_basic [simw_rules]:
  "simw \<alpha> c I (ok x) (ok x)" "simw \<alpha> c I (err e) (err e)" "simw \<alpha> c I (lift_res r) (lift_res r)"
  by (simp_all add: simw_sim sim_rules)

lemma simw_bnd:
  assumes "sim \<alpha> c I m f" and "\<And>x c'. f c = (Inr x, c') \<Longrightarrow> simw \<alpha> c' I (k x) (g x)"
  shows "simw \<alpha> c I (bnd m k) (bnd f g)"
  unfolding simw_def
proof
  assume "I (snd (bnd f g c))"
  then show "sim \<alpha> c I (bnd m k) (bnd f g)"
    using assms by (intro sim_bnd) (auto simp: bnd_def simw_def)
qed

lemma simw_bnd_still [simw_rules]:
  assumes "still f" and "sim \<alpha> c I m f" and "\<And>x. f c = (Inr x, c) \<Longrightarrow> simw \<alpha> c I (k x) (g x)"
  shows "simw \<alpha> c I (bnd m k) (bnd f g)"
  using assms by (intro simw_bnd) (auto dest: stillD)

lemma simw_case [simw_rules]:
  "(b \<Longrightarrow> simw \<alpha> c I m f) \<Longrightarrow> (\<not> b \<Longrightarrow> simw \<alpha> c I m' f') \<Longrightarrow>
   simw \<alpha> c I (if b then m else m') (if b then f else f')"
  "(v = None \<Longrightarrow> simw \<alpha> c I m f) \<Longrightarrow> (\<And>x. v = Some x \<Longrightarrow> simw \<alpha> c I (k x) (g x)) \<Longrightarrow>
   simw \<alpha> c I (case v of None \<Rightarrow> m | Some x \<Rightarrow> k x) (case v of None \<Rightarrow> f | Some x \<Rightarrow> g x)"
  by (simp, cases v, simp_all)

lemma simw_case2 [simw_rules]:
  "(\<And>e. w = Inl e \<Longrightarrow> simw \<alpha> c I (m e) (f e)) \<Longrightarrow> (\<And>x. w = Inr x \<Longrightarrow> simw \<alpha> c I (k x) (g x)) \<Longrightarrow>
   simw \<alpha> c I (case w of Inl e \<Rightarrow> m e | Inr x \<Rightarrow> k x) (case w of Inl e \<Rightarrow> f e | Inr x \<Rightarrow> g x)"
  "(\<And>a b. p = (a, b) \<Longrightarrow> simw \<alpha> c I (h a b) (l a b)) \<Longrightarrow>
   simw \<alpha> c I (case p of (a, b) \<Rightarrow> h a b) (case p of (a, b) \<Rightarrow> l a b)"
  by (cases w, simp_all, cases p, simp_all)

lemma simw_write [simw_rules]:
  assumes "slate_laws db A" and "I c"
  shows "simw (store_view A) c I (write_non_durable db b) (write_non_durable map_slate b)"
    "simw (store_view A) c I (put_non_durable db k v) (put_non_durable map_slate k v)"
  unfolding simw_def write_non_durable_def put_non_durable_def
  using assms by (auto intro!: sim_write simp: on_db_map)

text \<open>The one write, followed by steps that do not matter to the invariant.\<close>

lemma simw_write_bnd [simw_rules]:
  assumes "slate_laws db A" and "I c" and "\<And>c'. I (snd (g () c')) \<longleftrightarrow> I c'"
    and "\<And>c'. sim (store_view A) c' I (k ()) (g ())"
  shows "simw (store_view A) c I (bnd (write_non_durable db b) k) (bnd (write_non_durable map_slate b) g)"
  unfolding simw_def write_non_durable_def
proof
  assume "I (snd (bnd (on_db (db_write map_slate b)) g c))"
  then have "I (c\<lparr>fs_db := apply_batch b (fs_db c)\<rparr>)" using assms(3) by (simp add: bnd_def on_db_map)
  then show "sim (store_view A) c I (bnd (on_db (db_write db b)) k) (bnd (on_db (db_write map_slate b)) g)"
    using assms by (intro sim_bnd sim_write) auto
qed

lemma simw_commit [simw_rules]:
  assumes "slate_laws db A" and "I c"
  shows "simw (store_view A) c I (commit_with_new_seq db lib n stored batch)
    (commit_with_new_seq map_slate lib n stored batch)"
proof -
  have tail: "snd (bnd (lift_res r) (\<lambda>f. ok (q, f)) c') = c'" for r :: "storage_error + file_info"
    and q :: i64 and c' by (simp add: bnd_def op_simps split: sum.splits)
  show ?thesis
    unfolding commit_with_new_seq_def Let_def
    by (intro simw_rules sim_rules still_rules assms) (simp add: tail)
qed

text \<open>A commit, followed by steps that do not matter to the invariant.\<close>

lemma simw_then:
  assumes "simw \<alpha> c I m f" and "\<And>x c'. I (snd (g x c')) \<longleftrightarrow> I c'"
    and "\<And>x c'. sim \<alpha> c' I (k x) (g x)"
  shows "simw \<alpha> c I (bnd m k) (bnd f g)"
  unfolding simw_def
proof
  assume "I (snd (bnd f g c))"
  then have "I (snd (f c))" using assms(2) by (auto simp: bnd_def split: prod.splits sum.splits)
  then show "sim \<alpha> c I (bnd m k) (bnd f g)"
    using assms by (intro sim_bnd) (auto simp: simw_def)
qed

lemma simw_ops:
  assumes "slate_laws db A" and "I c"
  shows "simw (store_view A) c I (put_file db lib f) (put_file map_slate lib f)"
    "simw (store_view A) c I (stage_file db lib e f) (stage_file map_slate lib e f)"
    "simw (store_view A) c I (put_remote_state db lib d st) (put_remote_state map_slate lib d st)"
  unfolding put_file_def stage_file_def put_remote_state_def
  by (intro simw_then simw_rules sim_rules assms; simp add: op_simps case_prod_beta)+

lemma simw_scan_prefix_loop:
  assumes "slate_laws db A" and "I c"
    and "\<And>kv acc. sim (store_view A) c I (body kv acc) (body' kv acc)"
    and "\<And>kv acc. still (body' kv acc)" and k: "\<And>r. simw (store_view A) c I (k r) (k' r)"
  shows "simw (store_view A) c I
    (bnd (on_db (db_scan_prefix db p)) (\<lambda>(kvs, fin). bnd (for_iter kvs fin acc body) k))
    (bnd (on_db (db_scan_prefix map_slate p)) (\<lambda>(kvs, fin). bnd (for_iter kvs fin acc body') k'))"
  unfolding simw_def
proof
  assume I: "I (snd (bnd (on_db (db_scan_prefix map_slate p))
    (\<lambda>(kvs, fin). bnd (for_iter kvs fin acc body') k') c))"
  show "sim (store_view A) c I
    (bnd (on_db (db_scan_prefix db p)) (\<lambda>(kvs, fin). bnd (for_iter kvs fin acc body) k))
    (bnd (on_db (db_scan_prefix map_slate p)) (\<lambda>(kvs, fin). bnd (for_iter kvs fin acc body') k'))"
  proof (rule sim_scan_loop [where P = "prefix p" and db = db])
    fix r assume "for_iter (entries_of (prefix p) (fs_db c)) None acc body' c = (Inr r, c)"
    then have "I (snd (k' r c))" using I by (simp add: bnd_def on_db_map)
    with k [of r] show "sim (store_view A) c I (k r) (k' r)" by (rule simwD)
  qed (use assms scan_calls in \<open>auto simp: on_db_map\<close>)
qed

lemma simw_complete_file:
  assumes "slate_laws db A" and "I c"
  shows "simw (store_view A) c I (complete_file db lib e n ver) (complete_file map_slate lib e n ver)"
proof -
  have tail: "snd ((case x of (_, f) \<Rightarrow> ok (Some f)) c') = c'" for x :: "i64 \<times> file_info" and c'
    by (simp add: op_simps case_prod_beta)
  have commit: "simw (store_view A) c I
      (bnd (commit_with_new_seq db lib n st b) (\<lambda>(_, committed). ok (Some committed)))
      (bnd (commit_with_new_seq map_slate lib n st b) (\<lambda>(_, committed). ok (Some committed)))" for st b
    by (intro simw_then simw_commit sim_rules assms) (simp only: tail)
  show ?thesis unfolding complete_file_def Let_def
    by (intro simw_rules sim_rules still_rules commit assms)
qed

lemma simw_gc_inbox:
  assumes "slate_laws db A" and "I c"
  shows "simw (store_view A) c I (gc_inbox db e) (gc_inbox map_slate e)"
  unfolding gc_inbox_def
  by (rule simw_scan_prefix_loop [where I = I and c = c, OF assms])
    (intro simw_rules sim_rules still_rules assms | simp add: op_simps)+

lemma simw_put_file_with_carry:
  assumes "slate_laws db A" and "I c" and gc: "\<And>c g. I (c\<lparr>fs_gc := g\<rparr>) \<longleftrightarrow> I c"
  shows "simw (store_view A) c I (put_file_with_carry db lib f from)
    (put_file_with_carry map_slate lib f from)"
proof -
  have commit: "simw (store_view A) c I
      (bnd (commit_with_new_seq db lib n st b) (\<lambda>(seq, _). bnd (mod_st (\<lambda>s. s\<lparr>fs_gc := h (fs_gc s)\<rparr>)) (\<lambda>_. ok seq)))
      (bnd (commit_with_new_seq map_slate lib n st b) (\<lambda>(seq, _). bnd (mod_st (\<lambda>s. s\<lparr>fs_gc := h (fs_gc s)\<rparr>)) (\<lambda>_. ok seq)))"
    for n st b h
    by (intro simw_then simw_commit sim_prod sim_bnd sim_mod_st sim_rules assms)
      (simp_all add: bnd_def op_simps case_prod_beta gc store_view_upd)
  show ?thesis unfolding put_file_with_carry_def Let_def
    by (intro simw_rules sim_rules still_rules assms commit)
qed

lemma simw_reuse_block:
  assumes "slate_laws db A" and "I c" and gc: "\<And>c g. I (c\<lparr>fs_gc := g\<rparr>) \<longleftrightarrow> I c"
  shows "simw (store_view A) c I (reuse_block db lib e n h) (reuse_block map_slate lib e n h)"
  unfolding reuse_block_def
  by (intro simw_rules sim_rules still_rules sim_bnd sim_mod_st assms)
    (simp_all add: bnd_def op_simps gc store_view_upd)

end
