(* ===== verification/StoreAbs.thy ===== *)
theory StoreAbs
  imports StoreSim
begin

text \<open>
  The abstract state of a folder: typed maps in place of encoded keys and values.  \<open>astore_of\<close>
  is the abstraction function from the contents of the database, \<open>wf_view\<close> says that the
  database holds nothing but well-formed entries, and the lemmas \<open>astore_of_*\<close> show that each
  kind of write of the store is one update of one typed map.  The operations of the store,
  run on the reference map, are then computed on the abstract state.
\<close>

section \<open>Keys as constructors\<close>

definition seqk :: "i64 \<Rightarrow> bytes" where
  "seqk s = ''ms'' @ to_be_bytes (word_of_int s)"

definition in_seq :: "i64 \<Rightarrow> bool" where
  "in_seq s \<longleftrightarrow> 0 \<le> s \<and> s \<le> i64_max"

lemma seq_key_seqk: "in_seq s \<Longrightarrow> seq_key s = Inr (seqk s)"
  by (simp add: seq_key_def seqk_def in_seq_def)

lemma seqk_eq: "in_seq s \<Longrightarrow> in_seq t \<Longrightarrow> seqk s = seqk t \<longleftrightarrow> s = t"
  using seq_key_order [of s t] seq_key_order [of t s]
  by (auto simp: in_seq_def seq_key_def seqk_def)

lemma take_2_seqk: "take 2 (seqk s) = SEQ_PREFIX"
  by (simp add: seqk_def SEQ_PREFIX_def)

lemma take_2_neq: "take 2 a \<noteq> take 2 b \<Longrightarrow> a \<noteq> b"
  by auto

lemma key_neq:
  shows "file_key n \<noteq> seqk s" "file_key n \<noteq> inbox_key e m"
    "file_key n \<noteq> IX_KEY" "file_key n \<noteq> device_key dev"
    "file_key n \<noteq> block_data_seq_key q" "file_key n \<noteq> block_pointer_key d h"
    "file_key n \<noteq> block_reverse_key h' m'" "seqk s \<noteq> inbox_key e m"
    "seqk s \<noteq> IX_KEY" "seqk s \<noteq> device_key dev"
    "seqk s \<noteq> block_data_seq_key q" "seqk s \<noteq> block_pointer_key d h"
    "seqk s \<noteq> block_reverse_key h' m'" "inbox_key e m \<noteq> IX_KEY"
    "inbox_key e m \<noteq> device_key dev" "inbox_key e m \<noteq> block_data_seq_key q"
    "inbox_key e m \<noteq> block_pointer_key d h" "inbox_key e m \<noteq> block_reverse_key h' m'"
    "IX_KEY \<noteq> device_key dev" "IX_KEY \<noteq> block_data_seq_key q"
    "IX_KEY \<noteq> block_pointer_key d h" "IX_KEY \<noteq> block_reverse_key h' m'"
    "device_key dev \<noteq> block_data_seq_key q" "device_key dev \<noteq> block_pointer_key d h"
    "device_key dev \<noteq> block_reverse_key h' m'" "block_data_seq_key q \<noteq> block_pointer_key d h"
    "block_data_seq_key q \<noteq> block_reverse_key h' m'" "block_pointer_key d h \<noteq> block_reverse_key h' m'"
  by (rule take_2_neq, simp add: key_tags take_2_seqk tag_defs)+

lemmas key_neqs [simp] = key_neq key_neq [symmetric]

lemma file_key_eq: "good_name m \<Longrightarrow> good_name n \<Longrightarrow> file_key m = file_key n \<longleftrightarrow> m = n"
  by (rule file_keys.enc_eq_iff)

lemma inbox_key_eq:
  "wf_epoch e \<Longrightarrow> good_name m \<Longrightarrow> wf_epoch f \<Longrightarrow> good_name n \<Longrightarrow>
   inbox_key e m = inbox_key f n \<longleftrightarrow> e = f \<and> m = n"
  using inbox_keys.enc_eq_iff [of "(e, m)" "(f, n)"] by simp

lemma reverse_key_eq:
  "length g = HASH_LEN \<Longrightarrow> good_name m \<Longrightarrow> length h = HASH_LEN \<Longrightarrow> good_name n \<Longrightarrow>
   block_reverse_key g m = block_reverse_key h n \<longleftrightarrow> g = h \<and> m = n"
  using reverse_keys.enc_eq_iff [of "(g, m)" "(h, n)"] by simp

lemma pointer_key_eq:
  "utf8_valid c \<Longrightarrow> length g = HASH_LEN \<Longrightarrow> utf8_valid d \<Longrightarrow> length h = HASH_LEN \<Longrightarrow>
   block_pointer_key c g = block_pointer_key d h \<longleftrightarrow> c = d \<and> g = h"
  using pointer_keys.enc_eq_iff [of "(c, g)" "(d, h)"] by simp

lemma data_key_eq:
  "MIN_BLOCK_SEQ \<le> p \<Longrightarrow> MIN_BLOCK_SEQ \<le> q \<Longrightarrow>
   block_data_seq_key p = block_data_seq_key q \<longleftrightarrow> p = q"
  by (rule data_keys.enc_eq_iff)

lemma device_key_eq: "device_key a = device_key b \<longleftrightarrow> a = b"
  by (simp add: device_key_def)

lemma good_dirname: "good_name n \<Longrightarrow> utf8_valid (dirname n)"
  using split_name_good [of n] by (cases "split_name n") (simp add: dirname_def)

lemmas key_eqs = file_key_eq inbox_key_eq reverse_key_eq pointer_key_eq data_key_eq device_key_eq
  seqk_eq

section \<open>The abstract state\<close>

record astore =
  a_files :: "bytes \<rightharpoonup> s_file_info"
  a_seqs :: "i64 \<rightharpoonup> bytes"
  a_inbox :: "epoch \<times> bytes \<rightharpoonup> s_file_info"
  a_meta :: folder_index_meta
  a_remote :: "bytes \<rightharpoonup> remote_index_state"
  a_data :: "u64 \<rightharpoonup> bytes"
  a_ptr :: "bytes \<times> bytes \<rightharpoonup> block_ref"
  a_rev :: "(bytes \<times> bytes) set"

definition file_val :: "('v, 'b) lib \<Rightarrow> 'v \<Rightarrow> s_file_info option" where
  "file_val lib v = Option.bind (dec_file lib v) file_file_info"

definition inbox_val :: "('v, 'b) lib \<Rightarrow> 'v \<Rightarrow> s_file_info option" where
  "inbox_val lib v = Option.bind (dec_inbox lib v) inbox_file_info"

text \<open>A lookup at the keys of one class.\<close>

definition lookup_at :: "('k \<Rightarrow> bool) \<Rightarrow> ('k \<Rightarrow> bytes) \<Rightarrow> ('v \<Rightarrow> 'x option) \<Rightarrow> (bytes \<rightharpoonup> 'v) \<Rightarrow> 'k \<rightharpoonup> 'x" where
  "lookup_at good key dec V x = (if good x then Option.bind (V (key x)) dec else None)"

definition ok_inbox :: "epoch \<times> bytes \<Rightarrow> bool" where
  "ok_inbox x \<longleftrightarrow> wf_epoch (fst x) \<and> good_name (snd x)"

definition ok_ptr :: "bytes \<times> bytes \<Rightarrow> bool" where
  "ok_ptr x \<longleftrightarrow> utf8_valid (fst x) \<and> length (snd x) = HASH_LEN"

definition ok_rev :: "bytes \<times> bytes \<Rightarrow> bool" where
  "ok_rev x \<longleftrightarrow> length (fst x) = HASH_LEN \<and> good_name (snd x)"

definition astore_of :: "('v, 'b) lib \<Rightarrow> (bytes \<rightharpoonup> 'v) \<Rightarrow> astore" where
  "astore_of lib V =
     \<lparr>a_files = lookup_at good_name file_key (file_val lib) V,
      a_seqs = lookup_at in_seq seqk (Some \<circ> unraw lib) V,
      a_inbox = lookup_at ok_inbox (case_prod inbox_key) (inbox_val lib) V,
      a_meta = (case Option.bind (V IX_KEY) (dec_meta lib) of Some m \<Rightarrow> m | None \<Rightarrow> default_index_meta),
      a_remote = lookup_at (\<lambda>_. True) device_key (dec_remote lib) V,
      a_data = lookup_at (\<lambda>q. MIN_BLOCK_SEQ \<le> q) block_data_seq_key (Some \<circ> unraw lib) V,
      a_ptr = lookup_at ok_ptr (case_prod block_pointer_key) (dec_ref lib) V,
      a_rev = {x. ok_rev x \<and> V (case_prod block_reverse_key x) \<noteq> None}\<rparr>"

text \<open>The entries the store writes.\<close>

inductive entry_ok :: "('v, 'b) lib \<Rightarrow> bytes \<Rightarrow> 'v \<Rightarrow> bool" for lib where
  e_file: "good_name n \<Longrightarrow> file_val lib v = Some fi \<Longrightarrow> entry_ok lib (file_key n) v"
| e_seq: "in_seq s \<Longrightarrow> good_name (unraw lib v) \<Longrightarrow> entry_ok lib (seqk s) v"
| e_inbox: "wf_epoch e \<Longrightarrow> good_name n \<Longrightarrow> inbox_val lib v = Some fi \<Longrightarrow>
    entry_ok lib (inbox_key e n) v"
| e_meta: "dec_meta lib v = Some m \<Longrightarrow> entry_ok lib IX_KEY v"
| e_remote: "dec_remote lib v = Some r \<Longrightarrow> entry_ok lib (device_key d) v"
| e_data: "MIN_BLOCK_SEQ \<le> q \<Longrightarrow> entry_ok lib (block_data_seq_key q) v"
| e_ptr: "utf8_valid d \<Longrightarrow> length h = HASH_LEN \<Longrightarrow> dec_ref lib v = Some r \<Longrightarrow>
    entry_ok lib (block_pointer_key d h) v"
| e_rev: "length h = HASH_LEN \<Longrightarrow> good_name n \<Longrightarrow> entry_ok lib (block_reverse_key h n) v"

definition wf_view :: "('v, 'b) lib \<Rightarrow> (bytes \<rightharpoonup> 'v) \<Rightarrow> bool" where
  "wf_view lib V \<longleftrightarrow> finite (dom V) \<and> (\<forall>k v. V k = Some v \<longrightarrow> entry_ok lib k v)"

lemma wf_view_put: "wf_view lib V \<Longrightarrow> entry_ok lib k v \<Longrightarrow> wf_view lib (V(k \<mapsto> v))"
  by (simp add: wf_view_def)

lemma wf_view_del: "wf_view lib V \<Longrightarrow> wf_view lib (V(k := None))"
  by (simp add: wf_view_def)

lemma wf_view_empty [simp]: "wf_view lib Map.empty"
  by (simp add: wf_view_def)

text \<open>Which entry a key of a given class can hold.\<close>

lemma entry_ok_tag: "entry_ok lib k v \<Longrightarrow>
  take 2 k \<in> {FILE_PREFIX, SEQ_PREFIX, INBOX_PREFIX, IX_KEY, DEVICE_PREFIX, BLOCK_DATA_PREFIX,
    BLOCK_PREFIX, BLOCK_REV_PREFIX}"
  by (erule entry_ok.cases) (simp_all add: key_tags take_2_seqk)

lemma entry_ok_fileD:
  assumes "entry_ok lib k v" "k = file_key n" "good_name n"
  obtains fi where "file_val lib v = Some fi"
  using assms by (cases rule: entry_ok.cases) (auto simp: file_key_eq)

lemma entry_ok_inboxD:
  assumes "entry_ok lib k v" "k = inbox_key e n" "wf_epoch e" "good_name n"
  obtains fi where "inbox_val lib v = Some fi"
  using assms by (cases rule: entry_ok.cases) (auto simp: inbox_key_eq)

lemma entry_ok_metaD: "entry_ok lib IX_KEY v \<Longrightarrow> \<exists>m. dec_meta lib v = Some m"
  by (cases lib "IX_KEY" v rule: entry_ok.cases) auto

lemma entry_ok_remoteD: "entry_ok lib (device_key d) v \<Longrightarrow> \<exists>r. dec_remote lib v = Some r"
  by (cases lib "device_key d" v rule: entry_ok.cases) auto

lemma entry_ok_ptrD:
  assumes "entry_ok lib k v" "k = block_pointer_key d h" "utf8_valid d" "length h = HASH_LEN"
  obtains r where "dec_ref lib v = Some r"
  using assms by (cases rule: entry_ok.cases) (auto simp: pointer_key_eq)

section \<open>Each write updates one typed map\<close>

lemma lookup_at_other: "(\<And>x. good x \<Longrightarrow> key x \<noteq> k) \<Longrightarrow>
   lookup_at good key dec (V(k := w)) = lookup_at good key dec V"
  by (auto simp: lookup_at_def)

lemma lookup_at_same:
  "good x \<Longrightarrow> (\<And>y. good y \<Longrightarrow> key y = key x \<longleftrightarrow> y = x) \<Longrightarrow>
   lookup_at good key dec (V(key x := w)) = (lookup_at good key dec V)(x := Option.bind w dec)"
  by (auto simp: lookup_at_def)

lemma ok_keys_eq:
  "ok_inbox x \<Longrightarrow> ok_inbox y \<Longrightarrow> case_prod inbox_key x = case_prod inbox_key y \<longleftrightarrow> x = y"
  "ok_ptr p \<Longrightarrow> ok_ptr q \<Longrightarrow> case_prod block_pointer_key p = case_prod block_pointer_key q \<longleftrightarrow> p = q"
  "ok_rev a \<Longrightarrow> ok_rev b \<Longrightarrow> case_prod block_reverse_key a = case_prod block_reverse_key b \<longleftrightarrow> a = b"
  by (auto simp: ok_inbox_def ok_ptr_def ok_rev_def inbox_key_eq pointer_key_eq reverse_key_eq
      split: prod.splits)

lemma astore_of_file:
  "good_name n \<Longrightarrow> astore_of lib (V(file_key n := w))
     = (astore_of lib V)\<lparr>a_files := (a_files (astore_of lib V))(n := Option.bind w (file_val lib))\<rparr>"
  by (simp add: astore_of_def lookup_at_same [of good_name n file_key] lookup_at_other file_key_eq
      case_prod_beta)

lemma astore_of_seq:
  "in_seq s \<Longrightarrow> astore_of lib (V(seqk s := w))
     = (astore_of lib V)\<lparr>a_seqs := (a_seqs (astore_of lib V))(s := Option.bind w (Some \<circ> unraw lib))\<rparr>"
  by (simp add: astore_of_def lookup_at_same [of in_seq s seqk] lookup_at_other seqk_eq case_prod_beta)

lemma astore_of_inbox:
  assumes "wf_epoch e" "good_name n"
  shows "astore_of lib (V(inbox_key e n := w))
     = (astore_of lib V)\<lparr>a_inbox := (a_inbox (astore_of lib V))((e, n) := Option.bind w (inbox_val lib))\<rparr>"
  using lookup_at_same [of ok_inbox "(e, n)" "case_prod inbox_key"] assms
  by (simp add: astore_of_def lookup_at_other ok_keys_eq case_prod_beta)
    (simp add: ok_inbox_def inbox_key_eq prod_eq_iff)

lemma astore_of_meta:
  "astore_of lib (V(IX_KEY := w))
     = (astore_of lib V)\<lparr>a_meta :=
         (case Option.bind w (dec_meta lib) of Some m \<Rightarrow> m | None \<Rightarrow> default_index_meta)\<rparr>"
  by (simp add: astore_of_def lookup_at_other case_prod_beta)

lemma astore_of_remote:
  "astore_of lib (V(device_key d := w))
     = (astore_of lib V)\<lparr>a_remote := (a_remote (astore_of lib V))(d := Option.bind w (dec_remote lib))\<rparr>"
  by (simp add: astore_of_def lookup_at_same [of "\<lambda>_. True" d device_key] lookup_at_other
      device_key_eq case_prod_beta)

lemma astore_of_data:
  "MIN_BLOCK_SEQ \<le> q \<Longrightarrow> astore_of lib (V(block_data_seq_key q := w))
     = (astore_of lib V)\<lparr>a_data := (a_data (astore_of lib V))(q := Option.bind w (Some \<circ> unraw lib))\<rparr>"
  by (simp add: astore_of_def lookup_at_same [of "\<lambda>q. MIN_BLOCK_SEQ \<le> q" q block_data_seq_key]
      lookup_at_other data_key_eq case_prod_beta)

lemma astore_of_ptr:
  assumes "utf8_valid d" "length h = HASH_LEN"
  shows "astore_of lib (V(block_pointer_key d h := w))
     = (astore_of lib V)\<lparr>a_ptr := (a_ptr (astore_of lib V))((d, h) := Option.bind w (dec_ref lib))\<rparr>"
  using lookup_at_same [of ok_ptr "(d, h)" "case_prod block_pointer_key"] assms
  by (simp add: astore_of_def lookup_at_other ok_keys_eq case_prod_beta)
    (simp add: ok_ptr_def pointer_key_eq prod_eq_iff)

lemma astore_of_rev:
  assumes "length h = HASH_LEN" "good_name n"
  shows "astore_of lib (V(block_reverse_key h n \<mapsto> v))
     = (astore_of lib V)\<lparr>a_rev := insert (h, n) (a_rev (astore_of lib V))\<rparr>"
  using assms
  by (auto simp: astore_of_def lookup_at_other case_prod_beta ok_rev_def reverse_key_eq)

lemmas astore_of_writes = astore_of_file astore_of_seq astore_of_inbox astore_of_meta
  astore_of_remote astore_of_data astore_of_ptr astore_of_rev

end
