(* ===== verification/StoreSpec.thy ===== *)
theory StoreSpec
  imports StoreAbs
begin

text \<open>
  What the store's operations do on the abstract state: for each operation run on the
  reference map, its result and the abstract state it leaves, on every branch.
\<close>

named_theorems map_eval \<open>evaluation of the reading operations on the reference map\<close>

abbreviation ast :: "('v, 'b) lib \<Rightarrow> (bytes \<rightharpoonup> 'v, 'b) folder_store \<Rightarrow> astore" where
  "ast lib c \<equiv> astore_of lib (fs_db c)"

abbreviation wf_store :: "('v, 'b) lib \<Rightarrow> (bytes \<rightharpoonup> 'v, 'b) folder_store \<Rightarrow> bool" where
  "wf_store lib c \<equiv> wf_view lib (fs_db c)"

abbreviation max_seq :: "astore \<Rightarrow> i64" where
  "max_seq a \<equiv> fm_max_sequence (a_meta a)"

lemmas run_simps = bnd_def op_simps on_db_map

section \<open>Reading\<close>

lemma wf_viewD: "wf_view lib V \<Longrightarrow> V k = Some v \<Longrightarrow> entry_ok lib k v"
  by (simp add: wf_view_def)

lemma get_index_meta_map [map_eval]:
  assumes "wf_store lib c"
  shows "get_index_meta map_slate lib c = (Inr (a_meta (ast lib c)), c)"
proof (cases "fs_db c IX_KEY")
  case None
  then show ?thesis by (simp add: get_index_meta_def run_simps astore_of_def)
next
  case (Some v)
  then obtain m where "dec_meta lib v = Some m"
    using entry_ok_metaD [of lib v] wf_viewD [OF assms Some] by auto
  with Some show ?thesis by (simp add: get_index_meta_def run_simps astore_of_def decoded_def)
qed

lemma get_remote_state_map [map_eval]:
  assumes "wf_store lib c"
  shows "get_remote_state map_slate lib d c =
    (Inr (case a_remote (ast lib c) d of Some r \<Rightarrow> r | None \<Rightarrow> default_remote_state), c)"
proof (cases "fs_db c (device_key d)")
  case None
  then show ?thesis by (simp add: get_remote_state_def run_simps astore_of_def lookup_at_def)
next
  case (Some v)
  then obtain r where "dec_remote lib v = Some r"
    using entry_ok_remoteD [of lib d v] wf_viewD [OF assms Some] by auto
  with Some show ?thesis
    by (simp add: get_remote_state_def run_simps astore_of_def decoded_def lookup_at_def)
qed

lemma file_lookup:
  assumes "wf_view lib V" "good_name n"
  shows "V (file_key n) = None \<and> a_files (astore_of lib V) n = None \<or>
    (\<exists>v fi. V (file_key n) = Some v \<and> a_files (astore_of lib V) n = Some fi \<and>
       dec_file lib v = Some \<lparr>file_file_info = Some fi\<rparr>)"
proof (cases "V (file_key n)")
  case None
  then show ?thesis by (simp add: astore_of_def lookup_at_def)
next
  case (Some v)
  then obtain fi where fi: "file_val lib v = Some fi"
    using entry_ok_fileD [OF wf_viewD [OF assms(1) Some] refl assms(2)] by blast
  then obtain m where "dec_file lib v = Some m" "file_file_info m = Some fi"
    by (auto simp: file_val_def bind_eq_Some_conv)
  then have "dec_file lib v = Some \<lparr>file_file_info = Some fi\<rparr>" by (cases m) simp
  with Some fi assms(2) show ?thesis by (simp add: astore_of_def lookup_at_def)
qed

lemma inbox_lookup:
  assumes "wf_view lib V" "wf_epoch e" "good_name n"
  shows "V (inbox_key e n) = None \<and> a_inbox (astore_of lib V) (e, n) = None \<or>
    (\<exists>v fi. V (inbox_key e n) = Some v \<and> a_inbox (astore_of lib V) (e, n) = Some fi \<and>
       dec_inbox lib v = Some \<lparr>inbox_file_info = Some fi\<rparr>)"
proof (cases "V (inbox_key e n)")
  case None
  then show ?thesis by (simp add: astore_of_def lookup_at_def)
next
  case (Some v)
  then obtain fi where fi: "inbox_val lib v = Some fi"
    using entry_ok_inboxD [OF wf_viewD [OF assms(1) Some] refl assms(2,3)] by blast
  then obtain m where "dec_inbox lib v = Some m" "inbox_file_info m = Some fi"
    by (auto simp: inbox_val_def bind_eq_Some_conv)
  then have "dec_inbox lib v = Some \<lparr>inbox_file_info = Some fi\<rparr>" by (cases m) simp
  with Some fi assms show ?thesis by (simp add: astore_of_def lookup_at_def ok_inbox_def)
qed

lemma get_file_proto_map [map_eval]:
  assumes "wf_store lib c" "good_name n"
  shows "get_file_proto map_slate lib n c = (Inr (a_files (ast lib c) n), c)"
  using file_lookup [OF assms]
  by (auto simp: get_file_proto_def run_simps decoded_def file_of_msg_def)

lemma get_file_map [map_eval]:
  assumes "wf_store lib c" "good_name n"
  shows "get_file map_slate lib n c =
    (case a_files (ast lib c) n of None \<Rightarrow> Inr None
       | Some fi \<Rightarrow> rbind (b_of_file_info fi) (\<lambda>b. Inr (Some b)), c)"
  using get_file_proto_map [OF assms]
  by (auto simp: get_file_def run_simps rbind_def split: option.splits sum.splits)

text \<open>The entry a block operation works on: the staged one, else the committed one.\<close>

definition entry_for :: "astore \<Rightarrow> epoch option \<Rightarrow> bytes \<Rightarrow> (s_file_info \<times> epoch option) option" where
  "entry_for a epoch n =
     (case Option.bind epoch (\<lambda>e. a_inbox a (e, n)) of
        Some fi \<Rightarrow> Some (fi, epoch)
      | None \<Rightarrow> map_option (\<lambda>fi. (fi, None)) (a_files a n))"

lemma find_file_entry_map [map_eval]:
  assumes "wf_store lib c" "good_name n" "\<And>e. epoch = Some e \<Longrightarrow> wf_epoch e"
  shows "find_file_entry map_slate lib epoch n c =
    (case entry_for (ast lib c) epoch n of
       None \<Rightarrow> Inl (NotFound ''file not found in inbox or main index'')
     | Some (fi, None) \<Rightarrow> Inr (fi, file_key n, False)
     | Some (fi, Some e) \<Rightarrow> Inr (fi, inbox_key e n, True), c)"
proof (cases epoch)
  case None
  then show ?thesis using file_lookup [OF assms(1,2)]
    by (auto simp: find_file_entry_def run_simps decoded_def entry_for_def)
next
  case (Some e)
  then show ?thesis
    using file_lookup [OF assms(1,2)] inbox_lookup [OF assms(1) assms(3) [OF Some] assms(2)]
    by (auto simp: find_file_entry_def run_simps decoded_def entry_for_def)
qed

section \<open>Committing\<close>

definition carried :: "astore \<Rightarrow> bytes \<Rightarrow> s_file_info \<Rightarrow> s_file_info" where
  "carried a n stored =
     (case a_files a n of None \<Rightarrow> stored | Some old \<Rightarrow> carry_block_pointers stored old)"

definition a_commit :: "bytes \<Rightarrow> s_file_info \<Rightarrow> astore \<Rightarrow> astore" where
  "a_commit n stored a =
     (let seq = max_seq a + 1
      in a\<lparr>a_meta := (a_meta a)\<lparr>fm_max_sequence := seq\<rparr>,
           a_files := (a_files a)(n \<mapsto> (carried a n stored)\<lparr>sf_sequence := seq\<rparr>),
           a_seqs := ((case a_files a n of None \<Rightarrow> a_seqs a
             | Some old \<Rightarrow> (a_seqs a)(sf_sequence old := None)))(seq \<mapsto> n)\<rparr>)"

text \<open>The types the store writes.\<close>

definition ok_type :: "i32 \<Rightarrow> bool" where
  "ok_type t \<longleftrightarrow> t \<in> {1, 2, 3}"

text \<open>The index invariant: \<open>ms\<close> entries are exactly the inverse of the sequences of the
  files; sequences are positive and at most the counter; an entry is stored at its name.\<close>

definition idx_inv :: "astore \<Rightarrow> bool" where
  "idx_inv a \<longleftrightarrow>
     0 \<le> max_seq a \<and> max_seq a \<le> i64_max \<and>
     (\<forall>n fi. a_files a n = Some fi \<longrightarrow>
        sf_name fi = n \<and> good_name n \<and> ok_type (sf_type fi) \<and>
        0 < sf_sequence fi \<and> sf_sequence fi \<le> max_seq a) \<and>
     (\<forall>s n. a_seqs a s = Some n \<longleftrightarrow> (\<exists>fi. a_files a n = Some fi \<and> sf_sequence fi = s)) \<and>
     (\<forall>e n fi. a_inbox a (e, n) = Some fi \<longrightarrow> sf_name fi = n \<and> ok_type (sf_type fi))"

lemma idx_invD:
  assumes "idx_inv a" and "a_files a n = Some fi"
  shows "sf_name fi = n" "good_name n" "ok_type (sf_type fi)" "0 < sf_sequence fi"
    "sf_sequence fi \<le> max_seq a" "a_seqs a (sf_sequence fi) = Some n"
  using assms by (auto simp: idx_inv_def)

lemma idx_inv_old_seq:
  "idx_inv a \<Longrightarrow> a_files a n = Some fi \<Longrightarrow> in_seq (sf_sequence fi)"
  unfolding idx_inv_def in_seq_def by fastforce

lemma i64_wrap_id: "0 \<le> m \<Longrightarrow> m < i64_max \<Longrightarrow> i64_wrap (m + 1) = m + 1"
  by (simp add: i64_wrap_def i64_max_def mod_pos_pos_trivial)

lemma file_val_enc: "codec_laws lib \<Longrightarrow> file_val lib (enc_file lib \<lparr>file_file_info = Some fi\<rparr>) = Some fi"
  by (simp add: file_val_def codec_lawsD)

lemma inbox_val_enc:
  "codec_laws lib \<Longrightarrow> inbox_val lib (enc_inbox lib \<lparr>inbox_file_info = Some fi\<rparr>) = Some fi"
  by (simp add: inbox_val_def codec_lawsD)

text \<open>The batch of a commit, and the state it leaves.\<close>

definition commit_batch :: "('v, 'b) lib \<Rightarrow> astore \<Rightarrow> bytes \<Rightarrow> s_file_info \<Rightarrow> 'v batch" where
  "commit_batch lib a n stored =
     (case a_files a n of None \<Rightarrow> [] | Some old \<Rightarrow> [BDelete (seqk (sf_sequence old))]) @
     [BPut IX_KEY (enc_meta lib ((a_meta a)\<lparr>fm_max_sequence := max_seq a + 1\<rparr>)),
      BPut (file_key n) (enc_file lib
        \<lparr>file_file_info = Some ((carried a n stored)\<lparr>sf_sequence := max_seq a + 1\<rparr>)\<rparr>),
      BPut (seqk (max_seq a + 1)) (raw lib n)]"

lemma astore_of_commit_batch:
  assumes "codec_laws lib" "good_name n" "idx_inv (astore_of lib V)"
    "max_seq (astore_of lib V) < i64_max"
    and same: "a_files (astore_of lib W) = a_files (astore_of lib V)"
      "a_meta (astore_of lib W) = a_meta (astore_of lib V)"
  shows "astore_of lib (apply_batch (commit_batch lib (astore_of lib V) n stored) W)
    = a_commit n stored (astore_of lib W)"
proof -
  have "in_seq (max_seq (astore_of lib V) + 1)" using assms by (simp add: in_seq_def idx_inv_def)
  then show ?thesis
    using assms idx_inv_old_seq [OF assms(3)]
    by (cases "a_files (astore_of lib V) n")
      (simp_all add: commit_batch_def a_commit_def astore_of_writes file_val_enc codec_lawsD
        Let_def carried_def)
qed

lemma wf_view_commit_batch:
  assumes "codec_laws lib" "good_name n" "wf_view lib W" "idx_inv a" "max_seq a < i64_max"
  shows "wf_view lib (apply_batch (commit_batch lib a n stored) W)"
proof -
  have "in_seq (max_seq a + 1)" using assms by (simp add: in_seq_def idx_inv_def)
  then show ?thesis
    using assms
    by (auto simp: commit_batch_def codec_lawsD file_val_enc split: option.splits
        intro!: wf_view_put wf_view_del entry_ok.intros)
qed

lemma commit_map:
  assumes "wf_store lib c" "good_name n" "idx_inv (ast lib c)" "max_seq (ast lib c) < i64_max"
  shows "commit_with_new_seq map_slate lib n stored batch c =
    (rbind (b_of_file_info ((carried (ast lib c) n stored)\<lparr>sf_sequence := max_seq (ast lib c) + 1\<rparr>))
       (\<lambda>f. Inr (max_seq (ast lib c) + 1, f)),
     c\<lparr>fs_db := apply_batch (batch @ commit_batch lib (ast lib c) n stored) (fs_db c)\<rparr>)"
proof -
  have m: "0 \<le> max_seq (ast lib c)" using assms by (simp add: idx_inv_def)
  have k: "seq_key (max_seq (ast lib c) + 1) = Inr (seqk (max_seq (ast lib c) + 1))"
    using m assms by (intro seq_key_seqk) (simp add: in_seq_def)
  show ?thesis
  proof (cases "a_files (ast lib c) n")
    case None
    then show ?thesis
      using assms m k
      by (simp add: commit_with_new_seq_def run_simps map_eval write_non_durable_def i64_wrap_id
          commit_batch_def carried_def Let_def rbind_def split: sum.splits)
  next
    case (Some old)
    then have "0 < sf_sequence old" "seq_key (sf_sequence old) = Inr (seqk (sf_sequence old))"
      using idx_invD(4) [OF assms(3)] idx_inv_old_seq [OF assms(3)] seq_key_seqk by auto
    with Some show ?thesis
      using assms m k
      by (simp add: commit_with_new_seq_def run_simps map_eval write_non_durable_def i64_wrap_id
          commit_batch_def carried_def Let_def rbind_def split: sum.splits)
  qed
qed

end
