(* ===== verification/StoreInv.thy ===== *)
theory StoreInv
  imports StoreSpec
begin

text \<open>
  The invariant of the store and its preservation by the abstract updates.  \<open>C\<close> is the
  content of each block hash: the data a peer sends for a hash is assumed to be its
  content, as the code assumes when it shares blocks by hash.
\<close>

section \<open>The invariant\<close>

definition next_bs :: "astore \<Rightarrow> u64" where
  "next_bs a = (case fm_next_blockseq (a_meta a) of Some n \<Rightarrow> n | None \<Rightarrow> 0)"

text \<open>Block sequence numbers that were handed out.\<close>

definition allocated :: "astore \<Rightarrow> seq_range \<Rightarrow> u64 \<Rightarrow> bool" where
  "allocated a q s \<longleftrightarrow>
     MIN_BLOCK_SEQ \<le> s \<and> s < next_bs a \<and> \<not> (sr_next q \<le> s \<and> s < sr_end q)"

definition block_good :: "(bytes \<Rightarrow> bytes) \<Rightarrow> astore \<Rightarrow> seq_range \<Rightarrow> s_block_info \<Rightarrow> bool" where
  "block_good C a q b \<longleftrightarrow>
     (\<forall>s. sb_blockseq b = Some s \<longrightarrow> allocated a q s \<and> a_data a s = Some (C (sb_hash b))) \<and>
     (\<forall>d. sb_inline_data b = Some d \<longrightarrow> d = C (sb_hash b))"

abbreviation blocks_good :: "(bytes \<Rightarrow> bytes) \<Rightarrow> astore \<Rightarrow> seq_range \<Rightarrow> s_file_info \<Rightarrow> bool" where
  "blocks_good C a q fi \<equiv> \<forall>b \<in> set (sf_blocks fi). block_good C a q b"

definition range_inv :: "astore \<Rightarrow> seq_range \<Rightarrow> bool" where
  "range_inv a q \<longleftrightarrow>
     sr_next q \<le> sr_end q \<and> sr_end q \<le> next_bs a \<and>
     (sr_next q < sr_end q \<longrightarrow> MIN_BLOCK_SEQ \<le> sr_next q)"

definition blk_inv :: "(bytes \<Rightarrow> bytes) \<Rightarrow> astore \<Rightarrow> seq_range \<Rightarrow> bool" where
  "blk_inv C a q \<longleftrightarrow>
     range_inv a q \<and>
     (\<forall>n fi. a_files a n = Some fi \<longrightarrow> blocks_good C a q fi) \<and>
     (\<forall>x fi. a_inbox a x = Some fi \<longrightarrow> blocks_good C a q fi) \<and>
     (\<forall>d h r. a_ptr a (d, h) = Some r \<longrightarrow>
        allocated a q (seqno r) \<and> (\<forall>x. a_data a (seqno r) = Some x \<longrightarrow> x = C h)) \<and>
     (\<forall>s x. a_data a s = Some x \<longrightarrow> allocated a q s)"

lemma blk_invI:
  assumes "range_inv a q"
    and "\<And>n fi. a_files a n = Some fi \<Longrightarrow> blocks_good C a q fi"
    and "\<And>x fi. a_inbox a x = Some fi \<Longrightarrow> blocks_good C a q fi"
    and "\<And>d h r. a_ptr a (d, h) = Some r \<Longrightarrow> allocated a q (seqno r)"
    and "\<And>d h r x. a_ptr a (d, h) = Some r \<Longrightarrow> a_data a (seqno r) = Some x \<Longrightarrow> x = C h"
    and "\<And>s x. a_data a s = Some x \<Longrightarrow> allocated a q s"
  shows "blk_inv C a q"
  using assms unfolding blk_inv_def by blast

lemma blk_invD:
  assumes "blk_inv C a q"
  shows "range_inv a q" "\<And>n fi. a_files a n = Some fi \<Longrightarrow> blocks_good C a q fi"
    "\<And>x fi. a_inbox a x = Some fi \<Longrightarrow> blocks_good C a q fi"
    "\<And>d h r. a_ptr a (d, h) = Some r \<Longrightarrow> allocated a q (seqno r)"
    "\<And>d h r x. a_ptr a (d, h) = Some r \<Longrightarrow> a_data a (seqno r) = Some x \<Longrightarrow> x = C h"
    "\<And>s x. a_data a s = Some x \<Longrightarrow> allocated a q s"
  using assms unfolding blk_inv_def by blast+

definition store_inv ::
  "('v, 'b) lib \<Rightarrow> (bytes \<Rightarrow> bytes) \<Rightarrow> (bytes \<rightharpoonup> 'v, 'b) folder_store \<Rightarrow> bool" where
  "store_inv lib C c \<longleftrightarrow>
     wf_store lib c \<and> idx_inv (ast lib c) \<and> blk_inv C (ast lib c) (fs_blockseq c)"

lemma store_invD:
  assumes "store_inv lib C c"
  shows "wf_store lib c" "idx_inv (ast lib c)" "blk_inv C (ast lib c) (fs_blockseq c)"
  using assms by (simp_all add: store_inv_def)

lemma store_inv_gc [simp]: "store_inv lib C (c\<lparr>fs_gc := g\<rparr>) = store_inv lib C c"
  by (simp add: store_inv_def)

section \<open>Carried pointers\<close>

lemma by_hash_find:
  "by_hash bs m h =
     (case m h of Some b \<Rightarrow> Some b | None \<Rightarrow> find (\<lambda>b. has_pointer b \<and> sb_hash b = h) bs)"
  by (induction bs arbitrary: m) (auto split: option.splits)

lemma carry_block_cases:
  obtains (kept) "carry_block (by_hash bs Map.empty) b = b"
    | (from_old) src where "src \<in> set bs" "sb_hash src = sb_hash b" "has_pointer src"
        "\<not> has_pointer b"
        "carry_block (by_hash bs Map.empty) b
           = b\<lparr>sb_blockseq := sb_blockseq src, sb_inline_data := sb_inline_data src\<rparr>"
proof (cases "has_pointer b \<or> by_hash bs Map.empty (sb_hash b) = None")
  case True
  then show ?thesis using kept by (auto simp: carry_block_def)
next
  case False
  then obtain src where src: "by_hash bs Map.empty (sb_hash b) = Some src" by auto
  then have "src \<in> set bs" "sb_hash src = sb_hash b" "has_pointer src"
    by (auto simp: by_hash_find find_Some_iff)
  with src show ?thesis using False by (intro from_old) (auto simp: carry_block_def)
qed

lemma carry_hash [simp]: "sb_hash (carry_block m b) = sb_hash b"
  by (simp add: carry_block_def split: option.splits)

lemma carried_good:
  assumes "blocks_good C a q stored" and "blk_inv C a q"
  shows "blocks_good C a q (carried a n stored)"
proof (cases "a_files a n")
  case None
  with assms show ?thesis by (simp add: carried_def)
next
  case (Some old)
  then have old: "blocks_good C a q old" using assms by (simp add: blk_inv_def)
  have "block_good C a q (carry_block (by_hash (sf_blocks old) Map.empty) b)"
    if "b \<in> set (sf_blocks stored)" for b
    using that assms(1) old
    by (cases "sf_blocks old" b rule: carry_block_cases) (auto simp: block_good_def)
  then show ?thesis by (auto simp: carried_def Some carry_block_pointers_def)
qed

lemma carried_sel [simp]:
  "sf_name (carried a n stored) = sf_name stored" "sf_type (carried a n stored) = sf_type stored"
  "map sb_hash (sf_blocks (carried a n stored)) = map sb_hash (sf_blocks stored)"
  by (simp_all add: carried_def carry_block_pointers_def comp_def split: option.splits)

section \<open>Preservation by the abstract updates\<close>

lemma idx_inv_commit:
  assumes inv: "idx_inv a" and "max_seq a < i64_max" and n: "good_name n"
    and st: "sf_name stored = n" "ok_type (sf_type stored)"
  shows "idx_inv (a_commit n stored a)"
proof -
  let ?s = "max_seq a + 1"
  let ?seqs = "case a_files a n of None \<Rightarrow> a_seqs a | Some old \<Rightarrow> (a_seqs a)(sf_sequence old := None)"
  have seqs: "?seqs s = Some m \<longleftrightarrow> (\<exists>fi. a_files a m = Some fi \<and> sf_sequence fi = s \<and> m \<noteq> n)" for s m
  proof -
    have S: "a_seqs a s = Some m \<longleftrightarrow> (\<exists>fi. a_files a m = Some fi \<and> sf_sequence fi = s)" for s m
      using inv by (simp add: idx_inv_def)
    show ?thesis
    proof (cases "a_files a n")
      case (Some old)
      then have "a_seqs a (sf_sequence old) = Some n" using S by blast
      with S [of s m] S [of s n] Some show ?thesis
        by (cases "s = sf_sequence old") (auto simp del: S)
    next
      case None
      with S [of s m] show ?thesis by (cases "m = n") auto
    qed
  qed
  have le: "a_files a m = Some fi \<Longrightarrow> sf_sequence fi < ?s" for m fi
    using idx_invD(5) [OF inv] by fastforce
  let ?files = "(a_files a)(n \<mapsto> (carried a n stored)\<lparr>sf_sequence := ?s\<rparr>)"
  have "(?seqs(?s \<mapsto> n)) s = Some m \<longleftrightarrow> (\<exists>fi. ?files m = Some fi \<and> sf_sequence fi = s)" for s m
  proof (cases "s = ?s")
    case True
    then show ?thesis by (cases "m = n") (auto dest: le)
  next
    case False
    then show ?thesis by (cases "m = n") (simp_all add: seqs)
  qed
  moreover have "sf_name fi = m \<and> good_name m \<and> ok_type (sf_type fi) \<and> 0 < sf_sequence fi \<and>
      sf_sequence fi \<le> ?s" if "?files m = Some fi" for m fi
  proof (cases "m = n")
    case True
    moreover have "0 \<le> max_seq a" using inv by (simp add: idx_inv_def)
    ultimately show ?thesis using that n st by auto
  next
    case False
    then have "a_files a m = Some fi" using that by simp
    from idx_invD [OF inv this] le [OF this] show ?thesis by simp
  qed
  moreover have "0 \<le> ?s \<and> ?s \<le> i64_max" using inv assms(2) by (simp add: idx_inv_def)
  moreover have "\<forall>e m fi. a_inbox a (e, m) = Some fi \<longrightarrow> sf_name fi = m \<and> ok_type (sf_type fi)"
    using inv by (simp add: idx_inv_def)
  ultimately show ?thesis
    unfolding idx_inv_def a_commit_def Let_def by (simp del: fun_upd_apply)
qed

lemma blk_inv_cong:
  "a_files a' = a_files a \<Longrightarrow> a_inbox a' = a_inbox a \<Longrightarrow> a_ptr a' = a_ptr a \<Longrightarrow>
   a_data a' = a_data a \<Longrightarrow> next_bs a' = next_bs a \<Longrightarrow> blk_inv C a' q = blk_inv C a q"
  by (simp add: blk_inv_def block_good_def allocated_def range_inv_def)

lemma block_good_cong:
  "a_data a' = a_data a \<Longrightarrow> next_bs a' = next_bs a \<Longrightarrow> block_good C a' q b = block_good C a q b"
  by (simp add: block_good_def allocated_def)

lemma allocated_cong: "next_bs a' = next_bs a \<Longrightarrow> allocated a' q s = allocated a q s"
  by (simp add: allocated_def)

lemma blk_inv_file:
  assumes "blk_inv C a q" and "blocks_good C a q fi"
    and "a_files a' = (a_files a)(n \<mapsto> fi)" "a_inbox a' = a_inbox a" "a_ptr a' = a_ptr a"
      "a_data a' = a_data a" "next_bs a' = next_bs a"
  shows "blk_inv C a' q"
  using assms block_good_cong [OF assms(6,7)] allocated_cong [OF assms(7)]
  by (auto simp: blk_inv_def range_inv_def)

lemma blk_inv_inbox:
  assumes "blk_inv C a q" and "\<And>fi. w = Some fi \<Longrightarrow> blocks_good C a q fi"
    and "a_files a' = a_files a" "a_inbox a' = (a_inbox a)(x := w)" "a_ptr a' = a_ptr a"
      "a_data a' = a_data a" "next_bs a' = next_bs a"
  shows "blk_inv C a' q"
  using assms block_good_cong [OF assms(6,7)] allocated_cong [OF assms(7)]
  by (auto simp: blk_inv_def range_inv_def)

lemma blk_inv_commit:
  assumes "blk_inv C a q" and "blocks_good C a q stored"
  shows "blk_inv C (a_commit n stored a) q"
proof (rule blk_inv_file [OF assms(1)])
  show "blocks_good C a q ((carried a n stored)\<lparr>sf_sequence := max_seq a + 1\<rparr>)"
    using carried_good [OF assms(2,1)] by simp
qed (simp_all add: a_commit_def Let_def next_bs_def)

lemma idx_inv_inbox:
  assumes "idx_inv a" and "\<And>fi. w = Some fi \<Longrightarrow> sf_name fi = snd x \<and> ok_type (sf_type fi)"
    and "a_files a' = a_files a" "a_inbox a' = (a_inbox a)(x := w)" "a_seqs a' = a_seqs a"
      "max_seq a' = max_seq a"
  shows "idx_inv a'"
  using assms by (auto simp: idx_inv_def)

text \<open>Replacing a committed entry by one that differs in its blocks only.\<close>

lemma idx_inv_file_blocks:
  assumes "idx_inv a" and "a_files a n = Some fi"
    and "a_files a' = (a_files a)(n \<mapsto> fi\<lparr>sf_blocks := bs\<rparr>)" "a_inbox a' = a_inbox a"
      "a_seqs a' = a_seqs a" "max_seq a' = max_seq a"
  shows "idx_inv a'"
  using assms by (auto simp: idx_inv_def)

lemma s_of_file_info_sel [simp]:
  "sf_name (s_of_file_info f) = fi_name f"
  "ok_type (sf_type (s_of_file_info f))"
  "sf_blocks (s_of_file_info f) = map s_of_block_info (fi_blocks f)"
  "map_option b_of_vector (sf_version (s_of_file_info f)) = fi_version f"
  by (simp_all add: s_of_file_info_def bep_type_to_storage_def file_info_type_try_from_def ok_type_def
      map_option_inverse)

lemma s_of_file_info_good [simp]: "blocks_good C a q (s_of_file_info f)"
  by (simp add: block_good_def)

lemma set_pointer_good:
  assumes "blocks_good C a q fi"
    and "\<And>s. seq = Some s \<Longrightarrow> allocated a q s \<and> a_data a s = Some (C hash)"
    and "\<And>d. data = Some d \<Longrightarrow> d = C hash"
  shows "blocks_good C a q (set_pointer hash seq data fi)"
  using assms by (auto simp: set_pointer_def block_good_def)

end
