(* ===== verification/StoreOps.thy ===== *)
theory StoreOps
  imports StoreInv
begin

text \<open>
  The writing operations on the reference map: their results and the abstract state they
  leave (\<open>*_map\<close>), that they keep the invariant, and their simulation on a lawful database
  (\<open>*_sim\<close>).
\<close>

section \<open>Commits\<close>

definition bep_of :: "s_file_info \<Rightarrow> file_info" where
  "bep_of fi = projr (b_of_file_info fi)"

lemma b_of_file_info_ok: "ok_type (sf_type fi) \<Longrightarrow> b_of_file_info fi = Inr (bep_of fi)"
  using b_of_file_info_error [of fi] by (cases "b_of_file_info fi") (auto simp: bep_of_def ok_type_def)

lemma bep_of_sel:
  assumes "ok_type (sf_type fi)"
  shows "fi_name (bep_of fi) = sf_name fi" "fi_sequence (bep_of fi) = sf_sequence fi"
    "fi_version (bep_of fi) = map_option b_of_vector (sf_version fi)"
    "fi_deleted (bep_of fi) = sf_deleted fi"
    "fi_blocks (bep_of fi) = map b_of_block_info (sf_blocks fi)"
proof -
  obtain t where "storage_type_to_bep (sf_type fi) = Inr t"
    using b_of_file_info_ok [OF assms] by (auto simp: b_of_file_info_def rbind_def split: sum.splits)
  then show "fi_name (bep_of fi) = sf_name fi" "fi_sequence (bep_of fi) = sf_sequence fi"
    "fi_version (bep_of fi) = map_option b_of_vector (sf_version fi)"
    "fi_deleted (bep_of fi) = sf_deleted fi"
    "fi_blocks (bep_of fi) = map b_of_block_info (sf_blocks fi)"
    by (simp_all add: bep_of_def b_of_file_info_def)
qed

lemma commit_ok:
  assumes laws: "codec_laws lib" and inv: "store_inv lib C c" and n: "good_name n"
    and max: "max_seq (ast lib c) < i64_max"
    and st: "sf_name stored = n" "ok_type (sf_type stored)"
    and W: "W = apply_batch batch (fs_db c)" "wf_view lib W" "idx_inv (astore_of lib W)"
      "blk_inv C (astore_of lib W) (fs_blockseq c)"
      "blocks_good C (astore_of lib W) (fs_blockseq c) stored"
      "a_files (astore_of lib W) = a_files (ast lib c)"
      "a_meta (astore_of lib W) = a_meta (ast lib c)"
  obtains c' where
    "commit_with_new_seq map_slate lib n stored batch c =
       (Inr (max_seq (ast lib c) + 1,
          bep_of ((carried (ast lib c) n stored)\<lparr>sf_sequence := max_seq (ast lib c) + 1\<rparr>)), c')"
    "ast lib c' = a_commit n stored (astore_of lib W)" "store_inv lib C c'"
    "fs_gc c' = fs_gc c" "fs_blockseq c' = fs_blockseq c"
proof
  let ?c' = "c\<lparr>fs_db := apply_batch (commit_batch lib (ast lib c) n stored) W\<rparr>"
  have idx: "idx_inv (ast lib c)" using inv by (simp add: store_inv_def)
  show a: "ast lib ?c' = a_commit n stored (astore_of lib W)"
    using astore_of_commit_batch [OF laws n idx max W(6,7)] by simp
  show "commit_with_new_seq map_slate lib n stored batch c =
       (Inr (max_seq (ast lib c) + 1,
          bep_of ((carried (ast lib c) n stored)\<lparr>sf_sequence := max_seq (ast lib c) + 1\<rparr>)), ?c')"
    using commit_map [OF _ n idx max, of stored batch] inv st
    by (simp add: store_inv_def W(1) b_of_file_info_ok)
  have "max_seq (astore_of lib W) < i64_max" using max W by simp
  moreover have "wf_store lib ?c'"
    using wf_view_commit_batch [OF laws n W(2) idx max] by simp
  ultimately show "store_inv lib C ?c'"
    unfolding store_inv_def a using W n st by (simp add: idx_inv_commit blk_inv_commit)
qed simp_all

text \<open>A commit with no other change in its batch.\<close>

lemma commit_plain:
  assumes "codec_laws lib" and "store_inv lib C c" and "good_name n"
    and "max_seq (ast lib c) < i64_max" and "sf_name stored = n" "ok_type (sf_type stored)"
    and "blocks_good C (ast lib c) (fs_blockseq c) stored"
  obtains c' where
    "commit_with_new_seq map_slate lib n stored [] c =
       (Inr (max_seq (ast lib c) + 1,
          bep_of ((carried (ast lib c) n stored)\<lparr>sf_sequence := max_seq (ast lib c) + 1\<rparr>)), c')"
    "ast lib c' = a_commit n stored (ast lib c)" "store_inv lib C c'"
  using commit_ok [OF assms(1-6), of "fs_db c" "[]"] assms(2,7) store_invD [OF assms(2)] by auto

lemma put_file_map:
  assumes "codec_laws lib" and "store_inv lib C c" and "good_name (fi_name f)"
    and "max_seq (ast lib c) < i64_max"
  obtains c' where "put_file map_slate lib f c = (Inr (max_seq (ast lib c) + 1), c')"
    "ast lib c' = a_commit (fi_name f) (s_of_file_info f) (ast lib c)" "store_inv lib C c'"
proof -
  obtain c' where "commit_with_new_seq map_slate lib (fi_name f) (s_of_file_info f) [] c =
       (Inr (max_seq (ast lib c) + 1,
          bep_of ((carried (ast lib c) (fi_name f) (s_of_file_info f))
            \<lparr>sf_sequence := max_seq (ast lib c) + 1\<rparr>)), c')"
    "ast lib c' = a_commit (fi_name f) (s_of_file_info f) (ast lib c)" "store_inv lib C c'"
    by (rule commit_plain [OF assms(1-4), of "s_of_file_info f"]) auto
  then show ?thesis using that by (simp add: put_file_def bnd_def op_simps)
qed

section \<open>The inbox\<close>

lemma stage_file_map:
  assumes "codec_laws lib" and "store_inv lib C c" and "good_name (fi_name f)" and "wf_epoch e"
  obtains c' where "stage_file map_slate lib e f c = (Inr (), c')"
    "ast lib c' = (ast lib c)\<lparr>a_inbox := (a_inbox (ast lib c))((e, fi_name f) \<mapsto> s_of_file_info f)\<rparr>"
    "store_inv lib C c'"
proof
  let ?v = "enc_inbox lib \<lparr>inbox_file_info = Some (s_of_file_info f)\<rparr>"
  let ?c' = "c\<lparr>fs_db := (fs_db c)(inbox_key e (fi_name f) \<mapsto> ?v)\<rparr>"
  show "stage_file map_slate lib e f c = (Inr (), ?c')"
    by (simp add: stage_file_def put_non_durable_def on_db_map)
  show a: "ast lib ?c' = (ast lib c)\<lparr>a_inbox :=
      (a_inbox (ast lib c))((e, fi_name f) \<mapsto> s_of_file_info f)\<rparr>"
    using assms by (simp add: astore_of_inbox inbox_val_enc)
  have "wf_store lib ?c'"
    using assms store_invD(1) [OF assms(2)]
    by (auto intro!: wf_view_put entry_ok.intros simp: inbox_val_enc)
  moreover have "idx_inv (ast lib ?c')" unfolding a
    by (rule idx_inv_inbox [OF store_invD(2) [OF assms(2)], where x = "(e, fi_name f)"
          and w = "Some (s_of_file_info f)"]) auto
  moreover have "blk_inv C (ast lib ?c') (fs_blockseq c)" unfolding a
    by (rule blk_inv_inbox [OF store_invD(3) [OF assms(2)], where x = "(e, fi_name f)"
          and w = "Some (s_of_file_info f)"]) (auto simp: next_bs_def)
  ultimately show "store_inv lib C ?c'" by (simp add: store_inv_def)
qed

text \<open>The branches of \<open>complete_file\<close>.\<close>

definition incomplete :: "s_file_info \<Rightarrow> bool" where
  "incomplete fi \<longleftrightarrow> list_ex (\<lambda>b. sb_inline_data b = None \<and> sb_blockseq b = None) (sf_blocks fi)"

lemma complete_file_skip:
  assumes "store_inv lib C c" and "good_name n" and "wf_epoch e"
    and "\<And>fi. a_inbox (ast lib c) (e, n) = Some fi \<Longrightarrow> map_option b_of_vector (sf_version fi) \<noteq> ver"
  shows "complete_file map_slate lib e n ver c = (Inr None, c)"
  using inbox_lookup [OF store_invD(1) [OF assms(1)] assms(3,2)] assms(4)
  by (auto simp: complete_file_def run_simps decoded_def)

lemma complete_file_incomplete:
  assumes "store_inv lib C c" and "good_name n" and "wf_epoch e"
    and "a_inbox (ast lib c) (e, n) = Some fi" and "map_option b_of_vector (sf_version fi) = ver"
    and "incomplete (carried (ast lib c) n fi)"
  shows "complete_file map_slate lib e n ver c =
    (Inl (Internal ''staged file has blocks with neither inline data nor blockseq''), c)"
  using inbox_lookup [OF store_invD(1) [OF assms(1)] assms(3,2)] assms(4-6)
    get_file_proto_map [OF store_invD(1) [OF assms(1)] assms(2)]
  by (auto simp: complete_file_def run_simps decoded_def incomplete_def carried_def Let_def)

lemma complete_file_commit:
  assumes laws: "codec_laws lib" and inv: "store_inv lib C c" and n: "good_name n" and e: "wf_epoch e"
    and fi: "a_inbox (ast lib c) (e, n) = Some fi" "map_option b_of_vector (sf_version fi) = ver"
    and complete: "\<not> incomplete (carried (ast lib c) n fi)" and max: "max_seq (ast lib c) < i64_max"
  obtains c' where "complete_file map_slate lib e n ver c =
      (Inr (Some (bep_of ((carried (ast lib c) n fi)\<lparr>sf_sequence := max_seq (ast lib c) + 1\<rparr>))), c')"
    "ast lib c' = a_commit n fi ((ast lib c)\<lparr>a_inbox := (a_inbox (ast lib c))((e, n) := None)\<rparr>)"
    "store_inv lib C c'"
proof -
  let ?W = "(fs_db c)(inbox_key e n := None)"
  note wf = store_invD(1) [OF inv] and idx = store_invD(2) [OF inv] and blk = store_invD(3) [OF inv]
  have a: "astore_of lib ?W = (ast lib c)\<lparr>a_inbox := (a_inbox (ast lib c))((e, n) := None)\<rparr>"
    using e n by (simp add: astore_of_inbox)
  have good: "sf_name fi = n" "ok_type (sf_type fi)" "blocks_good C (ast lib c) (fs_blockseq c) fi"
    using idx blk fi(1) unfolding idx_inv_def blk_inv_def by blast+
  obtain c' where c': "commit_with_new_seq map_slate lib n fi [BDelete (inbox_key e n)] c =
       (Inr (max_seq (ast lib c) + 1,
          bep_of ((carried (ast lib c) n fi)\<lparr>sf_sequence := max_seq (ast lib c) + 1\<rparr>)), c')"
    "ast lib c' = a_commit n fi (astore_of lib ?W)" "store_inv lib C c'"
  proof (rule commit_ok [OF laws inv n max good(1,2), of ?W "[BDelete (inbox_key e n)]"])
    show "wf_view lib ?W" using wf by (rule wf_view_del)
    show "idx_inv (astore_of lib ?W)" unfolding a
      by (rule idx_inv_inbox [OF idx, where x = "(e, n)" and w = None]) auto
    show "blk_inv C (astore_of lib ?W) (fs_blockseq c)" unfolding a
      by (rule blk_inv_inbox [OF blk, where x = "(e, n)" and w = None]) (auto simp: next_bs_def)
    show "blocks_good C (astore_of lib ?W) (fs_blockseq c) fi"
      using good(3) block_good_cong [of "astore_of lib ?W" "ast lib c"] by (simp add: a next_bs_def)
  qed (auto simp: a)
  obtain v where v: "fs_db c (inbox_key e n) = Some v" "dec_inbox lib v = Some \<lparr>inbox_file_info = Some fi\<rparr>"
    using inbox_lookup [OF wf e n] fi(1) by auto
  have "complete_file map_slate lib e n ver c =
      (Inr (Some (bep_of ((carried (ast lib c) n fi)\<lparr>sf_sequence := max_seq (ast lib c) + 1\<rparr>))), c')"
    using v fi(2) complete c'(1) get_file_proto_map [OF wf n]
    by (auto simp: complete_file_def run_simps decoded_def incomplete_def carried_def Let_def
        split: option.splits)
  with c' that show ?thesis by (simp add: a)
qed

end
