(* ===== verification/StoreScan.thy ===== *)
theory StoreScan
  imports StoreOps
begin

text \<open>
  The operations that scan the database, on the reference map: the full and the delta index,
  the inbox clean-up, and the search for a block by its reverse references.
\<close>

section \<open>Loops over the entries of a map\<close>

lemma for_iter_pure:
  "(\<And>kv acc. body kv acc c = (Inr (Inl (g kv acc)), c)) \<Longrightarrow>
   for_iter kvs None acc body c = (Inr (Inl (fold g kvs acc)), c)"
  by (induction kvs arbitrary: acc) (simp_all add: bnd_def op_simps)

lemma for_iter_pure_on:
  "(\<And>kv acc. kv \<in> set kvs \<Longrightarrow> body kv acc c = (Inr (Inl (g kv acc)), c)) \<Longrightarrow>
   for_iter kvs None acc body c = (Inr (Inl (fold g kvs acc)), c)"
  by (induction kvs arbitrary: acc) (simp_all add: bnd_def op_simps)

lemma fold_append_map: "fold (\<lambda>x acc. acc @ [f x]) xs acc = acc @ map f xs"
  by (induction xs arbitrary: acc) auto

lemma entry_in_map: "finite (dom V) \<Longrightarrow> (k, v) \<in> set (entries_of P V) \<longleftrightarrow> V k = Some v \<and> P k"
  by (simp add: set_entries_of)

text \<open>A strictly monotone image of a set, listed in order.\<close>

lemma sorted_list_of_image:
  fixes f :: "'a::linorder \<Rightarrow> 'b::linorder"
  assumes "finite S" and "\<And>x y. x \<in> S \<Longrightarrow> y \<in> S \<Longrightarrow> x < y \<Longrightarrow> f x < f y"
  shows "sorted_list_of_set (f ` S) = map f (sorted_list_of_set S)"
proof -
  let ?l = "sorted_list_of_set S"
  have S: "set ?l = S" using assms(1) by simp
  have "sorted_wrt (<) ?l" by (simp add: strict_sorted_list_of_set)
  then have "sorted_wrt (\<lambda>x y. f x < f y) ?l"
    by (rule sorted_wrt_mono_rel [rotated]) (use assms(2) S in auto)
  then have st: "sorted_wrt (<) (map f ?l)" by (simp add: sorted_wrt_map)
  then have "sorted (map f ?l)" "distinct (map f ?l)" by (simp_all add: strict_sorted_iff)
  moreover have "set (map f ?l) = f ` S" using S by simp
  ultimately show ?thesis by (metis sorted_list_of_set.idem_if_sorted_distinct)
qed

section \<open>The delta index\<close>

lemma seqk_less: "in_seq s \<Longrightarrow> in_seq t \<Longrightarrow> s < t \<Longrightarrow> seqk s < seqk t"
  using seq_key_order [of s t] by (simp add: in_seq_def seq_key_def seqk_def)

lemma seq_range_entry:
  assumes "entry_ok lib k v" and "seqk start \<le> k" and "k < SEQ_SCAN_END"
  obtains s where "in_seq s" "k = seqk s" "good_name (unraw lib v)"
  using assms
  by (cases rule: entry_ok.cases)
    (auto simp: keys_by_tail tag_defs seqk_def SEQ_SCAN_END_def device_key_def
      block_pointer_key_def block_data_seq_key_def less_char_def)

lemma seqk_range: "in_seq s \<Longrightarrow> in_seq t \<Longrightarrow> seqk t \<le> seqk s \<longleftrightarrow> t \<le> s"
  using seqk_less seqk_eq by (metis linorder_le_less_linear order.strict_iff_not order_le_less)

lemma seqk_below_end: "seqk s < SEQ_SCAN_END"
  by (simp add: seqk_def SEQ_SCAN_END_def less_char_def)

lemma a_seqs_lookup: "in_seq s \<Longrightarrow> a_seqs (astore_of lib V) s = map_option (unraw lib) (V (seqk s))"
  by (cases "V (seqk s)") (simp_all add: astore_of_def lookup_at_def)

lemma a_seqs_in_seq: "a_seqs (astore_of lib V) s = Some n \<Longrightarrow> in_seq s"
  by (simp add: astore_of_def lookup_at_def split: if_splits)

lemma seq_entries:
  assumes wf: "wf_view lib V" and since: "-1 \<le> since" "since < i64_max"
  shows "map (\<lambda>(k, v). unraw lib v)
      (entries_of (\<lambda>k. seqk (since + 1) \<le> k \<and> k < SEQ_SCAN_END) V)
    = map (\<lambda>s. the (a_seqs (astore_of lib V) s))
        (sorted_list_of_set {s \<in> dom (a_seqs (astore_of lib V)). since < s})"
proof -
  let ?S = "{s \<in> dom (a_seqs (astore_of lib V)). since < s}"
  have st: "in_seq (since + 1)" using since by (simp add: in_seq_def)
  have inS: "s \<in> ?S \<Longrightarrow> in_seq s" for s using a_seqs_in_seq by auto
  have keys: "{k \<in> dom V. seqk (since + 1) \<le> k \<and> k < SEQ_SCAN_END} = seqk ` ?S"
  proof (intro set_eqI iffI)
    fix k assume k: "k \<in> {k \<in> dom V. seqk (since + 1) \<le> k \<and> k < SEQ_SCAN_END}"
    then obtain v where v: "V k = Some v" by auto
    with k seq_range_entry [OF wf_viewD [OF wf v], of "since + 1"] obtain s
      where s: "in_seq s" "k = seqk s" by auto
    then have "since < s" using k seqk_range [OF s(1) st] by auto
    moreover have "a_seqs (astore_of lib V) s = Some (unraw lib v)"
      using a_seqs_lookup [OF s(1), of lib V] v s by simp
    ultimately show "k \<in> seqk ` ?S" using s by auto
  next
    fix k assume "k \<in> seqk ` ?S"
    then obtain s where s: "s \<in> ?S" "k = seqk s" by auto
    then have "in_seq s" using inS by simp
    moreover from this s have "k \<in> dom V" using a_seqs_lookup [of s lib V] by (auto simp: dom_def)
    ultimately show "k \<in> {k \<in> dom V. seqk (since + 1) \<le> k \<and> k < SEQ_SCAN_END}"
      using s seqk_range [OF _ st] seqk_below_end by auto
  qed
  have "finite (seqk ` ?S)" unfolding keys [symmetric] using wf by (simp add: wf_view_def)
  moreover have "inj_on seqk ?S" using seqk_eq inS by (auto simp: inj_on_def)
  ultimately have fin: "finite ?S" by (rule finite_imageD)
  have "sorted_list_of_set (seqk ` ?S) = map seqk (sorted_list_of_set ?S)"
    by (rule sorted_list_of_image [OF fin]) (rule seqk_less [OF inS inS])
  then have "entries_of (\<lambda>k. seqk (since + 1) \<le> k \<and> k < SEQ_SCAN_END) V
      = map (\<lambda>s. (seqk s, the (V (seqk s)))) (sorted_list_of_set ?S)"
    by (simp add: entries_of_def keys comp_def)
  moreover have "unraw lib (the (V (seqk s))) = the (a_seqs (astore_of lib V) s)" if "s \<in> ?S" for s
    using that inS [OF that] a_seqs_lookup [of s lib V] by (cases "V (seqk s)") auto
  ultimately show ?thesis using fin by simp
qed

text \<open>The files after a sequence number, in the order of their sequences.\<close>

definition delta :: "astore \<Rightarrow> i64 \<Rightarrow> file_info list" where
  "delta a since =
     map (\<lambda>s. bep_of (the (a_files a (the (a_seqs a s)))))
       (sorted_list_of_set {s \<in> dom (a_seqs a). since < s})"

lemma files_since_map:
  assumes inv: "store_inv lib C c" and since: "-1 \<le> since" "since < i64_max"
  shows "files_since map_slate lib since c = (Inr (delta (ast lib c) since), c)"
proof -
  note wf = store_invD(1) [OF inv] and idx = store_invD(2) [OF inv]
  let ?P = "\<lambda>k. seqk (since + 1) \<le> k \<and> k < SEQ_SCAN_END"
  have "in_i64 (since + 1)" using since by (simp add: in_i64_def i64_min_def)
  then have st: "seq_scan_start since = Inr (seqk (since + 1))"
    using since by (simp add: seq_scan_start_def i64_checked_add_def seq_key_seqk in_seq_def)
  let ?body = "\<lambda>(k, v) files.
      bnd (lift_res (decoded ''invalid name in seq entry'' (from_utf8 (unraw lib v)))) (\<lambda>name.
      bnd (get_file map_slate lib name) (\<lambda>r.
        ok (Inl (case r of None \<Rightarrow> files | Some fi \<Rightarrow> files @ [fi]) :: file_info list + file_info list)))"
  let ?g = "\<lambda>kv files. files @ [bep_of (the (a_files (ast lib c) (unraw lib (snd kv))))]"
  have body: "?body kv acc c = (Inr (Inl (?g kv acc)), c)"
    if "kv \<in> set (entries_of ?P (fs_db c))" for kv acc
  proof -
    obtain k v where kv: "kv = (k, v)" by fastforce
    have v: "fs_db c k = Some v" "?P k" using that kv wf by (auto simp: entry_in_map wf_view_def)
    obtain s where s: "in_seq s" "k = seqk s" "good_name (unraw lib v)"
      using seq_range_entry [OF wf_viewD [OF wf v(1)]] v(2) by blast
    then have "a_seqs (ast lib c) s = Some (unraw lib v)" using a_seqs_lookup [OF s(1), of lib "fs_db c"] v by simp
    then obtain fi where fi: "a_files (ast lib c) (unraw lib v) = Some fi"
      using idx unfolding idx_inv_def by blast
    then have "get_file map_slate lib (unraw lib v) c = (Inr (Some (bep_of fi)), c)"
      using get_file_map [OF wf s(3)] idx_invD(3) [OF idx fi] by (simp add: b_of_file_info_ok)
    then show ?thesis
      using s(3) fi by (simp add: kv run_simps decoded_def from_utf8_def good_name_def)
  qed
  have "for_iter (entries_of ?P (fs_db c)) None [] ?body c
      = (Inr (Inl (fold ?g (entries_of ?P (fs_db c)) [])), c)"
    by (rule for_iter_pure_on) (rule body)
  moreover have "fold ?g (entries_of ?P (fs_db c)) []
      = map (\<lambda>n. bep_of (the (a_files (ast lib c) n)))
          (map (\<lambda>(k, v). unraw lib v) (entries_of ?P (fs_db c)))"
    by (simp add: fold_append_map comp_def case_prod_beta)
  ultimately show ?thesis
    unfolding files_since_def delta_def
    using seq_entries [OF wf since] st by (simp add: bnd_def op_simps on_db_map comp_def)
qed

section \<open>The full index\<close>

lemma prefix_tag: "length p = 2 \<Longrightarrow> prefix p k \<Longrightarrow> take 2 k = p"
  using prefix_two by blast

lemma file_prefix_entry:
  assumes "entry_ok lib k v" and "prefix FILE_PREFIX k"
  obtains n fi where "good_name n" "k = file_key n" "file_val lib v = Some fi"
proof -
  have "take 2 k = FILE_PREFIX" using assms(2) by (intro prefix_tag) (simp_all add: FILE_PREFIX_def)
  with assms(1) show ?thesis
    by (cases rule: entry_ok.cases) (auto simp: key_tags take_2_seqk tag_defs intro: that)
qed

lemma file_key_prefix [simp]: "prefix FILE_PREFIX (file_key n)"
  by (simp add: keys_by_tail)

text \<open>The committed entries, in the order of the scan.\<close>

abbreviation file_entries :: "(bytes \<rightharpoonup> 'v, 'b) folder_store \<Rightarrow> (bytes \<times> 'v) list" where
  "file_entries c \<equiv> entries_of (prefix FILE_PREFIX) (fs_db c)"

lemma file_entry_cases:
  assumes "wf_store lib c" and "kv \<in> set (file_entries c)"
  obtains n fi v where "good_name n" "kv = (file_key n, v)" "a_files (ast lib c) n = Some fi"
    "file_val lib v = Some fi"
proof -
  obtain k v where kv: "kv = (k, v)" by fastforce
  have v: "fs_db c k = Some v" "prefix FILE_PREFIX k"
    using assms kv by (auto simp: entry_in_map wf_view_def)
  obtain n fi where n: "good_name n" "k = file_key n" "file_val lib v = Some fi"
    using file_prefix_entry [OF wf_viewD [OF assms(1) v(1)] v(2)] by metis
  then have "a_files (ast lib c) n = Some fi" using v(1) by (simp add: astore_of_def lookup_at_def)
  with n kv show ?thesis using that by simp
qed

lemma file_entry_exists:
  assumes "wf_store lib c" and "good_name n" and "a_files (ast lib c) n = Some fi"
  obtains v where "(file_key n, v) \<in> set (file_entries c)" "file_val lib v = Some fi"
proof -
  obtain v where v: "fs_db c (file_key n) = Some v" "file_val lib v = Some fi"
    using file_lookup [OF assms(1,2)] assms(3) by (auto simp: file_val_def)
  then have "(file_key n, v) \<in> set (file_entries c)"
    using assms(1) by (simp add: entry_in_map wf_view_def)
  with v show ?thesis using that by simp
qed

definition entry_file :: "('v, 'b) lib \<Rightarrow> bytes \<times> 'v \<Rightarrow> file_info" where
  "entry_file lib kv = bep_of (the (file_val lib (snd kv)))"

lemma entry_file_name:
  assumes "wf_store lib c" "idx_inv (ast lib c)" "kv \<in> set (file_entries c)"
  shows "fst kv = file_key (fi_name (entry_file lib kv))"
  using assms(1,3)
proof (cases rule: file_entry_cases)
  case (1 n fi v)
  then show ?thesis
    using idx_invD(1,3) [OF assms(2) 1(3)] by (simp add: entry_file_def bep_of_sel)
qed

lemma set_entry_files:
  assumes "wf_store lib c" "idx_inv (ast lib c)"
  shows "entry_file lib ` set (file_entries c) = bep_of ` ran (a_files (ast lib c))"
proof (intro set_eqI iffI)
  fix x assume "x \<in> entry_file lib ` set (file_entries c)"
  then obtain kv where kv: "kv \<in> set (file_entries c)" and x: "x = entry_file lib kv" by blast
  from assms(1) kv show "x \<in> bep_of ` ran (a_files (ast lib c))"
    by (cases rule: file_entry_cases) (auto simp: x entry_file_def ran_def)
next
  fix x assume "x \<in> bep_of ` ran (a_files (ast lib c))"
  then obtain n fi where n: "a_files (ast lib c) n = Some fi" "x = bep_of fi" by (auto simp: ran_def)
  obtain v where "(file_key n, v) \<in> set (file_entries c)" "file_val lib v = Some fi"
    by (rule file_entry_exists [OF assms(1) idx_invD(2) [OF assms(2) n(1)] n(1)])
  then show "x \<in> entry_file lib ` set (file_entries c)"
    using n(2) by (intro image_eqI [of _ _ "(file_key n, v)"]) (simp_all add: entry_file_def)
qed

lemma distinct_entry_files:
  assumes "wf_store lib c" "idx_inv (ast lib c)"
  shows "distinct (map fi_name (map (entry_file lib) (file_entries c)))"
proof -
  have "distinct (map fst (file_entries c))" by (simp add: map_fst_entries_of)
  moreover have "map fst (file_entries c)
      = map file_key (map fi_name (map (entry_file lib) (file_entries c)))"
    using entry_file_name [OF assms] by simp
  ultimately show ?thesis by (metis distinct_map)
qed

lemma all_files_map:
  assumes inv: "store_inv lib C c"
  shows "all_files map_slate lib c = (Inr (map (entry_file lib) (file_entries c)), c)"
proof -
  note wf = store_invD(1) [OF inv] and idx = store_invD(2) [OF inv]
  let ?body = "\<lambda>(k, v) files.
      bnd (lift_res (file_of_msg lib ''missing file_info in File index entry'' v)) (\<lambda>fi.
      bnd (lift_res (b_of_file_info fi)) (\<lambda>b. ok (Inl (files @ [b]) :: file_info list + file_info list)))"
  have "?body kv acc c = (Inr (Inl (acc @ [entry_file lib kv])), c)"
    if kv: "kv \<in> set (file_entries c)" for kv acc
    using wf kv
  proof (cases rule: file_entry_cases)
    case (1 n fi v)
    then have "file_of_msg lib ''missing file_info in File index entry'' v = Inr fi"
      by (auto simp: file_val_def file_of_msg_def decoded_def bind_eq_Some_conv)
    then show ?thesis
      using 1 idx_invD(3) [OF idx 1(3)] by (simp add: run_simps b_of_file_info_ok entry_file_def)
  qed
  then have "for_iter (file_entries c) None [] ?body c
      = (Inr (Inl (fold (\<lambda>kv acc. acc @ [entry_file lib kv]) (file_entries c) [])), c)"
    by (rule for_iter_pure_on)
  then show ?thesis
    unfolding all_files_def by (simp add: bnd_def op_simps on_db_map fold_append_map)
qed

section \<open>Cleaning the inbox\<close>

definition stale :: "epoch \<Rightarrow> bytes \<Rightarrow> bool" where
  "stale current k \<longleftrightarrow>
     (case parse_inbox_key k of Some (e, _) \<Rightarrow> epoch_less e current | None \<Rightarrow> False)"

lemma apply_deletes: "apply_batch (map BDelete ks) V = (\<lambda>k. if k \<in> set ks then None else V k)"
  by (induction ks arbitrary: V) auto

lemma gc_inbox_fold:
  "fold (\<lambda>(k, v) (batch, count). case parse_inbox_key k of
       Some (e, _) \<Rightarrow> if epoch_less e current then (batch @ [BDelete k], count + 1) else (batch, count)
     | None \<Rightarrow> (batch, count)) kvs (b, n)
   = (b @ map BDelete (filter (stale current) (map fst kvs)),
      n + length (filter (stale current) (map fst kvs)))"
  by (induction kvs arbitrary: b n) (auto simp: stale_def split: option.splits)

text \<open>Removing keys of the inbox class.\<close>

lemma lookup_at_restrict:
  "(\<And>x. good x \<Longrightarrow> key x \<notin> K) \<Longrightarrow>
   lookup_at good key dec (\<lambda>k. if k \<in> K then None else V k) = lookup_at good key dec V"
  by (auto simp: lookup_at_def)

lemma astore_of_drop_inbox:
  assumes "\<And>k. k \<in> K \<Longrightarrow> take 2 k = INBOX_PREFIX"
  shows "astore_of lib (\<lambda>k. if k \<in> K then None else V k)
    = (astore_of lib V)\<lparr>a_inbox := (\<lambda>x. if case_prod inbox_key x \<in> K then None
         else a_inbox (astore_of lib V) x)\<rparr>"
proof -
  have notin: "take 2 k \<noteq> INBOX_PREFIX \<Longrightarrow> k \<notin> K" for k using assms by blast
  have "IX_KEY \<notin> K" by (rule notin) (simp add: tag_defs)
  moreover have "case_prod block_reverse_key x \<notin> K" for x
    by (cases x) (auto intro!: notin simp: key_tags tag_defs)
  ultimately show ?thesis
    by (simp add: astore_of_def lookup_at_restrict notin key_tags take_2_seqk tag_defs case_prod_beta)
      (auto simp: lookup_at_def astore_of_def fun_eq_iff)
qed

lemma inbox_prefix_entry:
  assumes "entry_ok lib k v" and "prefix INBOX_PREFIX k"
  obtains e n fi where "wf_epoch e" "good_name n" "k = inbox_key e n" "inbox_val lib v = Some fi"
proof -
  have "take 2 k = INBOX_PREFIX" using assms(2) by (intro prefix_tag) (simp_all add: INBOX_PREFIX_def)
  with assms(1) show ?thesis
    by (cases rule: entry_ok.cases) (auto simp: key_tags take_2_seqk tag_defs intro: that)
qed

text \<open>The inbox without the entries of the earlier epochs, and their number.\<close>

definition drop_stale :: "epoch \<Rightarrow> astore \<Rightarrow> astore" where
  "drop_stale current a =
     a\<lparr>a_inbox := (\<lambda>x. if epoch_less (fst x) current then None else a_inbox a x)\<rparr>"

definition stale_count :: "epoch \<Rightarrow> astore \<Rightarrow> nat" where
  "stale_count current a = card {x \<in> dom (a_inbox a). epoch_less (fst x) current}"

abbreviation inbox_entries :: "(bytes \<rightharpoonup> 'v, 'b) folder_store \<Rightarrow> (bytes \<times> 'v) list" where
  "inbox_entries c \<equiv> entries_of (prefix INBOX_PREFIX) (fs_db c)"

lemma stale_keys:
  assumes wf: "wf_store lib c"
  shows "set (filter (stale current) (map fst (inbox_entries c)))
    = case_prod inbox_key ` {x \<in> dom (a_inbox (ast lib c)). epoch_less (fst x) current}"
proof (intro set_eqI iffI)
  fix k assume "k \<in> set (filter (stale current) (map fst (inbox_entries c)))"
  then obtain v where v: "fs_db c k = Some v" "prefix INBOX_PREFIX k" and st: "stale current k"
    using wf by (auto simp: entry_in_map wf_view_def)
  obtain e n fi where k: "wf_epoch e" "good_name n" "k = inbox_key e n" "inbox_val lib v = Some fi"
    using inbox_prefix_entry [OF wf_viewD [OF wf v(1)] v(2)] by metis
  then have "epoch_less e current" "a_inbox (ast lib c) (e, n) = Some fi"
    using st v(1) by (simp_all add: stale_def parse_inbox_key_enc astore_of_def lookup_at_def ok_inbox_def)
  then show "k \<in> case_prod inbox_key ` {x \<in> dom (a_inbox (ast lib c)). epoch_less (fst x) current}"
    using k(3) by (intro image_eqI [of _ _ "(e, n)"]) auto
next
  fix k assume "k \<in> case_prod inbox_key ` {x \<in> dom (a_inbox (ast lib c)). epoch_less (fst x) current}"
  then obtain e n fi where x: "k = inbox_key e n" "a_inbox (ast lib c) (e, n) = Some fi"
    "epoch_less e current" by auto
  then have ok: "wf_epoch e" "good_name n" and "fs_db c k \<noteq> None"
    by (auto simp: astore_of_def lookup_at_def ok_inbox_def split: if_splits bind_splits)
  then obtain v where "(k, v) \<in> set (inbox_entries c)"
    using wf x(1) by (auto simp: entry_in_map wf_view_def keys_by_tail)
  moreover have "stale current k" using ok x by (simp add: stale_def parse_inbox_key_enc)
  ultimately show "k \<in> set (filter (stale current) (map fst (inbox_entries c)))" by force
qed

abbreviation stale_in :: "epoch \<Rightarrow> (bytes \<rightharpoonup> 'v, 'b) folder_store \<Rightarrow> bytes list" where
  "stale_in current c \<equiv> filter (stale current) (map fst (inbox_entries c))"

lemma inbox_dom_ok: "a_inbox (astore_of lib V) x = Some fi \<Longrightarrow> ok_inbox x"
  by (auto simp: astore_of_def lookup_at_def split: if_splits)

lemma stale_key_iff:
  assumes "wf_store lib c" and "a_inbox (ast lib c) x = Some fi"
  shows "case_prod inbox_key x \<in> set (stale_in current c) \<longleftrightarrow> epoch_less (fst x) current"
proof -
  have "case_prod inbox_key x = case_prod inbox_key y \<longleftrightarrow> x = y" if "y \<in> dom (a_inbox (ast lib c))" for y
    using that inbox_dom_ok [OF assms(2)] inbox_dom_ok ok_keys_eq(1) by blast
  then show ?thesis unfolding stale_keys [OF assms(1)] using assms(2) by auto
qed

lemma length_stale_in:
  assumes wf: "wf_store lib c"
  shows "length (stale_in current c) = stale_count current (ast lib c)"
proof -
  have "distinct (map fst (inbox_entries c))" by (simp add: map_fst_entries_of)
  then have "distinct (stale_in current c)" by (rule distinct_filter)
  then have "length (stale_in current c) = card (set (stale_in current c))"
    by (rule distinct_card [symmetric])
  also have "\<dots> = stale_count current (ast lib c)"
    unfolding stale_keys [OF wf] stale_count_def
    by (intro card_image inj_onI) (auto dest!: inbox_dom_ok simp: ok_inbox_def inbox_key_eq)
  finally show ?thesis .
qed

lemma astore_of_stale:
  assumes wf: "wf_store lib c"
  shows "astore_of lib (\<lambda>k. if k \<in> set (stale_in current c) then None else fs_db c k)
    = drop_stale current (ast lib c)"
proof -
  have "take 2 k = INBOX_PREFIX" if "k \<in> set (stale_in current c)" for k
    using that unfolding stale_keys [OF wf] by (auto simp: key_tags)
  moreover have "(if case_prod inbox_key x \<in> set (stale_in current c) then None
        else a_inbox (ast lib c) x)
      = (if epoch_less (fst x) current then None else a_inbox (ast lib c) x)" for x
    using stale_key_iff [OF wf] by (cases "a_inbox (ast lib c) x") auto
  ultimately show ?thesis
    using astore_of_drop_inbox [of "set (stale_in current c)" lib "fs_db c"]
    by (simp only: drop_stale_def)
qed

lemma store_inv_drop_stale:
  assumes "store_inv lib C c" and "wf_store lib c'" and "ast lib c' = drop_stale current (ast lib c)"
    and "fs_blockseq c' = fs_blockseq c"
  shows "store_inv lib C c'"
  using assms store_invD(2,3) [OF assms(1)] unfolding store_inv_def assms(3)
  by (auto simp: drop_stale_def idx_inv_def blk_inv_def block_good_def range_inv_def allocated_def
      next_bs_def split: if_splits)

lemma gc_inbox_map:
  assumes inv: "store_inv lib C c"
  obtains c' where "gc_inbox map_slate current c = (Inr (stale_count current (ast lib c)), c')"
    "ast lib c' = drop_stale current (ast lib c)" "store_inv lib C c'"
proof
  note wf = store_invD(1) [OF inv]
  let ?c' = "c\<lparr>fs_db := (\<lambda>k. if k \<in> set (stale_in current c) then None else fs_db c k)\<rparr>"
  show a: "ast lib ?c' = drop_stale current (ast lib c)" using astore_of_stale [OF wf] by simp
  have wf': "wf_store lib ?c'"
    using wf by (auto simp: wf_view_def dom_def split: if_splits elim!: rev_finite_subset)
  show "store_inv lib C ?c'" by (rule store_inv_drop_stale [OF inv wf' a]) simp
  let ?g = "\<lambda>(k, v) (batch, count). case parse_inbox_key k of
       Some (e, _) \<Rightarrow> if epoch_less e current then (batch @ [BDelete k], count + 1) else (batch, count)
     | None \<Rightarrow> (batch, count)"
  have "for_iter (inbox_entries c) None ([], 0) (\<lambda>(k, v) (batch, count).
          ok (Inl (?g (k, v) (batch, count)) :: ('a batch \<times> nat) + nat)) c
      = (Inr (Inl (fold ?g (inbox_entries c) ([], 0))), c)"
    by (rule for_iter_pure) (auto simp: op_simps)
  moreover have "?c' = c" if "stale_count current (ast lib c) = 0"
  proof -
    have "stale_in current c = []"
      using length_stale_in [OF wf, of current] that by (simp only: length_0_conv)
    then have "(\<lambda>k. if k \<in> set (stale_in current c) then None else fs_db c k) = fs_db c"
      by (simp only: list.set) simp
    then show ?thesis by simp
  qed
  ultimately show "gc_inbox map_slate current c = (Inr (stale_count current (ast lib c)), ?c')"
    unfolding gc_inbox_fold using length_stale_in [OF wf]
    by (simp add: gc_inbox_def bnd_def op_simps on_db_map write_non_durable_def apply_deletes)
qed

end
