(* ===== verification/StoreBlocks.thy ===== *)
theory StoreBlocks
  imports StoreScan
begin

text \<open>
  Blocks on the reference map: the search for a stored copy, the allocation of block sequence
  numbers, and the operations that store, share and read blocks.
\<close>

section \<open>Looking for a stored copy\<close>

lemma for_iter_search:
  "(\<And>kv. kv \<in> set kvs \<Longrightarrow>
      body kv () c = (Inr (case g kv of None \<Rightarrow> Inl () | Some x \<Rightarrow> Inr x), c)) \<Longrightarrow>
   for_iter kvs None () body c =
     (Inr (case find (\<lambda>kv. g kv \<noteq> None) kvs of None \<Rightarrow> Inl () | Some kv \<Rightarrow> Inr (the (g kv))), c)"
  by (induction kvs) (auto simp: bnd_def op_simps split: option.splits)

lemma ptr_lookup:
  assumes "wf_view lib V" "utf8_valid d" "length h = HASH_LEN"
  shows "V (block_pointer_key d h) = None \<and> a_ptr (astore_of lib V) (d, h) = None \<or>
    (\<exists>v r. V (block_pointer_key d h) = Some v \<and> a_ptr (astore_of lib V) (d, h) = Some r \<and>
       dec_ref lib v = Some r)"
proof (cases "V (block_pointer_key d h)")
  case None
  then show ?thesis by (simp add: astore_of_def lookup_at_def)
next
  case (Some v)
  then obtain r where "dec_ref lib v = Some r"
    using entry_ok_ptrD [OF wf_viewD [OF assms(1) Some] refl assms(2,3)] by blast
  with Some assms show ?thesis by (simp add: astore_of_def lookup_at_def ok_ptr_def)
qed

lemma data_lookup:
  "MIN_BLOCK_SEQ \<le> q \<Longrightarrow>
   a_data (astore_of lib V) q = map_option (unraw lib) (V (block_data_seq_key q))"
  by (cases "V (block_data_seq_key q)") (simp_all add: astore_of_def lookup_at_def)

lemma reverse_prefix_entry:
  assumes "entry_ok lib k v" and "prefix (block_reverse_prefix h) k" and "length h = HASH_LEN"
  obtains n where "good_name n" "k = block_reverse_key h n"
proof -
  have "prefix BLOCK_REV_PREFIX k" using assms(2)
    by (auto simp: block_reverse_prefix_def prefix_def)
  then have "take 2 k = BLOCK_REV_PREFIX" by (intro prefix_tag) (simp_all add: BLOCK_REV_PREFIX_def)
  with assms show ?thesis
    by (cases rule: entry_ok.cases)
      (auto simp: key_tags take_2_seqk tag_defs reverse_prefix_iff intro: that)
qed

text \<open>The candidate a reverse reference gives.\<close>

definition candidate :: "astore \<Rightarrow> bytes \<Rightarrow> bytes \<Rightarrow> (bytes \<times> block_ref) option" where
  "candidate a h n =
     (case a_ptr a (dirname n, h) of
        None \<Rightarrow> None
      | Some r \<Rightarrow> if a_data a (seqno r) = None then None else Some (dirname n, r))"

lemma a_rev_entry:
  assumes "wf_view lib V" and "(h, n) \<in> a_rev (astore_of lib V)"
  obtains v where "(block_reverse_key h n, v) \<in> set (entries_of (prefix (block_reverse_prefix h)) V)"
    "good_name n"
proof -
  obtain v where "V (block_reverse_key h n) = Some v" "ok_rev (h, n)"
    using assms(2) by (auto simp: astore_of_def)
  then show ?thesis
    using that assms(1) by (auto simp: entry_in_map wf_view_def ok_rev_def reverse_prefix_iff)
qed

lemma probe_reverse_ref_map:
  assumes inv: "store_inv lib C c" and h: "length hash = HASH_LEN" and n: "good_name n"
  shows "probe_reverse_ref map_slate lib hash (block_reverse_key hash n, v) u c
    = (Inr (case candidate (ast lib c) hash n of None \<Rightarrow> Inl () | Some x \<Rightarrow> Inr x), c)"
proof -
  note wf = store_invD(1) [OF inv] and blk = store_invD(3) [OF inv]
  show ?thesis
  proof (cases "a_ptr (ast lib c) (dirname n, hash)")
    case None
    then show ?thesis
      using ptr_lookup [OF wf good_dirname [OF n] h]
      by (auto simp: probe_reverse_ref_def parse_block_reverse_key_enc h n run_simps candidate_def)
  next
    case (Some r)
    then have r: "MIN_BLOCK_SEQ \<le> seqno r" using blk by (auto simp: blk_inv_def allocated_def)
    obtain v' where "fs_db c (block_pointer_key (dirname n) hash) = Some v'" "dec_ref lib v' = Some r"
      using ptr_lookup [OF wf good_dirname [OF n] h] Some by auto
    then show ?thesis
      using Some r data_lookup [OF r, of lib "fs_db c"]
      by (auto simp: probe_reverse_ref_def parse_block_reverse_key_enc h n run_simps candidate_def
          decoded_def validate_block_seq_def split: option.splits)
  qed
qed

definition probe_result :: "astore \<Rightarrow> bytes \<Rightarrow> bytes \<times> 'v \<Rightarrow> (bytes \<times> block_ref) option" where
  "probe_result a h kv = Option.bind (parse_block_reverse_key (fst kv)) (\<lambda>(_, n). candidate a h n)"

text \<open>The copy the search finds: the first candidate, unless a compaction may drop the block.\<close>

definition stored_copy ::
  "('v, 'b) lib \<Rightarrow> (bytes \<rightharpoonup> 'v, 'b) folder_store \<Rightarrow> bytes \<Rightarrow> (bytes \<times> block_ref) option" where
  "stored_copy lib c hash =
     (if is_block_safe lib hash (fs_gc c)
      then Option.bind (find (\<lambda>kv. probe_result (ast lib c) hash kv \<noteq> None)
         (entries_of (prefix (block_reverse_prefix hash)) (fs_db c))) (probe_result (ast lib c) hash)
      else None)"

lemma find_block_dir_map:
  assumes inv: "store_inv lib C c" and h: "length hash = HASH_LEN"
  shows "find_block_dir map_slate lib hash c = (Inr (stored_copy lib c hash), c)"
proof -
  note wf = store_invD(1) [OF inv]
  let ?es = "entries_of (prefix (block_reverse_prefix hash)) (fs_db c)"
  have "probe_reverse_ref map_slate lib hash kv () c
      = (Inr (case probe_result (ast lib c) hash kv of None \<Rightarrow> Inl () | Some x \<Rightarrow> Inr x), c)"
    if kv: "kv \<in> set ?es" for kv
  proof -
    obtain k v where k: "kv = (k, v)" by fastforce
    have v: "fs_db c k = Some v" "prefix (block_reverse_prefix hash) k"
      using kv k wf by (auto simp: entry_in_map wf_view_def)
    obtain n where n: "good_name n" "k = block_reverse_key hash n"
      using reverse_prefix_entry [OF wf_viewD [OF wf v(1)] v(2) h] by metis
    then show ?thesis
      using probe_reverse_ref_map [OF inv h n(1)]
      by (simp add: k probe_result_def parse_block_reverse_key_enc h)
  qed
  then have "for_iter ?es None () (probe_reverse_ref map_slate lib hash) c =
     (Inr (case find (\<lambda>kv. probe_result (ast lib c) hash kv \<noteq> None) ?es of None \<Rightarrow> Inl ()
        | Some kv \<Rightarrow> Inr (the (probe_result (ast lib c) hash kv))), c)"
    by (rule for_iter_search)
  moreover have "probe_result (ast lib c) hash kv \<noteq> None"
    if "find (\<lambda>kv. probe_result (ast lib c) hash kv \<noteq> None) ?es = Some kv" for kv
    using that by (auto simp: find_Some_iff)
  ultimately show ?thesis
    by (cases "find (\<lambda>kv. probe_result (ast lib c) hash kv \<noteq> None) ?es")
      (auto simp: find_block_dir_def stored_copy_def bnd_def op_simps on_db_map)
qed

lemma stored_copy_Some:
  assumes inv: "store_inv lib C c" and "stored_copy lib c hash = Some (d, r)"
  shows "utf8_valid d" "a_ptr (ast lib c) (d, hash) = Some r"
    "a_data (ast lib c) (seqno r) = Some (C hash)" "allocated (ast lib c) (fs_blockseq c) (seqno r)"
proof -
  obtain kv :: "bytes \<times> 'a" where "probe_result (ast lib c) hash kv = Some (d, r)"
    using assms(2) by (auto simp: stored_copy_def bind_eq_Some_conv split: if_splits)
  then obtain n where "candidate (ast lib c) hash n = Some (d, r)"
    by (auto simp: probe_result_def bind_eq_Some_conv split: prod.splits)
  then have "a_ptr (ast lib c) (d, hash) = Some r" "a_data (ast lib c) (seqno r) \<noteq> None"
    by (auto simp: candidate_def split: option.splits if_splits)
  then show "utf8_valid d" "a_ptr (ast lib c) (d, hash) = Some r"
    "a_data (ast lib c) (seqno r) = Some (C hash)" "allocated (ast lib c) (fs_blockseq c) (seqno r)"
    using store_invD(3) [OF inv]
    by (auto simp: blk_inv_def astore_of_def lookup_at_def ok_ptr_def split: if_splits)
qed

text \<open>Outside compactions, a block with a reference and its data is found.\<close>

lemma stored_copy_found:
  assumes inv: "store_inv lib C c" and safe: "is_block_safe lib hash (fs_gc c)"
    and rev: "(hash, n) \<in> a_rev (ast lib c)" and cand: "candidate (ast lib c) hash n \<noteq> None"
  shows "stored_copy lib c hash \<noteq> None"
proof -
  note wf = store_invD(1) [OF inv]
  let ?es = "entries_of (prefix (block_reverse_prefix hash)) (fs_db c)"
  have h: "length hash = HASH_LEN" using rev by (auto simp: astore_of_def ok_rev_def)
  obtain v where v: "(block_reverse_key hash n, v) \<in> set ?es" "good_name n"
    using a_rev_entry [OF wf rev] by blast
  then have "probe_result (ast lib c) hash (block_reverse_key hash n, v) \<noteq> None"
    using cand by (simp add: probe_result_def parse_block_reverse_key_enc h)
  with v(1) have "find (\<lambda>kv. probe_result (ast lib c) hash kv \<noteq> None) ?es \<noteq> None"
    by (auto simp: find_None_iff)
  then obtain kv where kv: "find (\<lambda>kv. probe_result (ast lib c) hash kv \<noteq> None) ?es = Some kv" by blast
  then have "probe_result (ast lib c) hash kv \<noteq> None" by (auto simp: find_Some_iff)
  with kv safe show ?thesis by (simp add: stored_copy_def)
qed

section \<open>Allocation\<close>

definition has_room :: "astore \<Rightarrow> bool" where
  "has_room a \<longleftrightarrow> unat (max (next_bs a) MIN_BLOCK_SEQ) + 256 < 2 ^ 64"

text \<open>A state that differs in the block counter only, in which a fresh number is allocated.\<close>

definition allocates :: "astore \<Rightarrow> seq_range \<Rightarrow> u64 \<Rightarrow> astore \<Rightarrow> seq_range \<Rightarrow> bool" where
  "allocates a q s a' q' \<longleftrightarrow>
     \<not> allocated a q s \<and> allocated a' q' s \<and> range_inv a' q' \<and>
     (\<forall>t. allocated a q t \<longrightarrow> allocated a' q' t) \<and>
     (\<exists>nb. a' = a\<lparr>a_meta := (a_meta a)\<lparr>fm_next_blockseq := nb\<rparr>\<rparr>)"

lemma block_good_grow:
  "block_good C a q b \<Longrightarrow> (\<And>t. allocated a q t \<Longrightarrow> allocated a' q' t) \<Longrightarrow>
   (\<And>t x. a_data a t = Some x \<Longrightarrow> a_data a' t = Some x) \<Longrightarrow> block_good C a' q' b"
  by (auto simp: block_good_def)

text \<open>Growing the set of allocated numbers, and the data at numbers nothing refers to.\<close>

lemma blk_inv_grow:
  assumes inv: "blk_inv C a q" and range: "range_inv a' q'"
    and alloc: "\<And>t. allocated a q t \<Longrightarrow> allocated a' q' t"
    and same: "a_files a' = a_files a" "a_inbox a' = a_inbox a" "a_ptr a' = a_ptr a"
    and data: "\<And>t. allocated a q t \<Longrightarrow> a_data a' t = a_data a t"
      "\<And>t x. a_data a' t = Some x \<Longrightarrow> allocated a' q' t"
  shows "blk_inv C a' q'"
proof (rule blk_invI [OF range])
  note D = blk_invD [OF inv]
  have grow: "a_data a' t = Some x" if "a_data a t = Some x" for t x
    using data(1) [OF D(6) [OF that]] that by simp
  have good: "blocks_good C a' q' fi" if "blocks_good C a q fi" for fi
    using that by (auto intro: block_good_grow [OF _ alloc grow])
  show "blocks_good C a' q' fi" if "a_files a' n = Some fi" for n fi
    using D(2) [of n fi] that by (intro good) (simp add: same)
  show "blocks_good C a' q' fi" if "a_inbox a' x = Some fi" for x fi
    using D(3) [of x fi] that by (intro good) (simp add: same)
  show "allocated a' q' (seqno r)" if "a_ptr a' (d, h) = Some r" for d h r
    using D(4) [of d h r] that by (intro alloc) (simp add: same)
  show "x = C h" if "a_ptr a' (d, h) = Some r" "a_data a' (seqno r) = Some x" for d h r x
    using D(4,5) [of d h r] that data(1) [of "seqno r"] by (simp add: same)
  show "allocated a' q' s" if "a_data a' s = Some x" for s x using that by (rule data(2))
qed

lemma allocates_inv:
  assumes al: "allocates a q s a' q'" and inv: "blk_inv C a q"
  shows "blk_inv C a' q'" "blk_inv C (a'\<lparr>a_data := (a_data a')(s \<mapsto> x)\<rparr>) q'"
proof -
  have same: "a_files a' = a_files a" "a_inbox a' = a_inbox a" "a_ptr a' = a_ptr a"
    "a_data a' = a_data a" using al by (auto simp: allocates_def)
  have s: "\<not> allocated a q s" "allocated a' q' s" "range_inv a' q'"
    and mono: "\<And>t. allocated a q t \<Longrightarrow> allocated a' q' t" using al by (auto simp: allocates_def)
  note data = blk_invD(6) [OF inv]
  show "blk_inv C a' q'"
    by (rule blk_inv_grow [OF inv s(3) mono]) (auto simp: same data mono)
  have eq: "allocated (a'\<lparr>a_data := z\<rparr>) q' t = allocated a' q' t"
    "range_inv (a'\<lparr>a_data := z\<rparr>) q' = range_inv a' q'" for t z
    by (simp_all add: allocated_def range_inv_def next_bs_def)
  show "blk_inv C (a'\<lparr>a_data := (a_data a')(s \<mapsto> x)\<rparr>) q'"
    by (rule blk_inv_grow [OF inv]) (use s mono data in \<open>auto simp: same eq split: if_splits\<close>)
qed

lemma allocates_idx: "allocates a q s a' q' \<Longrightarrow> idx_inv a' = idx_inv a"
  by (auto simp: allocates_def idx_inv_def)

text \<open>Arithmetic of a reservation.\<close>

lemma word_room:
  assumes "unat (b :: u64) + 256 < 2 ^ 64"
  shows "b < b + 1" "b + 1 \<le> b + 256" "t \<le> b \<Longrightarrow> t < b + 1" "t < b \<Longrightarrow> t < b + 256"
  using assms by (auto simp: word_less_nat_alt word_le_nat_alt unat_word_ariths)

lemma word_succ:
  assumes "x < (y :: u64)"
  shows "t < x + 1 \<longleftrightarrow> t \<le> x" "x + 1 \<le> y"
proof -
  have "unat y < 2 ^ 64" using unsigned_less [of y] by simp
  with assms have "unat (x + 1) = unat x + 1" by (simp add: unat_word_ariths word_less_nat_alt)
  with assms show "t < x + 1 \<longleftrightarrow> t \<le> x" "x + 1 \<le> y"
    by (auto simp: word_less_nat_alt word_le_nat_alt)
qed

lemma allocates_next:
  assumes "range_inv a q" and "sr_next q < sr_end q"
  shows "allocates a q (sr_next q) a (q\<lparr>sr_next := sr_next q + 1\<rparr>)"
proof -
  note succ = word_succ [OF assms(2)]
  have up: "\<not> sr_next q + 1 \<le> sr_next q" "\<And>t. sr_next q + 1 \<le> t \<Longrightarrow> sr_next q \<le> t"
    using succ(1) by (auto simp: not_less [symmetric])
  show ?thesis unfolding allocates_def
  proof (intro conjI)
    show "\<exists>nb. a = a\<lparr>a_meta := (a_meta a)\<lparr>fm_next_blockseq := nb\<rparr>\<rparr>"
      by (rule exI [of _ "fm_next_blockseq (a_meta a)"]) simp
    show "range_inv a (q\<lparr>sr_next := sr_next q + 1\<rparr>)"
      using assms succ(2) by (auto simp: range_inv_def less_imp_le succ(1)
          intro: order_trans [of _ "sr_next q"])
  qed (use assms up in \<open>auto simp: allocated_def range_inv_def\<close>)
qed

lemma allocates_refill:
  assumes "range_inv a q" and "\<not> sr_next q < sr_end q" and "has_room a"
    and "base = max (next_bs a) MIN_BLOCK_SEQ"
    and "a' = a\<lparr>a_meta := (a_meta a)\<lparr>fm_next_blockseq := Some (base + 256)\<rparr>\<rparr>"
  shows "allocates a q base a' \<lparr>sr_next = base + 1, sr_end = base + 256\<rparr>"
    "range_inv a' q" "\<And>t. allocated a q t \<Longrightarrow> allocated a' q t"
proof -
  have room: "unat base + 256 < 2 ^ 64" using assms by (simp add: has_room_def)
  have nb: "next_bs a' = base + 256" by (simp add: assms(5) next_bs_def)
  have le: "next_bs a \<le> base" "MIN_BLOCK_SEQ \<le> base" by (simp_all add: assms(4))
  have old: "t < base + 256" "\<not> base + 1 \<le> t" if "t < next_bs a" for t
    using that le(1) word_room(3,4) [OF room, of t]
    by (auto simp: not_le intro: order_less_le_trans)
  have "sr_end q \<le> base + 256"
    using assms(1) le(1) word_room(1,2) [OF room] by (auto simp: range_inv_def)
  then show "range_inv a' q" using assms(1) by (simp add: range_inv_def nb)
  show "allocated a q t \<Longrightarrow> allocated a' q t" for t
    using old by (auto simp: allocated_def nb)
  have "MIN_BLOCK_SEQ \<le> base + 1" using le(2) word_room(1) [OF room] by auto
  then show "allocates a q base a' \<lparr>sr_next = base + 1, sr_end = base + 256\<rparr>"
    using old le word_room(1,2) [OF room] nb
    unfolding allocates_def allocated_def range_inv_def assms(5) by (auto simp: not_less)
qed

lemma store_inv_meta:
  assumes "codec_laws lib" and "store_inv lib C c"
  shows "wf_view lib ((fs_db c)(IX_KEY \<mapsto> enc_meta lib m))"
    "astore_of lib ((fs_db c)(IX_KEY \<mapsto> enc_meta lib m)) = (ast lib c)\<lparr>a_meta := m\<rparr>"
  using assms store_invD(1) [OF assms(2)]
  by (auto intro!: wf_view_put entry_ok.intros simp: codec_lawsD astore_of_meta)

lemma allocate_map:
  assumes laws: "codec_laws lib" and inv: "store_inv lib C c" and room: "has_room (ast lib c)"
  obtains s c' where "allocate map_slate lib c = (Inr s, c')" "fs_gc c' = fs_gc c" "wf_store lib c'"
    "allocates (ast lib c) (fs_blockseq c) s (ast lib c') (fs_blockseq c')"
proof (cases "sr_next (fs_blockseq c) < sr_end (fs_blockseq c)")
  case True
  let ?q = "(fs_blockseq c)\<lparr>sr_next := sr_next (fs_blockseq c) + 1\<rparr>"
  show ?thesis
    using that [of "sr_next (fs_blockseq c)" "c\<lparr>fs_blockseq := ?q\<rparr>"] True store_invD [OF inv]
      allocates_next [OF blk_invD(1) [OF store_invD(3) [OF inv]] True]
    by (simp add: allocate_def take_reserved_def run_simps Let_def)
next
  case False
  let ?base = "max (next_bs (ast lib c)) MIN_BLOCK_SEQ"
  let ?m = "(a_meta (ast lib c))\<lparr>fm_next_blockseq := Some (?base + 256)\<rparr>"
  let ?c' = "c\<lparr>fs_db := (fs_db c)(IX_KEY \<mapsto> enc_meta lib ?m),
    fs_blockseq := \<lparr>sr_next = ?base + 1, sr_end = ?base + 256\<rparr>\<rparr>"
  have run: "allocate map_slate lib c = (Inr ?base, ?c')"
    using False get_index_meta_map [OF store_invD(1) [OF inv]]
    by (simp add: allocate_def take_reserved_def refill_def run_simps put_non_durable_def
        RESERVATION_N_def next_bs_def Let_def)
  show ?thesis
    by (rule that [OF run])
      (use store_inv_meta [OF laws inv] allocates_refill(1) [OF blk_invD(1) [OF store_invD(3) [OF inv]]
          False room refl refl] in simp_all)
qed

section \<open>Storing and sharing blocks\<close>

text \<open>The entry a block operation rewrites.\<close>

definition put_entry :: "epoch option \<Rightarrow> bytes \<Rightarrow> s_file_info \<Rightarrow> astore \<Rightarrow> astore" where
  "put_entry ep n fi a =
     (case ep of
        None \<Rightarrow> a\<lparr>a_files := (a_files a)(n \<mapsto> fi)\<rparr>
      | Some e \<Rightarrow> a\<lparr>a_inbox := (a_inbox a)((e, n) \<mapsto> fi)\<rparr>)"

definition entry_key :: "epoch option \<Rightarrow> bytes \<Rightarrow> bytes" where
  "entry_key ep n = (case ep of None \<Rightarrow> file_key n | Some e \<Rightarrow> inbox_key e n)"

lemma entry_put_view:
  assumes "codec_laws lib" and "good_name n" and "\<And>e. ep = Some e \<Longrightarrow> wf_epoch e" and "b \<longleftrightarrow> ep \<noteq> None"
  shows "astore_of lib (apply_op (entry_put lib (entry_key ep n) b fi) V)
      = put_entry ep n fi (astore_of lib V)"
    "wf_view lib V \<Longrightarrow> wf_view lib (apply_op (entry_put lib (entry_key ep n) b fi) V)"
  using assms
  by (auto simp: entry_put_def entry_key_def put_entry_def astore_of_writes file_val_enc inbox_val_enc
      split: option.splits intro!: wf_view_put entry_ok.intros)

lemma entry_forD:
  assumes "entry_for a epoch n = Some (fi, ep)"
  shows "ep = None \<and> a_files a n = Some fi \<or> (\<exists>e. ep = Some e \<and> epoch = Some e \<and> a_inbox a (e, n) = Some fi)"
  using assms by (cases epoch) (auto simp: entry_for_def split: option.splits)

lemma set_pointer_sel [simp]:
  "sf_name (set_pointer h s d fi) = sf_name fi" "sf_type (set_pointer h s d fi) = sf_type fi"
  "sf_sequence (set_pointer h s d fi) = sf_sequence fi"
  "sf_version (set_pointer h s d fi) = sf_version fi"
  by (simp_all add: set_pointer_def)

lemma put_entry_inv:
  assumes ent: "entry_for a epoch n = Some (fi, ep)" and idx: "idx_inv a" and blk: "blk_inv C b q"
    and same: "a_files b = a_files a" "a_inbox b = a_inbox a" "a_seqs b = a_seqs a"
      "max_seq b = max_seq a"
    and good: "blocks_good C b q (set_pointer h s d fi)"
  shows "idx_inv (put_entry ep n (set_pointer h s d fi) b)"
    "blk_inv C (put_entry ep n (set_pointer h s d fi) b) q"
proof -
  consider (main) "ep = None" "a_files a n = Some fi"
    | (inbox) e where "ep = Some e" "a_inbox a (e, n) = Some fi" using entry_forD [OF ent] by blast
  then have "idx_inv (put_entry ep n (set_pointer h s d fi) b) \<and>
      blk_inv C (put_entry ep n (set_pointer h s d fi) b) q"
  proof cases
    case main
    have "idx_inv (put_entry ep n (set_pointer h s d fi) b)"
      by (rule idx_inv_file_blocks [OF idx main(2)])
        (simp_all add: put_entry_def main same set_pointer_def)
    moreover have "blk_inv C (put_entry ep n (set_pointer h s d fi) b) q"
      by (rule blk_inv_file [OF blk good]) (simp_all add: put_entry_def main next_bs_def)
    ultimately show ?thesis by simp
  next
    case inbox
    then have "sf_name fi = n" "ok_type (sf_type fi)" using idx by (auto simp: idx_inv_def)
    then have "idx_inv (put_entry ep n (set_pointer h s d fi) b)"
      by (intro idx_inv_inbox [OF idx, where x = "(e, n)" and w = "Some (set_pointer h s d fi)"])
        (auto simp: put_entry_def inbox same)
    moreover have "blk_inv C (put_entry ep n (set_pointer h s d fi) b) q"
      by (rule blk_inv_inbox [OF blk, where x = "(e, n)" and w = "Some (set_pointer h s d fi)"])
        (use good in \<open>auto simp: put_entry_def inbox next_bs_def\<close>)
    ultimately show ?thesis by simp
  qed
  then show "idx_inv (put_entry ep n (set_pointer h s d fi) b)"
    "blk_inv C (put_entry ep n (set_pointer h s d fi) b) q" by simp_all
qed

text \<open>The state in which a hash has a pointer in a directory and a reverse reference.\<close>

definition with_refs :: "bytes \<Rightarrow> bytes \<Rightarrow> u64 \<Rightarrow> astore \<Rightarrow> astore" where
  "with_refs n h s a =
     a\<lparr>a_ptr := (a_ptr a)((dirname n, h) \<mapsto> \<lparr>seqno = s\<rparr>), a_rev := insert (h, n) (a_rev a)\<rparr>"

lemma with_refs_sel [simp]:
  "a_files (with_refs n h s a) = a_files a" "a_inbox (with_refs n h s a) = a_inbox a"
  "a_seqs (with_refs n h s a) = a_seqs a" "a_meta (with_refs n h s a) = a_meta a"
  "a_data (with_refs n h s a) = a_data a" "a_remote (with_refs n h s a) = a_remote a"
  "a_ptr (with_refs n h s a) = (a_ptr a)((dirname n, h) \<mapsto> \<lparr>seqno = s\<rparr>)"
  "a_rev (with_refs n h s a) = insert (h, n) (a_rev a)"
  by (simp_all add: with_refs_def)

lemma with_refs_inv:
  assumes "blk_inv C a q" and "allocated a q s" and "a_data a s = Some (C h)"
  shows "blk_inv C (with_refs n h s a) q"
proof -
  have eq: "allocated (with_refs n h s a) q t = allocated a q t"
    "range_inv (with_refs n h s a) q = range_inv a q"
    "block_good C (with_refs n h s a) q b = block_good C a q b" for t b
    by (simp_all add: allocated_def range_inv_def next_bs_def block_good_def)
  note D = blk_invD [OF assms(1)]
  show ?thesis
  proof (rule blk_invI, unfold eq)
    show "range_inv a q" by (rule D)
    show "blocks_good C a q fi" if "a_files (with_refs n h s a) m = Some fi" for m fi
      using D(2) that by simp
    show "blocks_good C a q fi" if "a_inbox (with_refs n h s a) x = Some fi" for x fi
      using D(3) that by simp
    show "allocated a q (seqno r)" if "a_ptr (with_refs n h s a) (d, h') = Some r" for d h' r
      using D(4) that assms(2) by (auto split: if_splits)
    show "x = C h'" if "a_ptr (with_refs n h s a) (d, h') = Some r"
      "a_data (with_refs n h s a) (seqno r) = Some x" for d h' r x
      using D(5) [of d h' r x] that assms(3) by (auto split: if_splits)
    show "allocated a q t" if "a_data (with_refs n h s a) t = Some x" for t x
      using D(6) that by simp
  qed
qed

lemma block_write_inv:
  assumes ent: "entry_for a epoch n = Some (fi, ep)" and idx: "idx_inv a" and blk: "blk_inv C b q"
    and same: "a_files b = a_files a" "a_inbox b = a_inbox a" "a_seqs b = a_seqs a"
      "max_seq b = max_seq a"
    and s: "allocated b q s" "a_data b s = Some (C h)"
  shows "idx_inv (put_entry ep n (set_pointer h (Some s) None fi) (with_refs n h s b))"
    "blk_inv C (put_entry ep n (set_pointer h (Some s) None fi) (with_refs n h s b)) q"
proof -
  let ?b = "with_refs n h s b"
  have b: "blk_inv C ?b q" by (rule with_refs_inv [OF blk s])
  have alloc: "allocated ?b q s" using s(1) by (simp add: allocated_def next_bs_def)
  have "blocks_good C ?b q fi"
    using entry_forD [OF ent] blk_invD(2,3) [OF b] same by auto
  then have good: "blocks_good C ?b q (set_pointer h (Some s) None fi)"
    by (rule set_pointer_good) (use alloc s(2) in simp_all)
  show "idx_inv (put_entry ep n (set_pointer h (Some s) None fi) ?b)"
    "blk_inv C (put_entry ep n (set_pointer h (Some s) None fi) ?b) q"
    by (rule put_entry_inv [OF ent idx b _ _ _ _ good]; simp add: same)+
qed

text \<open>The batches of the block operations.\<close>

lemma share_view:
  assumes "codec_laws lib" and n: "good_name n" and h: "length h = HASH_LEN"
    and "\<And>e. ep = Some e \<Longrightarrow> wf_epoch e" and r: "a_ptr (astore_of lib V) (d, h) = Some r"
    and W: "W = apply_batch ((if d \<noteq> dirname n
      then [BPut (block_pointer_key (dirname n) h) (enc_ref lib r)] else []) @
    [BPut (block_reverse_key h n) (raw lib []), entry_put lib (entry_key ep n) (ep \<noteq> None) fi]) V"
  shows "astore_of lib W = put_entry ep n fi (with_refs n h (seqno r) (astore_of lib V))"
    "wf_view lib V \<Longrightarrow> wf_view lib W"
proof -
  have id: "(a_ptr (astore_of lib V))((dirname n, h) \<mapsto> r) = a_ptr (astore_of lib V)" if "d = dirname n"
    using r that by auto
  have eta: "\<lparr>seqno = seqno r\<rparr> = r" "a\<lparr>a_ptr := a_ptr a\<rparr> = a" for a by simp_all
  show "astore_of lib W = put_entry ep n fi (with_refs n h (seqno r) (astore_of lib V))"
    unfolding W using entry_put_view(1) [OF assms(1) n assms(4)] good_dirname [OF n]
    by (simp add: with_refs_def astore_of_writes h n codec_lawsD [OF assms(1)] id eta)
  show "wf_view lib V \<Longrightarrow> wf_view lib W"
    unfolding W using good_dirname [OF n] h n assms(1)
    by (auto intro!: entry_put_view(2) [OF assms(1) n assms(4)] wf_view_put entry_ok.intros
        simp: codec_lawsD [OF assms(1)])
qed

lemma fresh_view:
  assumes "codec_laws lib" and n: "good_name n" and h: "length h = HASH_LEN"
    and "\<And>e. ep = Some e \<Longrightarrow> wf_epoch e" and s: "MIN_BLOCK_SEQ \<le> s"
    and W: "W = apply_batch ([BPut (block_data_seq_key s) (raw lib data),
      BPut (block_pointer_key (dirname n) h) (enc_ref lib \<lparr>seqno = s\<rparr>)] @
    [BPut (block_reverse_key h n) (raw lib []), entry_put lib (entry_key ep n) (ep \<noteq> None) fi]) V"
  shows "astore_of lib W = put_entry ep n fi (with_refs n h s
      ((astore_of lib V)\<lparr>a_data := (a_data (astore_of lib V))(s \<mapsto> data)\<rparr>))"
    "wf_view lib V \<Longrightarrow> wf_view lib W"
  unfolding W using good_dirname [OF n] h n s assms(1)
  by (auto intro!: entry_put_view(2) [OF assms(1) n assms(4)] wf_view_put entry_ok.intros
      simp: entry_put_view(1) [OF assms(1) n assms(4)] with_refs_def astore_of_writes
        codec_lawsD [OF assms(1)])

text \<open>What a successful block operation does to the typed state.\<close>

definition wrote_block ::
  "epoch option \<Rightarrow> bytes \<Rightarrow> bytes \<Rightarrow> s_file_info \<Rightarrow> bytes \<Rightarrow> astore \<Rightarrow> astore \<Rightarrow> bool" where
  "wrote_block ep n h fi x a a' \<longleftrightarrow>
     (\<exists>w p. a_files a' = a_files (put_entry ep n (set_pointer h w p fi) a) \<and>
        a_inbox a' = a_inbox (put_entry ep n (set_pointer h w p fi) a) \<and>
        (case p of Some d \<Rightarrow> d = x | None \<Rightarrow> \<exists>s. w = Some s \<and> a_data a' s = Some x)) \<and>
     a_seqs a' = a_seqs a \<and> max_seq a' = max_seq a \<and> a_remote a' = a_remote a \<and>
     (\<forall>s y. a_data a s = Some y \<longrightarrow> a_data a' s = Some y)"

lemma put_entry_sel [simp]:
  "a_seqs (put_entry ep n fi a) = a_seqs a" "a_meta (put_entry ep n fi a) = a_meta a"
  "a_remote (put_entry ep n fi a) = a_remote a" "a_data (put_entry ep n fi a) = a_data a"
  "a_ptr (put_entry ep n fi a) = a_ptr a" "a_rev (put_entry ep n fi a) = a_rev a"
  by (simp_all add: put_entry_def split: option.splits)

lemma put_entry_other [simp]:
  "a_files (put_entry ep n fi (with_refs m h s b)) = a_files (put_entry ep n fi b)"
  "a_inbox (put_entry ep n fi (with_refs m h s b)) = a_inbox (put_entry ep n fi b)"
  "a_files (put_entry ep n fi (b\<lparr>a_data := x\<rparr>)) = a_files (put_entry ep n fi b)"
  "a_inbox (put_entry ep n fi (b\<lparr>a_data := x\<rparr>)) = a_inbox (put_entry ep n fi b)"
  "a_files (put_entry ep n fi (b\<lparr>a_meta := y\<rparr>)) = a_files (put_entry ep n fi b)"
  "a_inbox (put_entry ep n fi (b\<lparr>a_meta := y\<rparr>)) = a_inbox (put_entry ep n fi b)"
  by (simp_all add: put_entry_def split: option.splits)

lemma find_file_entry_eval:
  assumes "wf_store lib c" "good_name n" "\<And>e. epoch = Some e \<Longrightarrow> wf_epoch e"
  shows "find_file_entry map_slate lib epoch n c =
    (case entry_for (ast lib c) epoch n of
       None \<Rightarrow> Inl (NotFound ''file not found in inbox or main index'')
     | Some (fi, ep) \<Rightarrow> Inr (fi, entry_key ep n, ep \<noteq> None), c)"
  using find_file_entry_map [OF assms]
  by (auto simp: entry_key_def split: option.splits)

lemma entry_for_epoch:
  assumes "entry_for a epoch n = Some (fi, ep)" and "\<And>e. epoch = Some e \<Longrightarrow> wf_epoch e"
    and "ep = Some e"
  shows "wf_epoch e"
  using assms(2,3) entry_forD [OF assms(1)] by auto

definition share_state where
  "share_state lib ep n h d r fi g c = c\<lparr>fs_db := apply_batch ((if d \<noteq> dirname n
      then [BPut (block_pointer_key (dirname n) h) (enc_ref lib r)] else []) @
    [BPut (block_reverse_key h n) (raw lib []),
     entry_put lib (entry_key ep n) (ep \<noteq> None) (set_pointer h (Some (seqno r)) None fi)]) (fs_db c),
    fs_gc := g\<rparr>"

lemma share_inv:
  assumes "codec_laws lib" and inv: "store_inv lib C c" and n: "good_name n" "length h = HASH_LEN"
    "\<And>e. epoch = Some e \<Longrightarrow> wf_epoch e"
    and copy: "stored_copy lib c h = Some (d, r)"
    and ent: "entry_for (ast lib c) epoch n = Some (fi, ep)"
    and c': "c' = share_state lib ep n h d r fi g c"
  shows "store_inv lib C c'" "wrote_block ep n h fi (C h) (ast lib c) (ast lib c')"
proof -
  note wf = store_invD [OF inv] and r = stored_copy_Some [OF inv copy]
  have ep: "wf_epoch e" if "ep = Some e" for e by (rule entry_for_epoch [OF ent n(3) that])
  note view = share_view [where ep = ep, OF assms(1) n(1,2) ep r(2) refl]
  have a': "ast lib c' = put_entry ep n (set_pointer h (Some (seqno r)) None fi)
      (with_refs n h (seqno r) (ast lib c))"
    using view(1) [where fi = "set_pointer h (Some (seqno r)) None fi"] by (simp add: c' share_state_def)
  have "wf_store lib c'"
    using view(2) [OF _ wf(1), where fi = "set_pointer h (Some (seqno r)) None fi"] by (simp add: c' share_state_def)
  moreover have "fs_blockseq c' = fs_blockseq c" by (simp add: c' share_state_def)
  moreover have "idx_inv (ast lib c')" "blk_inv C (ast lib c') (fs_blockseq c)"
    unfolding a' by (rule block_write_inv [OF ent wf(2,3) _ _ _ _ r(4,3)]; rule refl)+
  ultimately show "store_inv lib C c'" by (simp only: store_inv_def simp_thms)
  show "wrote_block ep n h fi (C h) (ast lib c) (ast lib c')"
    using r(3) unfolding wrote_block_def a'
    by (intro conjI exI [of _ "Some (seqno r)"] exI [of _ None]) simp_all
qed

lemma reuse_block_map:
  assumes "codec_laws lib" and inv: "store_inv lib C c" and n: "good_name n" "length h = HASH_LEN"
    "\<And>e. epoch = Some e \<Longrightarrow> wf_epoch e"
  shows "stored_copy lib c h = None \<Longrightarrow> reuse_block map_slate lib epoch n h c = (Inr False, c)"
    "stored_copy lib c h \<noteq> None \<Longrightarrow> entry_for (ast lib c) epoch n = None \<Longrightarrow>
     reuse_block map_slate lib epoch n h c
       = (Inl (NotFound ''file not found in inbox or main index''), c)"
    "stored_copy lib c h \<noteq> None \<Longrightarrow> entry_for (ast lib c) epoch n = Some (fi, ep) \<Longrightarrow>
     \<not> has_hash h fi \<Longrightarrow> reuse_block map_slate lib epoch n h c = (Inl not_found_block, c)"
    "stored_copy lib c h \<noteq> None \<Longrightarrow> entry_for (ast lib c) epoch n = Some (fi, ep) \<Longrightarrow>
     has_hash h fi \<Longrightarrow> \<exists>c'. reuse_block map_slate lib epoch n h c = (Inr True, c') \<and>
       store_inv lib C c' \<and> wrote_block ep n h fi (C h) (ast lib c) (ast lib c')"
proof -
  note eval = reuse_block_def run_simps n(2) find_block_dir_map [OF inv n(2)]
    find_file_entry_eval [OF store_invD(1) [OF inv] n(1,3)] write_non_durable_def
  show "reuse_block map_slate lib epoch n h c = (Inr False, c)" if "stored_copy lib c h = None"
    using that by (simp add: eval)
  assume "stored_copy lib c h \<noteq> None"
  then obtain d r where copy: "stored_copy lib c h = Some (d, r)" by auto
  show "reuse_block map_slate lib epoch n h c
      = (Inl (NotFound ''file not found in inbox or main index''), c)"
    if "entry_for (ast lib c) epoch n = None" using that copy by (simp add: eval)
  show "reuse_block map_slate lib epoch n h c = (Inl not_found_block, c)"
    if "entry_for (ast lib c) epoch n = Some (fi, ep)" "\<not> has_hash h fi"
    using that copy by (simp add: eval)
  assume ent: "entry_for (ast lib c) epoch n = Some (fi, ep)" "has_hash h fi"
  let ?c = "share_state lib ep n h d r fi (record_block_write lib h (Some (seqno r)) (fs_gc c)) c"
  have "reuse_block map_slate lib epoch n h c = (Inr True, ?c)"
    using ent copy by (simp add: eval share_state_def)
  then show "\<exists>c'. reuse_block map_slate lib epoch n h c = (Inr True, c') \<and>
       store_inv lib C c' \<and> wrote_block ep n h fi (C h) (ast lib c) (ast lib c')"
    using share_inv [OF assms(1) inv n copy ent(1) refl] by blast
qed

lemma store_block_inline:
  assumes "codec_laws lib" and inv: "store_inv lib C c" and n: "good_name n" "length h = HASH_LEN"
    "\<And>e. epoch = Some e \<Longrightarrow> wf_epoch e"
    and small: "int (length data) < INLINE_BLOCK_THRESHOLD"
    and ent: "entry_for (ast lib c) epoch n = Some (fi, ep)" "has_hash h fi" and data: "data = C h"
  shows "\<exists>c'. store_block map_slate lib epoch n h data c = (Inr (), c') \<and>
     store_inv lib C c' \<and> wrote_block ep n h fi (C h) (ast lib c) (ast lib c')"
proof -
  note wf = store_invD [OF inv]
  let ?fi = "set_pointer h None (Some data) fi"
  let ?c = "c\<lparr>fs_db := apply_op (entry_put lib (entry_key ep n) (ep \<noteq> None) ?fi) (fs_db c)\<rparr>"
  have run: "store_block map_slate lib epoch n h data c = (Inr (), ?c)"
    using small ent
    by (simp add: store_block_def run_simps n(2) find_file_entry_eval [OF wf(1) n(1,3)]
        write_non_durable_def)
  have ep: "wf_epoch e" if "ep = Some e" for e by (rule entry_for_epoch [OF ent(1) n(3) that])
  note view = entry_put_view [where ep = ep, OF assms(1) n(1) ep refl]
  have "blocks_good C (ast lib c) (fs_blockseq c) fi"
    using entry_forD [OF ent(1)] blk_invD(2,3) [OF wf(3)] by auto
  then have good: "blocks_good C (ast lib c) (fs_blockseq c) ?fi"
    by (rule set_pointer_good) (use data in simp_all)
  have a': "ast lib ?c = put_entry ep n ?fi (ast lib c)" using view(1) by simp
  have "store_inv lib C ?c"
    using a' view(2) wf put_entry_inv [OF ent(1) wf(2,3) refl refl refl refl good]
    by (simp add: store_inv_def)
  moreover have "wrote_block ep n h fi (C h) (ast lib c) (ast lib ?c)"
    unfolding wrote_block_def a'
    by (intro conjI exI [of _ None] exI [of _ "Some data"]) (simp_all add: data)
  ultimately show ?thesis using run by blast
qed

lemma store_block_shared:
  assumes "codec_laws lib" and inv: "store_inv lib C c" and n: "good_name n" "length h = HASH_LEN"
    "\<And>e. epoch = Some e \<Longrightarrow> wf_epoch e"
    and large: "\<not> int (length data) < INLINE_BLOCK_THRESHOLD"
    and copy: "stored_copy lib c h = Some (d, r)"
    and ent: "entry_for (ast lib c) epoch n = Some (fi, ep)" "has_hash h fi"
  shows "\<exists>c'. store_block map_slate lib epoch n h data c = (Inr (), c') \<and>
     store_inv lib C c' \<and> wrote_block ep n h fi (C h) (ast lib c) (ast lib c')"
proof -
  let ?c = "share_state lib ep n h d r fi (record_block_write lib h (Some (seqno r)) (fs_gc c)) c"
  have "store_block map_slate lib epoch n h data c = (Inr (), ?c)"
    using ent copy large
    by (simp add: store_block_def run_simps n(2) find_block_dir_map [OF inv n(2)] share_state_def
        find_file_entry_eval [OF store_invD(1) [OF inv] n(1,3)] write_non_durable_def)
  then show ?thesis using share_inv [OF assms(1) inv n copy ent(1) refl] by blast
qed

end
