(* ===== verification/StoreWrites.thy ===== *)
theory StoreWrites
  imports StoreBlocks
begin

text \<open>
  Storing a block whose data is new, reading blocks, and the simulation of the operations that
  write more than once: \<open>allocate\<close> and \<open>store_block\<close>.
\<close>

section \<open>Storing new data\<close>

lemma allocates_same:
  assumes "allocates a q s a' q'"
  shows "a_files a' = a_files a" "a_inbox a' = a_inbox a" "a_seqs a' = a_seqs a"
    "max_seq a' = max_seq a" "a_data a' = a_data a" "a_remote a' = a_remote a"
    "entry_for a' = entry_for a" "allocated a' q' s" "\<not> allocated a q s"
    "put_entry ep n fi (a'\<lparr>a_data := x\<rparr>) = (put_entry ep n fi a)\<lparr>a_data := x, a_meta := a_meta a'\<rparr>"
  using assms by (auto simp: allocates_def entry_for_def fun_eq_iff put_entry_def split: option.splits)

definition fresh_state where
  "fresh_state lib ep n h s data fi g c =
     c\<lparr>fs_db := apply_batch ([BPut (block_data_seq_key s) (raw lib data),
        BPut (block_pointer_key (dirname n) h) (enc_ref lib \<lparr>seqno = s\<rparr>)] @
      [BPut (block_reverse_key h n) (raw lib []),
       entry_put lib (entry_key ep n) (ep \<noteq> None) (set_pointer h (Some s) None fi)]) (fs_db c),
      fs_gc := g\<rparr>"

lemma fresh_inv:
  assumes "codec_laws lib" and inv: "store_inv lib C c" and n: "good_name n" "length h = HASH_LEN"
    "\<And>e. epoch = Some e \<Longrightarrow> wf_epoch e"
    and ent: "entry_for (ast lib c) epoch n = Some (fi, ep)"
    and al: "allocates (ast lib c) (fs_blockseq c) s (ast lib c1) (fs_blockseq c1)" "wf_store lib c1"
    and c': "c' = fresh_state lib ep n h s (C h) fi g c1"
  shows "store_inv lib C c'" "wrote_block ep n h fi (C h) (ast lib c) (ast lib c')"
proof -
  note wf = store_invD [OF inv] and same = allocates_same [OF al(1)]
  have ep: "wf_epoch e" if "ep = Some e" for e by (rule entry_for_epoch [OF ent n(3) that])
  have s: "MIN_BLOCK_SEQ \<le> s" using same(8) by (simp add: allocated_def)
  let ?b = "(ast lib c1)\<lparr>a_data := (a_data (ast lib c1))(s \<mapsto> C h)\<rparr>"
  note view = fresh_view [where ep = ep, OF assms(1) n(1,2) ep s refl]
  have a': "ast lib c' = put_entry ep n (set_pointer h (Some s) None fi) (with_refs n h s ?b)"
    using view(1) [where fi = "set_pointer h (Some s) None fi"] by (simp add: c' fresh_state_def)
  have wf': "wf_store lib c'"
    using view(2) [OF _ al(2), where fi = "set_pointer h (Some s) None fi"]
    by (simp add: c' fresh_state_def)
  have q: "fs_blockseq c' = fs_blockseq c1" by (simp add: c' fresh_state_def)
  have b: "blk_inv C ?b (fs_blockseq c1)" by (rule allocates_inv(2) [OF al(1) wf(3)])
  have "allocated ?b (fs_blockseq c1) s" using same(8) by (simp add: allocated_def next_bs_def)
  then have "idx_inv (ast lib c')" "blk_inv C (ast lib c') (fs_blockseq c1)"
    unfolding a' by (intro block_write_inv [OF ent wf(2) b]; simp add: same)+
  with wf' q show "store_inv lib C c'" by (simp add: store_inv_def)
  have keep: "s \<noteq> t" if "a_data (ast lib c) t = Some y" for t y
    using blk_invD(6) [OF wf(3) that] same(9) by auto
  show "wrote_block ep n h fi (C h) (ast lib c) (ast lib c')"
    unfolding wrote_block_def a'
    by (intro conjI exI [of _ "Some s"] exI [of _ None])
      (use keep in \<open>auto simp: put_entry_def same split: option.splits\<close>)
qed

lemma store_block_new:
  assumes "codec_laws lib" and inv: "store_inv lib C c" and room: "has_room (ast lib c)"
    and n: "good_name n" "length h = HASH_LEN" "\<And>e. epoch = Some e \<Longrightarrow> wf_epoch e"
    and large: "\<not> int (length (C h)) < INLINE_BLOCK_THRESHOLD" and copy: "stored_copy lib c h = None"
    and ent: "entry_for (ast lib c) epoch n = Some (fi, ep)" "has_hash h fi"
  shows "\<exists>c'. store_block map_slate lib epoch n h (C h) c = (Inr (), c') \<and>
     store_inv lib C c' \<and> wrote_block ep n h fi (C h) (ast lib c) (ast lib c')"
proof (rule allocate_map [OF assms(1) inv room])
  fix s c1 assume al: "allocate map_slate lib c = (Inr s, c1)" "fs_gc c1 = fs_gc c" "wf_store lib c1"
    "allocates (ast lib c) (fs_blockseq c) s (ast lib c1) (fs_blockseq c1)"
  let ?c = "fresh_state lib ep n h s (C h) fi (record_block_write lib h (Some s) (fs_gc c)) c1"
  have "store_block map_slate lib epoch n h (C h) c = (Inr (), ?c)"
    using ent large copy al
    by (simp add: store_block_def run_simps n(2) find_block_dir_map [OF inv n(2)] fresh_state_def
        find_file_entry_eval [OF al(3) n(1,3)] write_non_durable_def allocates_same(7) [OF al(4)])
  then show ?thesis using fresh_inv [OF assms(1) inv n ent(1) al(4,3) refl] by blast
qed

text \<open>The branches together.\<close>

lemma store_block_ok:
  assumes "codec_laws lib" and inv: "store_inv lib C c" and room: "has_room (ast lib c)"
    and n: "good_name n" "length h = HASH_LEN" "\<And>e. epoch = Some e \<Longrightarrow> wf_epoch e"
    and ent: "entry_for (ast lib c) epoch n = Some (fi, ep)" "has_hash h fi" and data: "data = C h"
  shows "\<exists>c'. store_block map_slate lib epoch n h data c = (Inr (), c') \<and>
     store_inv lib C c' \<and> wrote_block ep n h fi data (ast lib c) (ast lib c')"
proof (cases "int (length data) < INLINE_BLOCK_THRESHOLD")
  case True
  then show ?thesis using store_block_inline [OF assms(1,2) n _ ent] data by simp
next
  case False
  then show ?thesis
    using store_block_new [OF assms(1,2) room n _ _ ent] store_block_shared [OF assms(1,2) n _ _ ent]
      data by (cases "stored_copy lib c h") auto
qed

lemma store_block_missing:
  assumes "codec_laws lib" and inv: "store_inv lib C c" and room: "has_room (ast lib c)"
    and n: "good_name n" "length h = HASH_LEN" "\<And>e. epoch = Some e \<Longrightarrow> wf_epoch e"
    and none: "\<And>fi ep. entry_for (ast lib c) epoch n = Some (fi, ep) \<Longrightarrow> \<not> has_hash h fi"
  shows "\<exists>x c'. store_block map_slate lib epoch n h data c = (Inl (NotFound x), c') \<and>
     store_inv lib C c' \<and> a_files (ast lib c') = a_files (ast lib c) \<and>
     a_inbox (ast lib c') = a_inbox (ast lib c) \<and> a_data (ast lib c') = a_data (ast lib c)"
proof -
  note wf = store_invD [OF inv]
  note eval = store_block_def run_simps n(2) find_block_dir_map [OF inv n(2)] not_found_block_def
  note find_entry = find_file_entry_eval [OF _ n(1,3)]
  show ?thesis
  proof (cases "int (length data) < INLINE_BLOCK_THRESHOLD \<or> stored_copy lib c h \<noteq> None")
    case True
    then show ?thesis
      using none inv find_entry [OF wf(1)]
      by (cases "entry_for (ast lib c) epoch n") (auto simp: eval)
  next
    case False
    then have large: "\<not> int (length data) < INLINE_BLOCK_THRESHOLD" and "stored_copy lib c h = None"
      by blast+
    then show ?thesis
    proof (rule_tac allocate_map [OF assms(1) inv room])
      fix s c1 assume al: "allocate map_slate lib c = (Inr s, c1)" "wf_store lib c1"
        "allocates (ast lib c) (fs_blockseq c) s (ast lib c1) (fs_blockseq c1)"
      have "store_inv lib C c1"
        using al(2) allocates_inv(1) [OF al(3) wf(3)] allocates_idx [OF al(3)] wf(2)
        by (simp add: store_inv_def)
      then show ?thesis
        using large \<open>stored_copy lib c h = None\<close> none al(1) find_entry [OF al(2)]
          allocates_same(1,2,5,7) [OF al(3)]
        by (cases "entry_for (ast lib c) epoch n") (auto simp: eval)
    qed
  qed
qed

section \<open>Reading blocks\<close>

definition readable :: "bytes \<Rightarrow> s_file_info \<Rightarrow> bool" where
  "readable h fi \<longleftrightarrow> (\<exists>b \<in> set (sf_blocks fi). sb_hash b = h \<and> has_pointer b)"

lemma resolve_good:
  assumes "block_good C (ast lib c) (fs_blockseq c) b"
  shows "resolve_block_data map_slate lib b c
    = (Inr (if has_pointer b then Some (C (sb_hash b)) else None), c)"
proof (cases "sb_inline_data b")
  case (Some d)
  then show ?thesis using assms by (simp add: resolve_block_data_def op_simps has_pointer_def block_good_def)
next
  case None
  show ?thesis
  proof (cases "sb_blockseq b")
    case None
    then show ?thesis using \<open>sb_inline_data b = None\<close>
      by (simp add: resolve_block_data_def op_simps has_pointer_def)
  next
    case (Some s)
    then have s: "MIN_BLOCK_SEQ \<le> s" "a_data (ast lib c) s = Some (C (sb_hash b))"
      using assms by (auto simp: block_good_def allocated_def)
    then show ?thesis
      using \<open>sb_inline_data b = None\<close> Some data_lookup [OF s(1), of lib "fs_db c"]
      by (simp add: resolve_block_data_def run_simps has_pointer_def validate_block_seq_def)
  qed
qed

lemma read_block_loop_good:
  "\<forall>b \<in> set bs. block_good C (ast lib c) (fs_blockseq c) b \<Longrightarrow>
   read_block_loop map_slate lib h bs c =
     (if \<exists>b \<in> set bs. sb_hash b = h \<and> has_pointer b then Inr (C h)
      else Inl (NotFound ''block not found''), c)"
  by (induction bs) (auto simp: run_simps resolve_good)

lemma read_block_map:
  assumes inv: "store_inv lib C c" and n: "good_name n" "length h = HASH_LEN"
  shows "read_block map_slate lib n h c =
    (case a_files (ast lib c) n of
       Some fi \<Rightarrow> if readable h fi then Inr (C h) else Inl (NotFound ''block not found'')
     | None \<Rightarrow> Inl (NotFound ''block not found''), c)"
  using file_lookup [OF store_invD(1) [OF inv] n(1)] blk_invD(2) [OF store_invD(3) [OF inv], of n]
  by (auto simp: read_block_def run_simps n(2) decoded_def readable_def read_block_loop_good)

lemma readable_set_pointer:
  assumes "has_hash h fi" and "w \<noteq> None \<or> p \<noteq> None"
  shows "readable h (set_pointer h w p fi)"
proof -
  obtain b where b: "b \<in> set (sf_blocks fi)" "sb_hash b = h"
    using assms(1) by (auto simp: has_hash_def list_ex_iff)
  let ?b = "b\<lparr>sb_blockseq := w, sb_inline_data := p\<rparr>"
  have "?b \<in> set (sf_blocks (set_pointer h w p fi))"
    using b by (auto simp: set_pointer_def image_iff intro!: bexI [of _ b])
  moreover have "sb_hash ?b = h" "has_pointer ?b" using b assms(2) by (simp_all add: has_pointer_def)
  ultimately show ?thesis unfolding readable_def by blast
qed

lemma wrote_block_entry:
  assumes "wrote_block ep n h fi x a a'" and "has_hash h fi"
  obtains w p where "a_files a' = a_files (put_entry ep n (set_pointer h w p fi) a)"
    "a_inbox a' = a_inbox (put_entry ep n (set_pointer h w p fi) a)"
    "readable h (set_pointer h w p fi)" "w \<noteq> None \<or> p \<noteq> None"
proof -
  obtain w p where wp: "a_files a' = a_files (put_entry ep n (set_pointer h w p fi) a)"
    "a_inbox a' = a_inbox (put_entry ep n (set_pointer h w p fi) a)"
    "case p of Some d \<Rightarrow> d = x | None \<Rightarrow> \<exists>s. w = Some s \<and> a_data a' s = Some x"
    using assms(1) by (auto simp: wrote_block_def)
  then have "w \<noteq> None \<or> p \<noteq> None" by (auto split: option.splits)
  from that [OF wp(1,2) readable_set_pointer [OF assms(2) this] this] show ?thesis .
qed

section \<open>Copying a file's pointers\<close>

lemma rev_puts_view_all:
  "wf_view lib V \<Longrightarrow> good_name n \<Longrightarrow> \<forall>x \<in> set hs. length (fst x) = HASH_LEN \<Longrightarrow>
   W = apply_batch (map (\<lambda>(h, _). BPut (block_reverse_key h n) (raw lib [])) hs) V \<Longrightarrow>
   wf_view lib W \<and> astore_of lib W =
     (astore_of lib V)\<lparr>a_rev := (\<lambda>(h, _). (h, n)) ` set hs \<union> a_rev (astore_of lib V)\<rparr>"
proof (induction hs arbitrary: V)
  case (Cons x hs)
  obtain h q where x: "x = (h, q)" by fastforce
  let ?V = "V(block_reverse_key h n \<mapsto> raw lib [])"
  have h: "length h = HASH_LEN" using Cons.prems(3) x by simp
  have "wf_view lib ?V" using Cons.prems h by (intro wf_view_put entry_ok.intros)
  from Cons.IH [OF this Cons.prems(2)] Cons.prems h show ?case
    by (simp add: x astore_of_rev del: fun_upd_apply)
qed auto

lemma rev_puts_view:
  assumes "wf_view lib V" "good_name n" and "\<And>h q. (h, q) \<in> set hs \<Longrightarrow> length h = HASH_LEN"
    and "W = apply_batch (map (\<lambda>(h, _). BPut (block_reverse_key h n) (raw lib [])) hs) V"
  shows "wf_view lib W"
    "astore_of lib W = (astore_of lib V)\<lparr>a_rev := (\<lambda>(h, _). (h, n)) ` set hs \<union> a_rev (astore_of lib V)\<rparr>"
  using rev_puts_view_all [OF assms(1,2) _ assms(4)] assms(3) by fastforce+

definition copy_of :: "astore \<Rightarrow> file_info \<Rightarrow> bytes \<Rightarrow> s_file_info" where
  "copy_of a f src = carried a src (s_of_file_info f)"

lemma put_file_with_carry_map:
  assumes laws: "codec_laws lib" and inv: "store_inv lib C c"
    and n: "good_name (fi_name f)" "good_name src" and max: "max_seq (ast lib c) < i64_max"
  obtains c' R where "put_file_with_carry map_slate lib f src c = (Inr (max_seq (ast lib c) + 1), c')"
    "ast lib c' = a_commit (fi_name f) (copy_of (ast lib c) f src) ((ast lib c)\<lparr>a_rev := R\<rparr>)"
    "store_inv lib C c'"
proof -
  note wf = store_invD [OF inv]
  let ?stored = "copy_of (ast lib c) f src"
  let ?hs = "case a_files (ast lib c) src of None \<Rightarrow> [] | Some _ \<Rightarrow> carried_blocks ?stored"
  let ?batch = "map (\<lambda>(h, _). BPut (block_reverse_key h (fi_name f)) (raw lib [])) ?hs"
  let ?W = "apply_batch ?batch (fs_db c)"
  have hs: "length h = HASH_LEN" if "(h, q) \<in> set ?hs" for h q
    using that by (auto simp: carried_blocks_def List.map_filter_def split: option.splits if_splits)
  note W = rev_puts_view [OF wf(1) n(1) hs refl]
  let ?a = "(ast lib c)\<lparr>a_rev := a_rev (astore_of lib ?W)\<rparr>"
  have a: "astore_of lib ?W = ?a" by (simp only: W) simp
  have good: "blocks_good C (ast lib c) (fs_blockseq c) ?stored"
    unfolding copy_of_def by (rule carried_good [OF s_of_file_info_good wf(3)])
  obtain c' where c': "commit_with_new_seq map_slate lib (fi_name f) ?stored ?batch c =
       (Inr (max_seq (ast lib c) + 1,
          bep_of ((carried (ast lib c) (fi_name f) ?stored)\<lparr>sf_sequence := max_seq (ast lib c) + 1\<rparr>)), c')"
    "ast lib c' = a_commit (fi_name f) ?stored (astore_of lib ?W)" "store_inv lib C c'"
    "fs_gc c' = fs_gc c"
  proof (rule commit_ok [OF laws inv n(1) max _ _ refl W(1), of ?stored])
    show "sf_name ?stored = fi_name f" "ok_type (sf_type ?stored)" by (simp_all add: copy_of_def)
    show "idx_inv (astore_of lib ?W)" using wf(2) by (subst a) (simp add: idx_inv_def)
    show "blk_inv C (astore_of lib ?W) (fs_blockseq c)"
      using wf(3) by (subst a) (simp add: blk_inv_cong [of ?a "ast lib c"] next_bs_def)
    show "blocks_good C (astore_of lib ?W) (fs_blockseq c) ?stored"
      using good by (subst a) (simp add: block_good_cong [of ?a "ast lib c"] next_bs_def)
    show "a_files (astore_of lib ?W) = a_files (ast lib c)"
      "a_meta (astore_of lib ?W) = a_meta (ast lib c)" by (subst a, simp)+
  qed
  let ?g = "fold (\<lambda>(hash, q). record_block_write lib hash (Some q)) ?hs (fs_gc c')"
  have "put_file_with_carry map_slate lib f src c
      = (Inr (max_seq (ast lib c) + 1), c'\<lparr>fs_gc := ?g\<rparr>)"
    using c'(1) get_file_proto_map [OF wf(1) n(2)]
    by (cases "a_files (ast lib c) src")
      (simp_all add: put_file_with_carry_def run_simps copy_of_def carried_def Let_def)
  moreover have "ast lib (c'\<lparr>fs_gc := ?g\<rparr>) = a_commit (fi_name f) ?stored ?a" using c'(2) a by simp
  ultimately show ?thesis using that c'(3) by simp
qed

section \<open>Simulation\<close>

lemma sim_take_reserved: "sim (store_view A) c I take_reserved take_reserved"
  by (auto simp: sim_def take_reserved_def Let_def store_view_upd)

text \<open>The state between the write of a reservation and its use.\<close>

lemma reserved_inv:
  assumes lib: "codec_laws lib" and inv: "store_inv lib C c" and room: "has_room (ast lib c)"
    and spent: "\<not> sr_next (fs_blockseq c) < sr_end (fs_blockseq c)"
    and m: "m = (a_meta (ast lib c))\<lparr>fm_next_blockseq :=
      Some (max (next_bs (ast lib c)) MIN_BLOCK_SEQ + 256)\<rparr>"
  shows "store_inv lib C (c\<lparr>fs_db := (fs_db c)(IX_KEY \<mapsto> enc_meta lib m)\<rparr>)"
proof -
  note wf = store_invD [OF inv] and meta = store_inv_meta [OF lib inv, of m]
  note refill = allocates_refill [OF blk_invD(1) [OF wf(3)] spent room refl refl]
  have "blk_inv C ((ast lib c)\<lparr>a_meta := m\<rparr>) (fs_blockseq c)"
    unfolding m
    by (rule blk_inv_grow [OF wf(3) refill(2,3)]) (use blk_invD(6) [OF wf(3)] refill(3) in auto)
  moreover have "idx_inv ((ast lib c)\<lparr>a_meta := m\<rparr>)" using wf(2) by (simp add: idx_inv_def m)
  ultimately show ?thesis using meta by (simp add: store_inv_def)
qed

lemma sim_refill:
  assumes db: "slate_laws db A" and lib: "codec_laws lib" and inv: "store_inv lib C c"
    and room: "has_room (ast lib c)"
    and spent: "\<not> sr_next (fs_blockseq c) < sr_end (fs_blockseq c)"
  shows "sim (store_view A) c (store_inv lib C) (refill db lib) (refill map_slate lib)"
  unfolding refill_def
proof (rule sim_bnd_still)
  show "still (get_index_meta map_slate lib)" by (rule still_rules)
  show "sim (store_view A) c (store_inv lib C) (get_index_meta db lib) (get_index_meta map_slate lib)"
    by (rule sim_reads [where I = "store_inv lib C", OF db inv])
  fix meta assume "get_index_meta map_slate lib c = (Inr meta, c)"
  then have meta: "meta = a_meta (ast lib c)"
    using get_index_meta_map [OF store_invD(1) [OF inv]] by simp
  let ?base = "max (next_bs (ast lib c)) MIN_BLOCK_SEQ"
  let ?m = "(a_meta (ast lib c))\<lparr>fm_next_blockseq := Some (?base + 256)\<rparr>"
  let ?c = "c\<lparr>fs_db := (fs_db c)(IX_KEY \<mapsto> enc_meta lib ?m)\<rparr>"
  have inv': "store_inv lib C ?c" by (rule reserved_inv [OF lib inv room spent refl])
  have base: "max (case fm_next_blockseq meta of Some n \<Rightarrow> n | None \<Rightarrow> 0) MIN_BLOCK_SEQ = ?base"
    by (simp add: meta next_bs_def)
  have put: "sim (store_view A) c (store_inv lib C)
      (put_non_durable db IX_KEY (enc_meta lib ?m)) (put_non_durable map_slate IX_KEY (enc_meta lib ?m))"
    unfolding put_non_durable_def using inv' by (intro sim_write db inv) simp
  show "sim (store_view A) c (store_inv lib C)
     (let base = max (case fm_next_blockseq meta of Some n \<Rightarrow> n | None \<Rightarrow> 0) MIN_BLOCK_SEQ;
          next_limit = base + RESERVATION_N
      in bnd (put_non_durable db IX_KEY (enc_meta lib (meta\<lparr>fm_next_blockseq := Some next_limit\<rparr>))) (\<lambda>_.
         bnd (on_db (db_flush db)) (\<lambda>_.
         bnd (mod_st (\<lambda>s. s\<lparr>fs_blockseq := \<lparr>sr_next = base + 1, sr_end = next_limit\<rparr>\<rparr>)) (\<lambda>_. ok base))))
     (let base = max (case fm_next_blockseq meta of Some n \<Rightarrow> n | None \<Rightarrow> 0) MIN_BLOCK_SEQ;
          next_limit = base + RESERVATION_N
      in bnd (put_non_durable map_slate IX_KEY (enc_meta lib (meta\<lparr>fm_next_blockseq := Some next_limit\<rparr>))) (\<lambda>_.
         bnd (on_db (db_flush map_slate)) (\<lambda>_.
         bnd (mod_st (\<lambda>s. s\<lparr>fs_blockseq := \<lparr>sr_next = base + 1, sr_end = next_limit\<rparr>\<rparr>)) (\<lambda>_. ok base))))"
    unfolding Let_def base RESERVATION_N_def unfolding meta
  proof (rule sim_bnd [OF put], rule sim_bnd_still)
    fix u c' assume "put_non_durable map_slate IX_KEY (enc_meta lib ?m) c = (Inr u, c')"
    then have c': "c' = ?c" by (simp add: put_non_durable_def on_db_map)
    show "still (on_db (db_flush map_slate))" by (rule still_rules)
    show "sim (store_view A) c' (store_inv lib C) (on_db (db_flush db)) (on_db (db_flush map_slate))"
      unfolding c' by (rule sim_flush [where I = "store_inv lib C", OF db inv'])
  qed (intro sim_bnd sim_mod_st sim_ok store_view_upd)
qed

lemma sim_allocate:
  assumes db: "slate_laws db A" and lib: "codec_laws lib" and inv: "store_inv lib C c"
    and room: "has_room (ast lib c)"
  shows "sim (store_view A) c (store_inv lib C) (allocate db lib) (allocate map_slate lib)"
proof -
  have spent: "c' = c" "\<not> sr_next (fs_blockseq c) < sr_end (fs_blockseq c)"
    if "take_reserved c = (Inr None, c')" for c'
    using that by (auto simp: take_reserved_def Let_def split: if_splits)
  have again: "sim (store_view A) c' (store_inv lib C)
      (bnd take_reserved (\<lambda>r. case r of Some seq \<Rightarrow> ok seq | None \<Rightarrow> refill db lib))
      (bnd take_reserved (\<lambda>r. case r of Some seq \<Rightarrow> ok seq | None \<Rightarrow> refill map_slate lib))"
    if "take_reserved c = (Inr None, c')" for c'
    unfolding spent(1) [OF that]
  proof (rule sim_bnd [OF sim_take_reserved])
    fix r c'' assume "take_reserved c = (Inr r, c'')"
    then show "sim (store_view A) c'' (store_inv lib C)
      (case r of Some seq \<Rightarrow> ok seq | None \<Rightarrow> refill db lib)
      (case r of Some seq \<Rightarrow> ok seq | None \<Rightarrow> refill map_slate lib)"
      using spent [of c''] sim_refill [OF db lib inv room] by (cases r) (auto intro: sim_ok)
  qed
  show ?thesis unfolding allocate_def
  proof (rule sim_bnd [OF sim_take_reserved])
    fix r c' assume "take_reserved c = (Inr r, c')"
    then show "sim (store_view A) c' (store_inv lib C)
      (case r of Some seq \<Rightarrow> ok seq | None \<Rightarrow>
         bnd take_reserved (\<lambda>r. case r of Some seq \<Rightarrow> ok seq | None \<Rightarrow> refill db lib))
      (case r of Some seq \<Rightarrow> ok seq | None \<Rightarrow>
         bnd take_reserved (\<lambda>r. case r of Some seq \<Rightarrow> ok seq | None \<Rightarrow> refill map_slate lib))"
      using again by (cases r) (auto intro: sim_ok)
  qed
qed

lemma simw_store_block:
  assumes db: "slate_laws db A" and lib: "codec_laws lib" and inv: "store_inv lib C c"
    and room: "has_room (ast lib c)"
  shows "simw (store_view A) c (store_inv lib C) (store_block db lib epoch n h data)
    (store_block map_slate lib epoch n h data)"
proof -
  let ?I = "store_inv lib C"
  note reads = sim_reads [where I = ?I, OF db] sim_find_block_dir [where I = ?I, OF db]
    simw_write [where I = ?I, OF db] simw_write_bnd [where I = ?I, OF db]
  have inv_alloc: "?I c'" if "allocate map_slate lib c = (Inr s, c')" for s c'
  proof (rule allocate_map [OF lib inv room])
    fix s1 c1 assume al: "allocate map_slate lib c = (Inr s1, c1)" "wf_store lib c1"
      "allocates (ast lib c) (fs_blockseq c) s1 (ast lib c1) (fs_blockseq c1)"
    then show ?thesis
      using that allocates_inv(1) [OF al(3) store_invD(3) [OF inv]] allocates_idx [OF al(3)]
        store_invD(2) [OF inv] by (simp add: store_inv_def)
  qed
  have fin: "simw (store_view A) c' ?I
      (bnd (find_file_entry db lib epoch n) (\<lambda>(file_info, key, is_inbox).
         if \<not> has_hash h file_info then err not_found_block
         else bnd (write_non_durable db (b @ W key is_inbox file_info))
           (\<lambda>_. mod_st (\<lambda>s. s\<lparr>fs_gc := G (fs_gc s)\<rparr>))))
      (bnd (find_file_entry map_slate lib epoch n) (\<lambda>(file_info, key, is_inbox).
         if \<not> has_hash h file_info then err not_found_block
         else bnd (write_non_durable map_slate (b @ W key is_inbox file_info))
           (\<lambda>_. mod_st (\<lambda>s. s\<lparr>fs_gc := G (fs_gc s)\<rparr>))))" if "?I c'" for c' b W G
    by (intro simw_rules reads still_rules that sim_mod_st) (simp_all add: op_simps store_view_upd)
  have pick: "sim (store_view A) c ?I
      (case x of Some (d, r) \<Rightarrow> ok (f d r) | None \<Rightarrow> bnd (allocate db lib) (\<lambda>seq. ok (g seq)))
      (case x of Some (d, r) \<Rightarrow> ok (f d r) | None \<Rightarrow> bnd (allocate map_slate lib) (\<lambda>seq. ok (g seq)))"
    for x :: "(bytes \<times> block_ref) option" and f and g :: "u64 \<Rightarrow> 'z"
    by (intro sim_option sim_prod sim_bnd sim_allocate sim_ok assms)
  have pick_inv: "?I c'" if "(case x of Some (d, r) \<Rightarrow> ok (f d r)
      | None \<Rightarrow> bnd (allocate map_slate lib) (\<lambda>seq. ok (g seq))) c = (Inr y, c')"
    for x :: "(bytes \<times> block_ref) option" and f and g :: "u64 \<Rightarrow> 'z" and y c'
    using that inv inv_alloc
    by (auto simp: bnd_def op_simps split: option.splits prod.splits sum.splits)
  show ?thesis
    unfolding store_block_def
    apply (intro simw_case simw_basic)
    apply (intro simw_rules reads still_rules inv db)
    apply (rule simw_bnd_still, rule still_rules, rule reads, rule inv)
    apply (rule simw_bnd, rule pick)
    apply (rule simw_case2(2), rule fin, erule pick_inv)
    done
qed

end
