(* ===== verification/StoreRun.thy ===== *)
theory StoreRun
  imports StoreWrites
begin

text \<open>
  Runs of the store: any sequence of operations, restarts included, on any lawful database.
  The invariant holds in every state a run reaches, also after operations that failed in the
  database.
\<close>

section \<open>Commands\<close>

datatype store_cmd =
    PutFile file_info
  | PutFileWithCarry file_info bytes
  | StageFile epoch file_info
  | CompleteFile epoch bytes "vector option"
  | GcInbox epoch
  | StoreBlock "epoch option" bytes bytes bytes
  | ReuseBlock "epoch option" bytes bytes
  | PutRemoteState bytes remote_index_state
  | GetFile bytes
  | AllFiles
  | FilesSince i64
  | ReadBlock bytes bytes
  | ComputePeerFloor

definition exec ::
  "('d, 'v) slate \<Rightarrow> ('v, 'b) lib \<Rightarrow> store_cmd \<Rightarrow> ('d, 'b) folder_store \<Rightarrow> ('d, 'b) folder_store" where
  "exec db lib cmd s =
     (case cmd of
        PutFile f \<Rightarrow> snd (put_file db lib f s)
      | PutFileWithCarry f src \<Rightarrow> snd (put_file_with_carry db lib f src s)
      | StageFile e f \<Rightarrow> snd (stage_file db lib e f s)
      | CompleteFile e n ver \<Rightarrow> snd (complete_file db lib e n ver s)
      | GcInbox e \<Rightarrow> snd (gc_inbox db e s)
      | StoreBlock ep n h data \<Rightarrow> snd (store_block db lib ep n h data s)
      | ReuseBlock ep n h \<Rightarrow> snd (reuse_block db lib ep n h s)
      | PutRemoteState d r \<Rightarrow> snd (put_remote_state db lib d r s)
      | GetFile n \<Rightarrow> snd (get_file db lib n s)
      | AllFiles \<Rightarrow> snd (all_files db lib s)
      | FilesSince since \<Rightarrow> snd (files_since db lib since s)
      | ReadBlock n h \<Rightarrow> snd (read_block db lib n h s)
      | ComputePeerFloor \<Rightarrow> snd (compute_peer_floor db lib s))"

text \<open>
  The callers check names before they reach the store; epochs come from the lock; a block is
  stored under the hash of its data: \<open>C\<close> maps a hash to its data.
\<close>

fun cmd_ok :: "(bytes \<Rightarrow> bytes) \<Rightarrow> store_cmd \<Rightarrow> bool" where
  "cmd_ok C (PutFile f) \<longleftrightarrow> good_name (fi_name f)"
| "cmd_ok C (PutFileWithCarry f src) \<longleftrightarrow> good_name (fi_name f) \<and> good_name src"
| "cmd_ok C (StageFile e f) \<longleftrightarrow> wf_epoch e \<and> good_name (fi_name f)"
| "cmd_ok C (CompleteFile e n ver) \<longleftrightarrow> wf_epoch e \<and> good_name n"
| "cmd_ok C (GcInbox e) \<longleftrightarrow> True"
| "cmd_ok C (StoreBlock ep n h data) \<longleftrightarrow>
     (case ep of None \<Rightarrow> True | Some e \<Rightarrow> wf_epoch e) \<and> good_name n \<and> data = C h"
| "cmd_ok C (ReuseBlock ep n h) \<longleftrightarrow>
     (case ep of None \<Rightarrow> True | Some e \<Rightarrow> wf_epoch e) \<and> good_name n"
| "cmd_ok C _ \<longleftrightarrow> True"

text \<open>Neither counter is at its end.\<close>

definition counters_ok :: "astore \<Rightarrow> bool" where
  "counters_ok a \<longleftrightarrow> max_seq a < i64_max \<and> has_room a"

section \<open>Every command keeps the invariant\<close>

lemma simw_keeps:
  assumes "simw (store_view A) (store_view A s) I m f" and "I (snd (f (store_view A s)))"
  shows "I (store_view A (snd (m s)))"
  using sim_keeps [OF simwD [OF assms] prod.collapse [symmetric] assms(2)] .

lemma put_remote_state_map:
  assumes "codec_laws lib" and "store_inv lib C c"
  obtains c' where "put_remote_state map_slate lib d r c = (Inr (), c')"
    "ast lib c' = (ast lib c)\<lparr>a_remote := (a_remote (ast lib c))(d \<mapsto> r)\<rparr>" "store_inv lib C c'"
proof
  let ?c = "c\<lparr>fs_db := (fs_db c)(device_key d \<mapsto> enc_remote lib r)\<rparr>"
  show "put_remote_state map_slate lib d r c = (Inr (), ?c)"
    by (simp add: put_remote_state_def put_non_durable_def on_db_map)
  show a: "ast lib ?c = (ast lib c)\<lparr>a_remote := (a_remote (ast lib c))(d \<mapsto> r)\<rparr>"
    using assms by (simp add: astore_of_remote codec_lawsD)
  have "wf_store lib ?c"
    using store_invD(1) [OF assms(2)] assms(1)
    by (auto intro!: wf_view_put entry_ok.intros simp: codec_lawsD)
  then show "store_inv lib C ?c"
    unfolding store_inv_def a using store_invD(2,3) [OF assms(2)]
    by (simp add: idx_inv_def blk_inv_cong [of "ast lib c\<lparr>a_remote := x\<rparr>" "ast lib c" for x] next_bs_def)
qed

lemma complete_file_inv:
  assumes "codec_laws lib" and "store_inv lib C c" and "good_name n" and "wf_epoch e"
    and "max_seq (ast lib c) < i64_max"
  shows "store_inv lib C (snd (complete_file map_slate lib e n ver c))"
proof -
  consider (skip) "\<And>fi. a_inbox (ast lib c) (e, n) = Some fi \<Longrightarrow> map_option b_of_vector (sf_version fi) \<noteq> ver"
    | (staged) fi where "a_inbox (ast lib c) (e, n) = Some fi" "map_option b_of_vector (sf_version fi) = ver"
    by blast
  then show ?thesis
  proof cases
    case skip
    then show ?thesis using complete_file_skip [OF assms(2-4) skip] assms(2) by simp
  next
    case staged
    show ?thesis
    proof (cases "incomplete (carried (ast lib c) n fi)")
      case True
      then show ?thesis using complete_file_incomplete [OF assms(2-4) staged] assms(2) by simp
    next
      case False
      then show ?thesis
        by (rule complete_file_commit [OF assms(1-4) staged _ assms(5)]) simp
    qed
  qed
qed

lemma store_block_inv:
  assumes "codec_laws lib" and "store_inv lib C c" and "has_room (ast lib c)" and "good_name n"
    and "\<And>e. ep = Some e \<Longrightarrow> wf_epoch e" and "data = C h"
  shows "store_inv lib C (snd (store_block map_slate lib ep n h data c))"
proof (cases "length h = HASH_LEN")
  case True
  show ?thesis
  proof (cases "\<exists>fi p. entry_for (ast lib c) ep n = Some (fi, p) \<and> has_hash h fi")
    case True
    then obtain fi p where ent: "entry_for (ast lib c) ep n = Some (fi, p)" "has_hash h fi" by blast
    have "\<exists>c'. store_block map_slate lib ep n h data c = (Inr (), c') \<and> store_inv lib C c' \<and>
        wrote_block p n h fi data (ast lib c) (ast lib c')"
      by (rule store_block_ok [OF assms(1-4) \<open>length h = HASH_LEN\<close> assms(5) ent assms(6)])
    then show ?thesis by auto
  next
    case False
    then have none: "\<not> has_hash h fi" if "entry_for (ast lib c) ep n = Some (fi, p)" for fi p
      using that by blast
    have "\<exists>x c'. store_block map_slate lib ep n h data c = (Inl (NotFound x), c') \<and>
        store_inv lib C c' \<and> a_files (ast lib c') = a_files (ast lib c) \<and>
        a_inbox (ast lib c') = a_inbox (ast lib c) \<and> a_data (ast lib c') = a_data (ast lib c)"
      by (rule store_block_missing [OF assms(1-4) \<open>length h = HASH_LEN\<close>])
        (rule assms(5), assumption, rule none, assumption)
    then show ?thesis by auto
  qed
next
  case False
  then show ?thesis using assms(2) by (simp add: store_block_def op_simps)
qed

lemma reuse_block_inv:
  assumes "codec_laws lib" and "store_inv lib C c" and "good_name n"
    and "\<And>e. ep = Some e \<Longrightarrow> wf_epoch e"
  shows "store_inv lib C (snd (reuse_block map_slate lib ep n h c))"
proof (cases "length h = HASH_LEN")
  case True
  note R = reuse_block_map [OF assms(1-3) True assms(4)]
  consider "stored_copy lib c h = None"
    | "stored_copy lib c h \<noteq> None" "entry_for (ast lib c) ep n = None"
    | fi p where "stored_copy lib c h \<noteq> None" "entry_for (ast lib c) ep n = Some (fi, p)" by fastforce
  then show ?thesis
  proof cases
    case 3
    show ?thesis
    proof (cases "has_hash h fi")
      case True
      with R(4) [OF _ 3(1,2)] show ?thesis by auto
    next
      case False
      with R(3) [OF _ 3(1,2)] assms(2) show ?thesis by simp
    qed
  qed (use R(1,2) assms(2) in simp_all)
next
  case False
  then show ?thesis using assms(2) by (simp add: reuse_block_def op_simps)
qed

lemma still_keeps:
  assumes "sim (store_view A) (store_view A s) I m f" and "still f" and "I (store_view A s)"
  shows "I (store_view A (snd (m s)))"
  using sim_keeps [OF assms(1) prod.collapse [symmetric]] assms(2,3) by (simp add: still_snd)

lemma commit_ops_inv:
  assumes "codec_laws lib" and "store_inv lib C c" and "max_seq (ast lib c) < i64_max"
    and "good_name (fi_name f)"
  shows "store_inv lib C (snd (put_file map_slate lib f c))"
    "good_name src \<Longrightarrow> store_inv lib C (snd (put_file_with_carry map_slate lib f src c))"
  by (rule put_file_map [OF assms(1,2,4,3)], simp)
    (rule put_file_with_carry_map [OF assms(1,2,4) _ assms(3)], assumption, simp)

lemma inbox_ops_inv:
  assumes "codec_laws lib" and "store_inv lib C c"
  shows "good_name (fi_name f) \<Longrightarrow> wf_epoch e \<Longrightarrow>
      store_inv lib C (snd (stage_file map_slate lib e f c))"
    "store_inv lib C (snd (gc_inbox map_slate e c))"
    "store_inv lib C (snd (put_remote_state map_slate lib d r c))"
  by (rule stage_file_map [OF assms, of f e], assumption, assumption, simp)
    (rule gc_inbox_map [OF assms(2), of e], simp,
      rule put_remote_state_map [OF assms, of d r], simp)

lemma exec_inv:
  assumes db: "slate_laws db A" and lib: "codec_laws lib" and inv: "store_inv lib C (store_view A s)"
    and cmd: "cmd_ok C cmd" and room: "counters_ok (ast lib (store_view A s))"
  shows "store_inv lib C (store_view A (exec db lib cmd s))"
proof -
  let ?c = "store_view A s" and ?I = "store_inv lib C"
  have max: "max_seq (ast lib ?c) < i64_max" and blocks: "has_room (ast lib ?c)"
    using room by (simp_all add: counters_ok_def)
  have epoch: "wf_epoch e" if "case ep of None \<Rightarrow> True | Some e \<Rightarrow> wf_epoch e" "ep = Some e" for ep e
    using that by simp
  note I = db inv
  note reads = sim_get_file [where I = ?I, OF I] sim_all_files [where I = ?I, OF I]
    sim_files_since [where I = ?I, OF I] sim_read_block [where I = ?I, OF I]
    sim_compute_peer_floor [where I = ?I, OF I]
  show ?thesis
  proof (cases cmd)
    case (PutFile f)
    then show ?thesis
      using simw_keeps [OF simw_ops(1) [where I = ?I, OF I] commit_ops_inv(1) [OF lib inv max]] cmd
      by (simp add: exec_def)
  next
    case (PutFileWithCarry f src)
    then show ?thesis
      using simw_keeps [OF simw_put_file_with_carry [where I = ?I, OF I store_inv_gc]
          commit_ops_inv(2) [OF lib inv max]] cmd by (simp add: exec_def)
  next
    case (StageFile e f)
    then show ?thesis
      using simw_keeps [OF simw_ops(2) [where I = ?I, OF I] inbox_ops_inv(1) [OF lib inv]] cmd
      by (simp add: exec_def)
  next
    case (CompleteFile e n ver)
    then show ?thesis
      using simw_keeps [OF simw_complete_file [where I = ?I, OF I] complete_file_inv [OF lib inv _ _ max]]
        cmd by (simp add: exec_def)
  next
    case (GcInbox e)
    then show ?thesis
      using simw_keeps [OF simw_gc_inbox [where I = ?I, OF I] inbox_ops_inv(2) [OF lib inv]]
      by (simp add: exec_def)
  next
    case (StoreBlock ep n h data)
    have "?I (snd (store_block map_slate lib ep n h data ?c))"
      by (rule store_block_inv [OF lib inv blocks]) (use StoreBlock cmd epoch in auto)
    then show ?thesis
      using simw_keeps [OF simw_store_block [OF db lib inv blocks]] StoreBlock by (simp add: exec_def)
  next
    case (ReuseBlock ep n h)
    have "?I (snd (reuse_block map_slate lib ep n h ?c))"
      by (rule reuse_block_inv [OF lib inv]) (use ReuseBlock cmd epoch in auto)
    then show ?thesis
      using simw_keeps [OF simw_reuse_block [where I = ?I, OF I store_inv_gc]] ReuseBlock
      by (simp add: exec_def)
  next
    case (PutRemoteState d r)
    then show ?thesis
      using simw_keeps [OF simw_ops(3) [where I = ?I, OF I] inbox_ops_inv(3) [OF lib inv]]
      by (simp add: exec_def)
  qed (simp_all add: exec_def still_rules still_keeps [OF reads(1) _ inv] still_keeps [OF reads(2) _ inv]
      still_keeps [OF reads(3) _ inv] still_keeps [OF reads(4) _ inv] still_keeps [OF reads(5) _ inv])
qed

section \<open>Opening a store\<close>

lemma astore_of_empty:
  "a_files (astore_of lib Map.empty) = Map.empty" "a_seqs (astore_of lib Map.empty) = Map.empty"
  "a_inbox (astore_of lib Map.empty) = Map.empty" "a_meta (astore_of lib Map.empty) = default_index_meta"
  "a_data (astore_of lib Map.empty) = Map.empty" "a_ptr (astore_of lib Map.empty) = Map.empty"
  by (simp_all add: astore_of_def lookup_at_def fun_eq_iff)

lemma empty_inv: "sr_next q = 0 \<Longrightarrow> sr_end q = 0 \<Longrightarrow>
  store_inv lib C \<lparr>fs_db = Map.empty, fs_gc = g, fs_blockseq = q\<rparr>"
  by (simp add: store_inv_def wf_view_empty idx_inv_def blk_inv_def range_inv_def astore_of_empty
      default_index_meta_def i64_max_def)

lemma folder_store_new_view:
  assumes db: "slate_laws db A" and new: "folder_store_new db lib d gc = Inr s"
    and wf: "wf_view lib (A d)"
  shows "A (fs_db s) = A d" "fs_gc s = gc"
    "fs_blockseq s = \<lparr>sr_next = next_bs (astore_of lib (A d)), sr_end = next_bs (astore_of lib (A d))\<rparr>"
proof -
  obtain r d' where get: "db_get db IX_KEY d = (r, d')" by fastforce
  then have "A d' = A d" "r = Inr (A d IX_KEY) \<or> (\<exists>e. r = Inl e)"
    using db unfolding slate_laws_def get_law_def by blast+
  moreover have "\<exists>m. dec_meta lib v = Some m" if "A d IX_KEY = Some v" for v
    using entry_ok_metaD [of lib v] wf_viewD [OF wf that] by auto
  ultimately show "A (fs_db s) = A d" "fs_gc s = gc"
    "fs_blockseq s = \<lparr>sr_next = next_bs (astore_of lib (A d)), sr_end = next_bs (astore_of lib (A d))\<rparr>"
    using new get
    by (auto simp: folder_store_new_def seq_allocator_load_def next_bs_def astore_of_def rbind_def
        decoded_def default_index_meta_def Let_def split: option.splits sum.splits prod.splits)
qed

lemma reopen_inv:
  assumes db: "slate_laws db A" and inv: "store_inv lib C (store_view A s)"
    and new: "folder_store_new db lib (fs_db s) gc = Inr s'"
  shows "store_inv lib C (store_view A s')"
proof -
  let ?a = "ast lib (store_view A s)"
  note wf = store_invD [OF inv]
  note new = folder_store_new_view [OF db new, simplified wf(1) [simplified]]
  let ?q = "\<lparr>sr_next = next_bs ?a, sr_end = next_bs ?a\<rparr>"
  have alloc: "allocated ?a ?q t" if "allocated ?a (fs_blockseq (store_view A s)) t" for t
    using that by (auto simp: allocated_def)
  have "blk_inv C ?a ?q"
    by (rule blk_inv_grow [OF wf(3) _ alloc])
      (use alloc [OF blk_invD(6) [OF wf(3)]] in \<open>simp_all add: range_inv_def\<close>)
  then show ?thesis using wf new by (simp add: store_inv_def)
qed

section \<open>Runs\<close>

inductive store_run ::
  "('d, 'v) slate \<Rightarrow> ('v, 'b) lib \<Rightarrow> ('d \<Rightarrow> bytes \<rightharpoonup> 'v) \<Rightarrow> (bytes \<Rightarrow> bytes) \<Rightarrow>
   ('d, 'b) folder_store \<Rightarrow> bool" for db lib A C where
  create: "A d = Map.empty \<Longrightarrow> folder_store_new db lib d gc = Inr s \<Longrightarrow> store_run db lib A C s"
| command: "store_run db lib A C s \<Longrightarrow> cmd_ok C cmd \<Longrightarrow> counters_ok (ast lib (store_view A s)) \<Longrightarrow>
    store_run db lib A C (exec db lib cmd s)"
| reopen: "store_run db lib A C s \<Longrightarrow> folder_store_new db lib (fs_db s) gc = Inr s' \<Longrightarrow>
    store_run db lib A C s'"

lemma store_run_inv:
  assumes db: "slate_laws db A" and lib: "codec_laws lib" and "store_run db lib A C s"
  shows "store_inv lib C (store_view A s)"
  using assms(3)
proof induction
  case (create d gc s)
  note new = folder_store_new_view [OF db create(2)]
  have "store_inv lib C \<lparr>fs_db = A d, fs_gc = gc, fs_blockseq = fs_blockseq s\<rparr>"
    unfolding create(1) using new create(1)
    by (intro empty_inv) (simp_all add: wf_view_empty next_bs_def astore_of_empty default_index_meta_def)
  then show ?case using new create(1) by (simp add: store_view_def wf_view_empty)
next
  case (command s cmd)
  show ?case by (rule exec_inv [OF db lib command.IH command.hyps(2,3)])
next
  case (reopen s gc s')
  show ?case by (rule reopen_inv [OF db reopen.IH reopen.hyps(2)])
qed

section \<open>A concrete library\<close>

text \<open>Tagged values stand for their encodings; a list stands for a bloom filter.\<close>

datatype tagged =
    TFile file_msg | TInbox inbox_msg | TMeta folder_index_meta | TRemote remote_index_state
  | TRef block_ref | TRaw bytes

definition tagged_lib :: "(tagged, bloom_item list) lib" where
  "tagged_lib =
     \<lparr>enc_file = TFile, dec_file = (\<lambda>v. case v of TFile x \<Rightarrow> Some x | _ \<Rightarrow> None),
      enc_inbox = TInbox, dec_inbox = (\<lambda>v. case v of TInbox x \<Rightarrow> Some x | _ \<Rightarrow> None),
      enc_meta = TMeta, dec_meta = (\<lambda>v. case v of TMeta x \<Rightarrow> Some x | _ \<Rightarrow> None),
      enc_remote = TRemote, dec_remote = (\<lambda>v. case v of TRemote x \<Rightarrow> Some x | _ \<Rightarrow> None),
      enc_ref = TRef, dec_ref = (\<lambda>v. case v of TRef x \<Rightarrow> Some x | _ \<Rightarrow> None),
      raw = TRaw, unraw = (\<lambda>v. case v of TRaw x \<Rightarrow> x | _ \<Rightarrow> []),
      bloom_insert = (\<lambda>x f. x # f), bloom_contains = (\<lambda>x f. List.member f x)\<rparr>"

lemma tagged_codec: "codec_laws tagged_lib"
  by (simp add: codec_laws_def tagged_lib_def)

lemma tagged_bloom: "bloom_laws tagged_lib"
  by (auto simp: bloom_laws_def tagged_lib_def)

end
