(* ===== verification/GcLive.thy ===== *)
theory GcLive
  imports Compaction StoreRun
begin

text \<open>
  The live set of a compaction job: which block sequence numbers the job has to keep, that the
  construction of its filter finds those of every committed file and of the staged files it
  scans, and that no operation of the store takes one out.
\<close>

section \<open>Live sets only grow\<close>

definition grows :: "('v, 'b) lib \<Rightarrow> 'b compaction_state \<Rightarrow> 'b compaction_state \<Rightarrow> bool" where
  "grows lib g g' \<longleftrightarrow>
     (\<forall>job q. known_live_seq_contains lib job q g \<longrightarrow> known_live_seq_contains lib job q g')"

lemma grows_refl [simp]: "grows lib g g"
  by (simp add: grows_def)

lemma grows_trans: "grows lib g h \<Longrightarrow> grows lib h k \<Longrightarrow> grows lib g k"
  by (simp add: grows_def)

lemma growsD: "grows lib g g' \<Longrightarrow> known_live_seq_contains lib job q g \<Longrightarrow> known_live_seq_contains lib job q g'"
  by (simp add: grows_def)

lemma map_of_map_jobs: "map_of (map (\<lambda>(i, job). (i, f i job)) xs) j = map_option (f j) (map_of xs j)"
  by (induction xs) auto

lemma job_insert_live:
  assumes "bloom_laws lib"
  shows "grows lib g (job_insert lib job h s g)"
    "known_live_seq_contains lib job q (job_insert lib job h (Some q) g)"
  using assms
  by (auto simp: grows_def known_live_seq_contains_def job_insert_def map_of_map_jobs bloom_laws_def
      split: option.splits)

lemma record_live:
  assumes "bloom_laws lib"
  shows "grows lib g (record_block_write lib h s g)"
    "known_live_seq_contains lib job q (record_block_write lib h (Some q) g)"
  using assms
  by (auto simp: grows_def known_live_seq_contains_def record_block_write_def map_of_map_jobs bloom_laws_def
      split: option.splits)

section \<open>What the construction of a filter finds\<close>

definition seqs_live :: "('v, 'b) lib \<Rightarrow> u64 \<Rightarrow> s_block_info list \<Rightarrow> 'b compaction_state \<Rightarrow> bool" where
  "seqs_live lib job bs g \<longleftrightarrow>
     (\<forall>b \<in> set bs. \<forall>q. sb_blockseq b = Some q \<longrightarrow> known_live_seq_contains lib job q g)"

lemma seqs_live_grows: "seqs_live lib job bs g \<Longrightarrow> grows lib g g' \<Longrightarrow> seqs_live lib job bs g'"
  by (auto simp: seqs_live_def dest: growsD)

lemma index_blocks_live:
  assumes "bloom_laws lib" and "index_blocks lib job bs s = (Inr (), t)"
  shows "fs_db t = fs_db s \<and> fs_blockseq t = fs_blockseq s \<and> grows lib (fs_gc s) (fs_gc t) \<and> seqs_live lib job bs (fs_gc t)"
  using assms(2)
proof (induction bs arbitrary: s)
  case (Cons b bs)
  note J = job_insert_live [OF assms(1)]
  show ?case
  proof (cases "sb_blockseq b")
    case None
    with Cons.prems have "index_blocks lib job bs s = (Inr (), t)" by simp
    from Cons.IH [OF this] None show ?thesis by (auto simp: seqs_live_def)
  next
    case (Some q)
    let ?g1 = "job_insert lib job (Some (sb_hash b)) None (fs_gc s)"
    let ?g2 = "job_insert lib job None (Some q) ?g1"
    from Cons.prems Some have run: "index_blocks lib job bs (s\<lparr>fs_gc := ?g2\<rparr>) = (Inr (), t)"
      by (auto simp: insert_live_def bnd_def op_simps split: if_splits sum.splits)
    have "grows lib (fs_gc s) ?g2" using J(1) grows_trans by blast
    moreover have "known_live_seq_contains lib job q ?g2" by (rule J(2))
    ultimately show ?thesis
      using Cons.IH [OF run] Some by (auto simp: seqs_live_def dest: growsD intro: grows_trans)
  qed
qed (auto simp: op_simps seqs_live_def)

lemma index_entry_live:
  assumes "bloom_laws lib" and "index_entry lib job extract (k, v) () s = (Inr r, t)"
  shows "r = Inl () \<and> fs_db t = fs_db s \<and> fs_blockseq t = fs_blockseq s \<and> grows lib (fs_gc s) (fs_gc t) \<and>
    (\<forall>fi. extract v = Some (Some fi) \<longrightarrow> seqs_live lib job (sf_blocks fi) (fs_gc t))"
  using assms(2) index_blocks_live [OF assms(1)]
  by (cases "extract v"; cases "the (extract v)")
    (auto simp: index_entry_def bnd_def op_simps decoded_def split: prod.splits sum.splits)

lemma index_iter_live:
  assumes "bloom_laws lib" and "for_iter kvs fin () (index_entry lib job extract) s = (Inr r, t)"
  shows "fin = None \<and> fs_db t = fs_db s \<and> fs_blockseq t = fs_blockseq s \<and> grows lib (fs_gc s) (fs_gc t) \<and>
    (\<forall>(k, v) \<in> set kvs. \<forall>fi. extract v = Some (Some fi) \<longrightarrow> seqs_live lib job (sf_blocks fi) (fs_gc t))"
  using assms(2)
proof (induction kvs arbitrary: s)
  case Nil
  then show ?case by (auto simp: op_simps err_def split: option.splits)
next
  case (Cons kv kvs)
  obtain k v where kv: "kv = (k, v)" by fastforce
  obtain x u where u: "index_entry lib job extract (k, v) () s = (Inr x, u)"
    and rest: "(case x of Inl a \<Rightarrow> for_iter kvs fin a (index_entry lib job extract) | Inr y \<Rightarrow> ok (Inr y)) u = (Inr r, t)"
    using Cons.prems kv by (auto simp: bnd_def split: prod.splits sum.splits)
  note E = index_entry_live [OF assms(1) u]
  from rest E have "for_iter kvs fin () (index_entry lib job extract) u = (Inr r, t)" by simp
  from Cons.IH [OF this] E kv show ?case by (auto intro: grows_trans seqs_live_grows)
qed

lemma index_under_prefix_live:
  assumes "slate_laws db A" "bloom_laws lib"
    and "index_blocks_under_prefix db lib job pre extract s = (Inr (), t)"
  shows "store_view A t = (store_view A s)\<lparr>fs_gc := fs_gc t\<rparr>" "grows lib (fs_gc s) (fs_gc t)"
    "A (fs_db s) k = Some v \<Longrightarrow> prefix pre k \<Longrightarrow> extract v = Some (Some fi) \<Longrightarrow>
     seqs_live lib job (sf_blocks fi) (fs_gc t)"
proof -
  obtain sr d where sd: "db_scan_prefix db pre (fs_db s) = (sr, d)" by fastforce
  obtain kvs fin where "sr = Inr (kvs, fin)"
    using assms(3) sd by (cases sr) (auto simp: index_blocks_under_prefix_def bnd_def on_db_def)
  with sd have scan: "db_scan_prefix db pre (fs_db s) = (Inr (kvs, fin), d)" by simp
  then have iter: "\<exists>r. for_iter kvs fin () (index_entry lib job extract) (s\<lparr>fs_db := d\<rparr>) = (Inr r, t)"
    using assms(3) by (auto simp: index_blocks_under_prefix_def bnd_def on_db_def op_simps split: prod.splits sum.splits)
  have law: "A d = A (fs_db s)" "iter_ok (prefix pre) (A (fs_db s)) (kvs, fin)" "finite (dom (A (fs_db s)))"
    using assms(1) scan by (auto simp: slate_laws_def scan_law_def)
  from iter obtain r where r: "fin = None" "fs_db t = d" "fs_blockseq t = fs_blockseq s" "grows lib (fs_gc s) (fs_gc t)"
    "\<forall>(k, v) \<in> set kvs. \<forall>fi. extract v = Some (Some fi) \<longrightarrow> seqs_live lib job (sf_blocks fi) (fs_gc t)"
    using index_iter_live [OF assms(2)] by fastforce
  show "grows lib (fs_gc s) (fs_gc t)" by (rule r)
  show "store_view A t = (store_view A s)\<lparr>fs_gc := fs_gc t\<rparr>"
    using r(2,3) by (simp add: store_view_def law(1))
  have "kvs = entries_of (prefix pre) (A (fs_db s))" using law(2) r(1) by (simp add: iter_ok_def)
  then show "seqs_live lib job (sf_blocks fi) (fs_gc t)"
    if "A (fs_db s) k = Some v" "prefix pre k" "extract v = Some (Some fi)"
    using that r(5) set_entries_of [OF law(3)] by fastforce
qed

text \<open>The numbers a job has to keep: those of the committed files and of the files staged in the
  current epoch.\<close>

definition refs :: "epoch \<Rightarrow> astore \<Rightarrow> u64 set" where
  "refs e a = {q. \<exists>fi b. ((\<exists>n. a_files a n = Some fi) \<or> (\<exists>n. a_inbox a (e, n) = Some fi)) \<and>
     b \<in> set (sf_blocks fi) \<and> sb_blockseq b = Some q}"

definition live :: "('v, 'b) lib \<Rightarrow> u64 \<Rightarrow> epoch \<Rightarrow> (bytes \<rightharpoonup> 'v, 'b) folder_store \<Rightarrow> bool" where
  "live lib job e c \<longleftrightarrow> (\<forall>q \<in> refs e (ast lib c). known_live_seq_contains lib job q (fs_gc c))"

text \<open>Every staged file that has separate blocks is under the prefix the construction scans.\<close>

definition inbox_scanned :: "epoch \<Rightarrow> astore \<Rightarrow> bool" where
  "inbox_scanned e a \<longleftrightarrow> (\<forall>n fi b. a_inbox a (e, n) = Some fi \<longrightarrow> b \<in> set (sf_blocks fi) \<longrightarrow>
     sb_blockseq b \<noteq> None \<longrightarrow> prefix (inbox_key e []) (inbox_key e n))"

lemma file_valD: "file_val lib v = Some fi \<Longrightarrow> map_option file_file_info (dec_file lib v) = Some (Some fi)"
  by (auto simp: file_val_def bind_eq_Some_conv)

lemma inbox_valD: "inbox_val lib v = Some fi \<Longrightarrow> map_option inbox_file_info (dec_inbox lib v) = Some (Some fi)"
  by (auto simp: inbox_val_def bind_eq_Some_conv)

lemma create_filter_live:
  assumes db: "slate_laws db A" and lib: "bloom_laws lib"
    and run: "create_compaction_filter db lib bloom0 e bottom s = (Inr f, t)"
    and inbox: "inbox_scanned e (ast lib (store_view A s))"
  shows "live lib (gf_job f) e (store_view A t)" "gf_epoch f = e"
    "store_view A t = (store_view A s)\<lparr>fs_gc := fs_gc t\<rparr>"
proof -
  obtain job g where reg: "register bloom0 bloom0 (fs_gc s) = (job, g)" by fastforce
  let ?s = "s\<lparr>fs_gc := g\<rparr>"
  obtain fl where f: "index_live db lib job e ?s = (Inr fl, t)" "gf_job f = job" "gf_epoch f = e"
    using run reg by (auto simp: create_compaction_filter_def split: prod.splits sum.splits)
  obtain u where u: "index_blocks_under_prefix db lib job (inbox_key e [])
      (\<lambda>v. map_option inbox_file_info (dec_inbox lib v)) ?s = (Inr (), u)"
    and u': "bnd (index_blocks_under_prefix db lib job FILE_PREFIX
      (\<lambda>v. map_option file_file_info (dec_file lib v))) (\<lambda>_. compute_peer_floor db lib) u = (Inr fl, t)"
    using f(1) unfolding index_live_def by (auto elim: bnd_InrE)
  then obtain w where w: "index_blocks_under_prefix db lib job FILE_PREFIX
      (\<lambda>v. map_option file_file_info (dec_file lib v)) u = (Inr (), w)"
    and fl: "compute_peer_floor db lib w = (Inr fl, t)" by (auto elim: bnd_InrE)
  note U = index_under_prefix_live [OF db lib u] and W = index_under_prefix_live [OF db lib w]
  have t: "store_view A t = store_view A w"
    using sim_InrD [OF sim_compute_peer_floor [where I = "\<lambda>_. True", OF db] fl] still_rules
    by (metis prod.inject still_snd snd_conv)
  have V: "store_view A w = (store_view A s)\<lparr>fs_gc := fs_gc w\<rparr>" "A (fs_db u) = A (fs_db s)"
    using U(1) W(1) by (auto simp: store_view_def)
  with t show "store_view A t = (store_view A s)\<lparr>fs_gc := fs_gc t\<rparr>" by (simp add: store_view_def)
  have gc: "fs_gc t = fs_gc w" using t by (simp add: store_view_def)
  show "gf_epoch f = e" by (rule f)
  have "known_live_seq_contains lib job q (fs_gc t)" if q: "q \<in> refs e (ast lib (store_view A s))" for q
  proof -
    obtain fi b where b: "b \<in> set (sf_blocks fi)" "sb_blockseq b = Some q"
      and "(\<exists>n. a_files (ast lib (store_view A s)) n = Some fi) \<or> (\<exists>n. a_inbox (ast lib (store_view A s)) (e, n) = Some fi)"
      using q by (auto simp: refs_def)
    then consider n v where "A (fs_db s) (file_key n) = Some v" "file_val lib v = Some fi"
      | n v where "A (fs_db s) (inbox_key e n) = Some v" "inbox_val lib v = Some fi" "a_inbox (ast lib (store_view A s)) (e, n) = Some fi"
      by (auto simp: astore_of_def lookup_at_def bind_eq_Some_conv split: if_splits)
    then have "seqs_live lib job (sf_blocks fi) (fs_gc w)"
    proof cases
      case 1
      have "prefix FILE_PREFIX (file_key n)" by (simp add: file_key_def FILE_PREFIX_def split: prod.splits)
      from W(3) [OF _ this file_valD [OF 1(2)]] 1(1) V(2) show ?thesis by simp
    next
      case 2
      have "prefix (inbox_key e []) (inbox_key e n)" using inbox 2(3) b by (auto simp: inbox_scanned_def)
      from U(3) [OF _ this inbox_valD [OF 2(2)]] 2(1) show ?thesis
        by (simp add: seqs_live_grows [OF _ W(2)])
    qed
    with b gc show ?thesis by (auto simp: seqs_live_def)
  qed
  with f(2) t V show "live lib (gf_job f) e (store_view A t)" by (simp add: live_def store_view_def)
qed

end
