(* ===== verification/GcSafe.thy ===== *)
theory GcSafe
  imports GcLive
begin

text \<open>
  Compaction jobs that run beside the operations of the store.  The filter decides row by row, the
  result of the job is installed at its end, and the store works on in between.  Every file of the
  store keeps its blocks, as long as no operation shares a block the job has already decided to
  drop.
\<close>

section \<open>What a command does to the live numbers\<close>

definition only_epoch :: "epoch \<Rightarrow> astore \<Rightarrow> bool" where
  "only_epoch e a \<longleftrightarrow> (\<forall>x. a_inbox a x \<noteq> None \<longrightarrow> fst x = e)"

text \<open>A command adds the numbers \<open>N\<close> to those in use.\<close>

definition adds ::
  "('v, 'b) lib \<Rightarrow> epoch \<Rightarrow> (bytes \<rightharpoonup> 'v, 'b) folder_store \<Rightarrow> (bytes \<rightharpoonup> 'v, 'b) folder_store \<Rightarrow> u64 set \<Rightarrow> bool" where
  "adds lib e c c' N \<longleftrightarrow>
     refs e (ast lib c') \<subseteq> refs e (ast lib c) \<union> N \<and> grows lib (fs_gc c) (fs_gc c') \<and>
     (\<forall>q \<in> N. \<forall>job. known_live_seq_contains lib job q (fs_gc c')) \<and>
     (\<forall>q y. a_data (ast lib c) q = Some y \<longrightarrow> a_data (ast lib c') q \<noteq> None) \<and>
     (only_epoch e (ast lib c) \<longrightarrow> only_epoch e (ast lib c'))"

lemma adds_refl: "adds lib e c c {}"
  by (simp add: adds_def)

lemma live_adds: "live lib job e c \<Longrightarrow> adds lib e c c' N \<Longrightarrow> live lib job e c'"
  unfolding live_def adds_def by (meson Un_iff growsD subsetD)

lemma refsI:
  "a_files a n = Some fi \<or> a_inbox a (e, n) = Some fi \<Longrightarrow> b \<in> set (sf_blocks fi) \<Longrightarrow> sb_blockseq b = Some q \<Longrightarrow>
   q \<in> refs e a"
  by (auto simp: refs_def)

lemma refsE:
  assumes "q \<in> refs e a"
  obtains n fi b where "a_files a n = Some fi \<or> a_inbox a (e, n) = Some fi" "b \<in> set (sf_blocks fi)" "sb_blockseq b = Some q"
  using assms by (auto simp: refs_def)

text \<open>The numbers of a list of blocks, and how the updates of the store change them.\<close>

definition block_seqs :: "s_file_info \<Rightarrow> u64 set" where
  "block_seqs fi = {q. \<exists>b \<in> set (sf_blocks fi). sb_blockseq b = Some q}"

lemma refs_files: "a_files a n = Some fi \<Longrightarrow> block_seqs fi \<subseteq> refs e a"
  by (auto simp: block_seqs_def intro: refsI)

lemma refs_inbox: "a_inbox a (e, n) = Some fi \<Longrightarrow> block_seqs fi \<subseteq> refs e a"
  by (auto simp: block_seqs_def intro: refsI)

lemma refs_le:
  assumes "\<And>n fi. a_files a' n = Some fi \<Longrightarrow> block_seqs fi \<subseteq> R"
    and "\<And>n fi. a_inbox a' (e, n) = Some fi \<Longrightarrow> block_seqs fi \<subseteq> R"
  shows "refs e a' \<subseteq> R"
proof
  fix q assume "q \<in> refs e a'"
  then obtain n fi b where b: "a_files a' n = Some fi \<or> a_inbox a' (e, n) = Some fi" "b \<in> set (sf_blocks fi)"
    "sb_blockseq b = Some q" by (rule refsE)
  then have "q \<in> block_seqs fi" by (auto simp: block_seqs_def)
  with b(1) assms show "q \<in> R" by blast
qed

lemma block_seqs_new: "block_seqs (s_of_file_info f) = {}"
  by (auto simp: block_seqs_def s_of_file_info_def s_of_block_info_def)

lemma block_seqs_carry: "block_seqs (carry_block_pointers new old) \<subseteq> block_seqs new \<union> block_seqs old"
proof
  fix q assume "q \<in> block_seqs (carry_block_pointers new old)"
  then obtain b where b: "b \<in> set (sf_blocks new)"
    "sb_blockseq (carry_block (by_hash (sf_blocks old) Map.empty) b) = Some q"
    by (auto simp: block_seqs_def carry_block_pointers_def)
  then show "q \<in> block_seqs new \<union> block_seqs old"
    by (cases "sf_blocks old" b rule: carry_block_cases) (auto simp: block_seqs_def)
qed

lemma block_seqs_seq [simp]: "block_seqs (fi\<lparr>sf_sequence := s\<rparr>) = block_seqs fi"
  by (simp add: block_seqs_def)

lemma block_seqs_carried: "block_seqs (carried a n stored) \<subseteq> block_seqs stored \<union> refs e a"
  using block_seqs_carry refs_files by (fastforce simp: carried_def split: option.splits)

lemma refs_commit: "refs e (a_commit n stored a) \<subseteq> refs e a \<union> block_seqs stored"
proof (rule refs_le)
  fix m fi assume "a_files (a_commit n stored a) m = Some fi"
  then show "block_seqs fi \<subseteq> refs e a \<union> block_seqs stored"
    using block_seqs_carried [of a n stored e] refs_files [of a m fi e]
    by (auto simp: a_commit_def Let_def split: if_splits)
next
  fix m fi assume "a_inbox (a_commit n stored a) (e, m) = Some fi"
  then show "block_seqs fi \<subseteq> refs e a \<union> block_seqs stored"
    using refs_inbox [of a e m fi] by (auto simp: a_commit_def Let_def)
qed

lemma block_seqs_set_pointer: "block_seqs (set_pointer h w p fi) \<subseteq> block_seqs fi \<union> set_option w"
  by (auto simp: block_seqs_def set_pointer_def split: if_splits)

lemma refs_put_entry:
  assumes "entry_for a epoch n = Some (fi, ep)" and "ep = None \<or> ep = Some e"
    and "a_files a' = a_files (put_entry ep n (set_pointer h w p fi) a)"
    and "a_inbox a' = a_inbox (put_entry ep n (set_pointer h w p fi) a)"
  shows "refs e a' \<subseteq> refs e a \<union> set_option w"
proof -
  have "block_seqs fi \<subseteq> refs e a"
    using entry_forD [OF assms(1)] assms(2) refs_files [of a n fi e] refs_inbox [of a e n fi] by auto
  then have fi: "block_seqs (set_pointer h w p fi) \<subseteq> refs e a \<union> set_option w"
    using block_seqs_set_pointer [of h w p fi] by blast
  show ?thesis
  proof (rule refs_le)
    fix m fj assume "a_files a' m = Some fj"
    then show "block_seqs fj \<subseteq> refs e a \<union> set_option w"
      using fi refs_files [of a m fj e] by (cases ep) (auto simp: assms(3) put_entry_def split: if_splits)
  next
    fix m fj assume "a_inbox a' (e, m) = Some fj"
    then show "block_seqs fj \<subseteq> refs e a \<union> set_option w"
      using fi refs_inbox [of a e m fj] by (cases ep) (auto simp: assms(4) put_entry_def split: if_splits)
  qed
qed

section \<open>Commands keep the live numbers\<close>

lemma keeps_on_db_gc: "keeps (\<lambda>s. grows lib g (fs_gc s)) (on_db m)"
  by (auto simp: keeps_def on_db_def split: prod.splits)

lemma keeps_for_iter:
  "(\<And>kv a. keeps I (body kv a)) \<Longrightarrow> keeps I (for_iter kvs fin acc body)"
  by (induction kvs arbitrary: acc) (auto intro!: spec_rules split: option.splits sum.splits)

lemma keeps_record:
  assumes "bloom_laws lib"
  shows "keeps (\<lambda>s. grows lib g (fs_gc s)) (mod_st (\<lambda>s. s\<lparr>fs_gc := record_block_write lib h q (fs_gc s)\<rparr>))"
    "keeps (\<lambda>s. grows lib g (fs_gc s)) (mod_st (\<lambda>s. s\<lparr>fs_gc :=
       fold (\<lambda>(hash, q). record_block_write lib hash (Some q)) hqs (fs_gc s)\<rparr>))"
proof -
  show "keeps (\<lambda>s. grows lib g (fs_gc s)) (mod_st (\<lambda>s. s\<lparr>fs_gc := record_block_write lib h q (fs_gc s)\<rparr>))"
    using record_live(1) [OF assms] by (auto simp: keeps_def mod_st_def intro: grows_trans)
  have "grows lib g (fold (\<lambda>(hash, q). record_block_write lib hash (Some q)) hqs g')" if "grows lib g g'" for g'
    using that
  proof (induction hqs arbitrary: g')
    case (Cons x xs)
    have "grows lib g (record_block_write lib (fst x) (Some (snd x)) g')"
      by (rule grows_trans [OF Cons.prems record_live(1) [OF assms]])
    from Cons.IH [OF this] show ?case by (simp add: case_prod_beta)
  qed simp
  then show "keeps (\<lambda>s. grows lib g (fs_gc s)) (mod_st (\<lambda>s. s\<lparr>fs_gc :=
       fold (\<lambda>(hash, q). record_block_write lib hash (Some q)) hqs (fs_gc s)\<rparr>))"
    by (auto simp: keeps_def mod_st_def)
qed

lemma keeps_reads_gc:
  "keeps (\<lambda>s. grows lib g (fs_gc s)) (get_file_proto db lib n)"
  "keeps (\<lambda>s. grows lib g (fs_gc s)) (get_index_meta db lib)"
  unfolding get_file_proto_def get_index_meta_def by (intro spec_rules keeps_on_db_gc)+

lemma keeps_commit_gc: "keeps (\<lambda>s. grows lib g (fs_gc s)) (commit_with_new_seq db lib n stored batch)"
  unfolding commit_with_new_seq_def Let_def write_non_durable_def
  by (intro spec_rules keeps_on_db_gc keeps_reads_gc)

lemma keeps_ops_gc:
  assumes "bloom_laws lib"
  shows "keeps (\<lambda>s. grows lib g (fs_gc s)) (put_file db lib f)"
    "keeps (\<lambda>s. grows lib g (fs_gc s)) (put_file_with_carry db lib f src)"
    "keeps (\<lambda>s. grows lib g (fs_gc s)) (stage_file db lib e f)"
    "keeps (\<lambda>s. grows lib g (fs_gc s)) (complete_file db lib e n ver)"
    "keeps (\<lambda>s. grows lib g (fs_gc s)) (put_remote_state db lib d r)"
  unfolding put_file_def put_file_with_carry_def stage_file_def complete_file_def put_remote_state_def
    put_non_durable_def write_non_durable_def Let_def
  by (intro spec_rules keeps_on_db_gc keeps_commit_gc keeps_reads_gc keeps_for_iter keeps_record [OF assms])+

lemma keeps_mod: "(\<And>s. P s \<Longrightarrow> P (f s)) \<Longrightarrow> keeps P (mod_st f)"
  by (simp add: keeps_def mod_st_def)

lemma keeps_take_gc: "keeps (\<lambda>s. grows lib g (fs_gc s)) take_reserved"
  by (auto simp: keeps_def take_reserved_def Let_def)

lemma keeps_store_block:
  assumes "bloom_laws lib"
  shows "keeps (\<lambda>s. grows lib g (fs_gc s)) (store_block db lib ep n h data)"
  unfolding store_block_def find_block_dir_def find_file_entry_def allocate_def refill_def
    probe_reverse_ref_def write_non_durable_def put_non_durable_def Let_def
  by (intro spec_rules keeps_on_db_gc keeps_take_gc keeps_reads_gc keeps_for_iter keeps_record [OF assms])
    (auto intro!: spec_rules keeps_mod keeps_on_db_gc split: prod.splits)

lemma keeps_gc_inbox: "keeps (\<lambda>s. grows lib g (fs_gc s)) (gc_inbox db e)"
  unfolding gc_inbox_def write_non_durable_def
  by (intro spec_rules keeps_on_db_gc keeps_for_iter) (auto intro!: spec_rules split: prod.splits)

lemma gc_grows:
  assumes "\<And>g. keeps (\<lambda>s. grows lib g (fs_gc s)) m" and "m s = (r, t)"
  shows "grows lib (fs_gc s) (fs_gc t)"
  using keepsD [OF assms(1) _ assms(2), of "fs_gc s"] by simp

lemma adds_commit:
  assumes "ast lib c' = a_commit n stored a" "refs e a \<subseteq> refs e (ast lib c)" "block_seqs stored \<subseteq> refs e (ast lib c)"
    and "a_data a = a_data (ast lib c)" "\<And>x. a_inbox a x \<noteq> None \<Longrightarrow> a_inbox (ast lib c) x \<noteq> None"
    and "grows lib (fs_gc c) (fs_gc c')"
  shows "adds lib e c c' {}"
proof -
  have "refs e (ast lib c') \<subseteq> refs e (ast lib c)" using assms(1-3) refs_commit [of e n stored a] by auto
  moreover have "a_data (ast lib c') = a_data (ast lib c)" "a_inbox (ast lib c') = a_inbox a"
    by (simp_all add: assms(1,4) a_commit_def Let_def)
  moreover have "only_epoch e a" if "only_epoch e (ast lib c)"
    using that assms(5) unfolding only_epoch_def by blast
  ultimately show ?thesis using assms(6) by (simp add: adds_def only_epoch_def)
qed

lemma commit_adds:
  assumes lib: "codec_laws lib" "bloom_laws lib" and inv: "store_inv lib C c"
    and max: "max_seq (ast lib c) < i64_max" and n: "good_name (fi_name f)"
  shows "adds lib e c (snd (put_file map_slate lib f c)) {}"
    "good_name src \<Longrightarrow> adds lib e c (snd (put_file_with_carry map_slate lib f src c)) {}"
proof -
  show "adds lib e c (snd (put_file map_slate lib f c)) {}"
  proof (rule put_file_map [OF lib(1) inv n max])
    fix c' assume c': "put_file map_slate lib f c = (Inr (max_seq (ast lib c) + 1), c')"
      "ast lib c' = a_commit (fi_name f) (s_of_file_info f) (ast lib c)"
    show ?thesis
      using adds_commit [OF c'(2), of e c] gc_grows [OF keeps_ops_gc(1) [OF lib(2)] c'(1)]
      by (simp add: c'(1) block_seqs_new)
  qed
  assume src: "good_name src"
  show "adds lib e c (snd (put_file_with_carry map_slate lib f src c)) {}"
  proof (rule put_file_with_carry_map [OF lib(1) inv n src max])
    fix c' R assume c': "put_file_with_carry map_slate lib f src c = (Inr (max_seq (ast lib c) + 1), c')"
      "ast lib c' = a_commit (fi_name f) (copy_of (ast lib c) f src) ((ast lib c)\<lparr>a_rev := R\<rparr>)"
    have "refs e ((ast lib c)\<lparr>a_rev := R\<rparr>) = refs e (ast lib c)" by (simp add: refs_def)
    moreover have "block_seqs (copy_of (ast lib c) f src) \<subseteq> refs e (ast lib c)"
      using block_seqs_carried [of "ast lib c" src "s_of_file_info f" e] by (simp add: copy_of_def block_seqs_new)
    ultimately show ?thesis
      using adds_commit [OF c'(2), of e c] gc_grows [OF keeps_ops_gc(2) [OF lib(2)] c'(1)]
      by (simp add: c'(1))
  qed
qed

lemma adds_less:
  assumes "\<And>n. a_files (ast lib c') n = a_files (ast lib c) n"
    and "\<And>n fi. a_inbox (ast lib c') (e, n) = Some fi \<Longrightarrow> a_inbox (ast lib c) (e, n) = Some fi \<or> block_seqs fi = {}"
    and "a_data (ast lib c') = a_data (ast lib c)" "only_epoch e (ast lib c) \<Longrightarrow> only_epoch e (ast lib c')"
    and "grows lib (fs_gc c) (fs_gc c')"
  shows "adds lib e c c' {}"
proof -
  have "refs e (ast lib c') \<subseteq> refs e (ast lib c)"
    by (rule refs_le) (use assms(1,2) refs_files refs_inbox in \<open>fastforce+\<close>)
  with assms(3-5) show ?thesis by (simp add: adds_def)
qed

lemma inbox_adds:
  assumes lib: "codec_laws lib" "bloom_laws lib" and inv: "store_inv lib C c"
  shows "good_name (fi_name f) \<Longrightarrow> wf_epoch e \<Longrightarrow> adds lib e c (snd (stage_file map_slate lib e f c)) {}"
    "adds lib e c (snd (gc_inbox map_slate e' c)) {}"
    "adds lib e c (snd (put_remote_state map_slate lib d r c)) {}"
proof -
  show "adds lib e c (snd (stage_file map_slate lib e f c)) {}" if "good_name (fi_name f)" "wf_epoch e"
  proof (rule stage_file_map [OF lib(1) inv that])
    fix c' assume c': "stage_file map_slate lib e f c = (Inr (), c')"
      "ast lib c' = (ast lib c)\<lparr>a_inbox := (a_inbox (ast lib c))((e, fi_name f) \<mapsto> s_of_file_info f)\<rparr>"
    have "adds lib e c c' {}"
      by (rule adds_less) (use gc_grows [OF keeps_ops_gc(3) [OF lib(2)] c'(1)] in
        \<open>auto simp: c'(2) block_seqs_new only_epoch_def split: if_splits\<close>)
    with c'(1) show ?thesis by simp
  qed
  show "adds lib e c (snd (gc_inbox map_slate e' c)) {}"
  proof (rule gc_inbox_map [OF inv, of e'])
    fix c' assume c': "gc_inbox map_slate e' c = (Inr (stale_count e' (ast lib c)), c')"
      "ast lib c' = drop_stale e' (ast lib c)"
    have "adds lib e c c' {}"
      by (rule adds_less) (use gc_grows [OF keeps_gc_inbox c'(1)] in
        \<open>auto simp: c'(2) drop_stale_def only_epoch_def split: if_splits\<close>)
    with c'(1) show ?thesis by simp
  qed
  show "adds lib e c (snd (put_remote_state map_slate lib d r c)) {}"
  proof (rule put_remote_state_map [OF lib(1) inv, of d r])
    fix c' assume c': "put_remote_state map_slate lib d r c = (Inr (), c')"
      "ast lib c' = (ast lib c)\<lparr>a_remote := (a_remote (ast lib c))(d \<mapsto> r)\<rparr>"
    have "adds lib e c c' {}"
      by (rule adds_less) (use gc_grows [OF keeps_ops_gc(5) [OF lib(2)] c'(1)] in
        \<open>auto simp: c'(2) only_epoch_def\<close>)
    with c'(1) show ?thesis by simp
  qed
qed

lemma complete_adds:
  assumes lib: "codec_laws lib" "bloom_laws lib" and inv: "store_inv lib C c"
    and n: "good_name n" "wf_epoch e" and max: "max_seq (ast lib c) < i64_max"
  shows "adds lib e c (snd (complete_file map_slate lib e n ver c)) {}"
proof -
  consider (skip) "\<And>fi. a_inbox (ast lib c) (e, n) = Some fi \<Longrightarrow> map_option b_of_vector (sf_version fi) \<noteq> ver"
    | (staged) fi where "a_inbox (ast lib c) (e, n) = Some fi" "map_option b_of_vector (sf_version fi) = ver"
    by blast
  then show ?thesis
  proof cases
    case skip
    then show ?thesis using complete_file_skip [OF inv n skip] by (simp add: adds_refl)
  next
    case staged
    show ?thesis
    proof (cases "incomplete (carried (ast lib c) n fi)")
      case True
      then show ?thesis using complete_file_incomplete [OF inv n staged] by (simp add: adds_refl)
    next
      case False
      show ?thesis
      proof (rule complete_file_commit [OF lib(1) inv n staged False max])
        fix c' assume c': "complete_file map_slate lib e n ver c =
            (Inr (Some (bep_of ((carried (ast lib c) n fi)\<lparr>sf_sequence := max_seq (ast lib c) + 1\<rparr>))), c')"
          "ast lib c' = a_commit n fi ((ast lib c)\<lparr>a_inbox := (a_inbox (ast lib c))((e, n) := None)\<rparr>)"
        have "refs e ((ast lib c)\<lparr>a_inbox := (a_inbox (ast lib c))((e, n) := None)\<rparr>) \<subseteq> refs e (ast lib c)"
          by (auto simp: refs_def split: if_splits)
        then have "adds lib e c c' {}"
          by (intro adds_commit [OF c'(2)] refs_inbox [OF staged(1)] gc_grows [OF keeps_ops_gc(4) [OF lib(2)] c'(1)])
            (auto split: if_splits)
        with c'(1) show ?thesis by simp
      qed
    qed
  qed
qed

text \<open>Blocks: the state after a block is shared or stored anew.\<close>

lemma adds_put:
  assumes ent: "entry_for (ast lib c) epoch n = Some (fi, ep)" "epoch = None \<or> epoch = Some e"
    and "a_files (ast lib c') = a_files (put_entry ep n (set_pointer h w p fi) (ast lib c))"
    and "a_inbox (ast lib c') = a_inbox (put_entry ep n (set_pointer h w p fi) (ast lib c))"
    and "grows lib (fs_gc c) (fs_gc c')" "\<And>q job. w = Some q \<Longrightarrow> known_live_seq_contains lib job q (fs_gc c')"
    and "\<And>q y. a_data (ast lib c) q = Some y \<Longrightarrow> a_data (ast lib c') q \<noteq> None"
  shows "adds lib e c c' (set_option w)"
proof -
  have ep: "ep = None \<or> ep = Some e" using entry_forD [OF ent(1)] ent(2) by auto
  have "only_epoch e (ast lib c')" if "only_epoch e (ast lib c)"
    unfolding only_epoch_def assms(4)
    using that ep by (cases ep) (fastforce simp: only_epoch_def put_entry_def split: if_splits)+
  with refs_put_entry [OF ent(1) ep assms(3,4)] assms(5-7) show ?thesis by (auto simp: adds_def)
qed

lemma share_adds:
  assumes lib: "codec_laws lib" "bloom_laws lib" and inv: "store_inv lib C c"
    and n: "good_name n" "length h = HASH_LEN" "\<And>e. epoch = Some e \<Longrightarrow> wf_epoch e"
    and copy: "stored_copy lib c h = Some (d, r)" and ent: "entry_for (ast lib c) epoch n = Some (fi, ep)"
    and ep: "epoch = None \<or> epoch = Some e"
  shows "adds lib e c (share_state lib ep n h d r fi (record_block_write lib h (Some (seqno r)) (fs_gc c)) c) {seqno r}"
proof -
  let ?c = "share_state lib ep n h d r fi (record_block_write lib h (Some (seqno r)) (fs_gc c)) c"
  have wfe: "wf_epoch x" if "ep = Some x" for x by (rule entry_for_epoch [OF ent n(3) that])
  have "ast lib ?c = put_entry ep n (set_pointer h (Some (seqno r)) None fi) (with_refs n h (seqno r) (ast lib c))"
    using share_view(1) [where ep = ep, OF lib(1) n(1,2) wfe stored_copy_Some(2) [OF inv copy] refl,
        where fi = "set_pointer h (Some (seqno r)) None fi"] by (simp add: share_state_def)
  then have "adds lib e c ?c (set_option (Some (seqno r)))"
    by (intro adds_put [OF ent ep]) (simp_all add: share_state_def record_live [OF lib(2)])
  then show ?thesis by simp
qed

lemma fresh_adds:
  assumes lib: "codec_laws lib" "bloom_laws lib" and inv: "store_inv lib C c"
    and n: "good_name n" "length h = HASH_LEN" "\<And>e. epoch = Some e \<Longrightarrow> wf_epoch e"
    and ent: "entry_for (ast lib c) epoch n = Some (fi, ep)" and ep: "epoch = None \<or> epoch = Some e"
    and al: "allocates (ast lib c) (fs_blockseq c) s (ast lib c1) (fs_blockseq c1)"
  shows "adds lib e c (fresh_state lib ep n h s data fi (record_block_write lib h (Some s) (fs_gc c)) c1) {s}"
    "a_data (ast lib c) s = None"
proof -
  let ?c = "fresh_state lib ep n h s data fi (record_block_write lib h (Some s) (fs_gc c)) c1"
  note same = allocates_same [OF al]
  have s: "MIN_BLOCK_SEQ \<le> s" using same(8) by (simp add: allocated_def)
  have wfe: "wf_epoch x" if "ep = Some x" for x by (rule entry_for_epoch [OF ent n(3) that])
  have a: "ast lib ?c = put_entry ep n (set_pointer h (Some s) None fi)
      (with_refs n h s ((ast lib c1)\<lparr>a_data := (a_data (ast lib c1))(s \<mapsto> data)\<rparr>))"
    using fresh_view(1) [where ep = ep, OF lib(1) n(1,2) wfe s refl, where fi = "set_pointer h (Some s) None fi"]
    by (simp add: fresh_state_def)
  have "adds lib e c ?c (set_option (Some s))"
    by (intro adds_put [OF ent ep, where h = h and p = None])
      (simp_all add: a same(5) record_live [OF lib(2)], simp_all add: fresh_state_def put_entry_def same(1,2) record_live [OF lib(2)] split: option.split)
  then show "adds lib e c ?c {s}" by simp
  show "a_data (ast lib c) s = None"
    using blk_invD(6) [OF store_invD(3) [OF inv]] same(9) by (cases "a_data (ast lib c) s") auto
qed

section \<open>Every command\<close>

text \<open>The numbers a command may bring into use: unused ones, and that of the copy it shares.\<close>

fun cmd_hash :: "store_cmd \<Rightarrow> bytes option" where
  "cmd_hash (StoreBlock ep n h data) = Some h"
| "cmd_hash (ReuseBlock ep n h) = Some h"
| "cmd_hash _ = None"

fun cmd_at :: "epoch \<Rightarrow> store_cmd \<Rightarrow> bool" where
  "cmd_at e (StageFile e' f) \<longleftrightarrow> e' = e"
| "cmd_at e (CompleteFile e' n ver) \<longleftrightarrow> e' = e"
| "cmd_at e (StoreBlock ep n h data) \<longleftrightarrow> ep = None \<or> ep = Some e"
| "cmd_at e (ReuseBlock ep n h) \<longleftrightarrow> ep = None \<or> ep = Some e"
| "cmd_at e _ \<longleftrightarrow> True"

definition shared_copy :: "('v, 'b) lib \<Rightarrow> store_cmd \<Rightarrow> (bytes \<rightharpoonup> 'v, 'b) folder_store \<Rightarrow> u64 \<Rightarrow> bool" where
  "shared_copy lib cmd c q \<longleftrightarrow>
     (\<exists>h d r. cmd_hash cmd = Some h \<and> stored_copy lib c h = Some (d, r) \<and> seqno r = q)"

definition brings ::
  "('v, 'b) lib \<Rightarrow> epoch \<Rightarrow> store_cmd \<Rightarrow> (bytes \<rightharpoonup> 'v, 'b) folder_store \<Rightarrow>
   (bytes \<rightharpoonup> 'v, 'b) folder_store \<Rightarrow> bool" where
  "brings lib e cmd c c' \<longleftrightarrow>
     (\<exists>N. adds lib e c c' N \<and> (\<forall>q \<in> N. a_data (ast lib c) q = None \<or> shared_copy lib cmd c q))"

lemma bringsI: "adds lib e c c' {} \<Longrightarrow> brings lib e cmd c c'"
  by (auto simp: brings_def)

lemma reuse_brings:
  assumes lib: "codec_laws lib" "bloom_laws lib" and inv: "store_inv lib C c" and n: "good_name n"
    "\<And>e. ep = Some e \<Longrightarrow> wf_epoch e" and ep: "ep = None \<or> ep = Some e"
  shows "brings lib e (ReuseBlock ep n h) c (snd (reuse_block map_slate lib ep n h c))"
proof (cases "length h = HASH_LEN")
  case True
  note R = reuse_block_map [OF lib(1) inv n(1) True n(2)]
  show ?thesis
  proof (cases "stored_copy lib c h")
    case (Some x)
    then obtain d r where copy: "stored_copy lib c h = Some (d, r)" by (cases x) auto
    show ?thesis
    proof (cases "entry_for (ast lib c) ep n")
      case (Some y)
      then obtain fi p where ent: "entry_for (ast lib c) ep n = Some (fi, p)" by (cases y) auto
      show ?thesis
      proof (cases "has_hash h fi")
        case True
        have "reuse_block map_slate lib ep n h c = (Inr True,
            share_state lib p n h d r fi (record_block_write lib h (Some (seqno r)) (fs_gc c)) c)"
          using ent copy True \<open>length h = HASH_LEN\<close>
          by (simp add: reuse_block_def run_simps find_block_dir_map [OF inv] share_state_def
              find_file_entry_eval [OF store_invD(1) [OF inv] n] write_non_durable_def)
        with share_adds [OF lib inv n(1) \<open>length h = HASH_LEN\<close> n(2) copy ent ep] copy show ?thesis
          by (auto simp: brings_def shared_copy_def)
      qed (use R(3) [where fi = fi and ep = p] copy ent in \<open>simp add: bringsI adds_refl\<close>)
    qed (use R(2) copy in \<open>simp add: bringsI adds_refl\<close>)
  qed (use R(1) in \<open>simp add: bringsI adds_refl\<close>)
next
  case False
  then show ?thesis by (simp add: reuse_block_def op_simps bringsI adds_refl)
qed

lemma store_missing_brings:
  assumes lib: "codec_laws lib" "bloom_laws lib" and inv: "store_inv lib C c" and room: "has_room (ast lib c)"
    and n: "good_name n" "length h = HASH_LEN" "\<And>e. ep = Some e \<Longrightarrow> wf_epoch e"
    and none: "\<And>fi p. entry_for (ast lib c) ep n = Some (fi, p) \<Longrightarrow> \<not> has_hash h fi"
  shows "adds lib e c (snd (store_block map_slate lib ep n h data c)) {}"
proof -
  have "\<exists>x c'. store_block map_slate lib ep n h data c = (Inl (NotFound x), c') \<and>
     store_inv lib C c' \<and> a_files (ast lib c') = a_files (ast lib c) \<and>
     a_inbox (ast lib c') = a_inbox (ast lib c) \<and> a_data (ast lib c') = a_data (ast lib c)"
    by (rule store_block_missing [OF lib(1) inv room n(1,2)]) (rule n(3), assumption, rule none, assumption)
  then obtain x c' where c': "store_block map_slate lib ep n h data c = (Inl (NotFound x), c')"
    "a_files (ast lib c') = a_files (ast lib c)" "a_inbox (ast lib c') = a_inbox (ast lib c)"
    "a_data (ast lib c') = a_data (ast lib c)" by blast
  have "adds lib e c c' {}"
    by (rule adds_less) (use c' gc_grows [OF keeps_store_block [OF lib(2)] c'(1)] in \<open>auto simp: only_epoch_def\<close>)
  with c'(1) show ?thesis by simp
qed

lemma store_present_brings:
  assumes lib: "codec_laws lib" "bloom_laws lib" and inv: "store_inv lib C c" and room: "has_room (ast lib c)"
    and n: "good_name n" "length h = HASH_LEN" "\<And>e. ep = Some e \<Longrightarrow> wf_epoch e"
    and ent: "entry_for (ast lib c) ep n = Some (fi, p)" "has_hash h fi" and ep: "ep = None \<or> ep = Some e"
  shows "brings lib e (StoreBlock ep n h data) c (snd (store_block map_slate lib ep n h data c))"
proof -
  note wf = store_invD [OF inv]
  consider (small) "int (length data) < INLINE_BLOCK_THRESHOLD"
    | (copy) d r where "\<not> int (length data) < INLINE_BLOCK_THRESHOLD" "stored_copy lib c h = Some (d, r)"
    | (new) "\<not> int (length data) < INLINE_BLOCK_THRESHOLD" "stored_copy lib c h = None" by fastforce
  then show ?thesis
  proof cases
    case small
    let ?c = "c\<lparr>fs_db := apply_op (entry_put lib (entry_key p n) (p \<noteq> None) (set_pointer h None (Some data) fi)) (fs_db c)\<rparr>"
    have run: "store_block map_slate lib ep n h data c = (Inr (), ?c)"
      using small ent
      by (simp add: store_block_def run_simps n(2) find_file_entry_eval [OF wf(1) n(1,3)] write_non_durable_def)
    have wfe: "wf_epoch x" if "p = Some x" for x by (rule entry_for_epoch [OF ent(1) n(3) that])
    have "ast lib ?c = put_entry p n (set_pointer h None (Some data) fi) (ast lib c)"
      using entry_put_view(1) [where ep = p, OF lib(1) n(1) wfe refl] by simp
    then have "adds lib e c ?c (set_option None)"
      by (intro adds_put [OF ent(1) ep, where h = h and p = "Some data"]) simp_all
    with run show ?thesis by (simp add: bringsI)
  next
    case copy
    have "store_block map_slate lib ep n h data c = (Inr (),
        share_state lib p n h d r fi (record_block_write lib h (Some (seqno r)) (fs_gc c)) c)"
      using ent copy
      by (simp add: store_block_def run_simps n(2) find_block_dir_map [OF inv n(2)] share_state_def
          find_file_entry_eval [OF wf(1) n(1,3)] write_non_durable_def)
    with share_adds [OF lib inv n copy(2) ent(1) ep] copy(2) show ?thesis
      by (auto simp: brings_def shared_copy_def)
  next
    case new
    show ?thesis
    proof (rule allocate_map [OF lib(1) inv room])
      fix s c1 assume al: "allocate map_slate lib c = (Inr s, c1)" "fs_gc c1 = fs_gc c" "wf_store lib c1"
        "allocates (ast lib c) (fs_blockseq c) s (ast lib c1) (fs_blockseq c1)"
      have "store_block map_slate lib ep n h data c = (Inr (),
          fresh_state lib p n h s data fi (record_block_write lib h (Some s) (fs_gc c)) c1)"
        using ent new al
        by (simp add: store_block_def run_simps n(2) find_block_dir_map [OF inv n(2)] fresh_state_def
            find_file_entry_eval [OF al(3) n(1,3)] write_non_durable_def allocates_same(7) [OF al(4)])
      with fresh_adds [OF lib inv n ent(1) ep al(4)] show ?thesis by (auto simp: brings_def)
    qed
  qed
qed

lemma store_brings:
  assumes lib: "codec_laws lib" "bloom_laws lib" and inv: "store_inv lib C c" and room: "has_room (ast lib c)"
    and n: "good_name n" "\<And>e. ep = Some e \<Longrightarrow> wf_epoch e" and ep: "ep = None \<or> ep = Some e"
  shows "brings lib e (StoreBlock ep n h data) c (snd (store_block map_slate lib ep n h data c))"
proof (cases "length h = HASH_LEN")
  case True
  show ?thesis
  proof (cases "\<exists>fi p. entry_for (ast lib c) ep n = Some (fi, p) \<and> has_hash h fi")
    case True
    then obtain fi p where "entry_for (ast lib c) ep n = Some (fi, p)" "has_hash h fi" by blast
    from store_present_brings [OF lib inv room n(1) \<open>length h = HASH_LEN\<close> n(2) this ep] show ?thesis .
  next
    case False
    then have none: "\<not> has_hash h fi" if "entry_for (ast lib c) ep n = Some (fi, p)" for fi p
      using that by blast
    show ?thesis
      by (rule bringsI, rule store_missing_brings [OF lib inv room n(1) \<open>length h = HASH_LEN\<close>])
        (rule n(2), assumption, rule none, assumption)
  qed
next
  case False
  then show ?thesis by (simp add: store_block_def op_simps bringsI adds_refl)
qed

lemma exec_brings:
  assumes lib: "codec_laws lib" "bloom_laws lib" and inv: "store_inv lib C c"
    and cmd: "cmd_ok C cmd" "cmd_at e cmd" and room: "counters_ok (ast lib c)"
  shows "brings lib e cmd c (exec map_slate lib cmd c)"
proof -
  have max: "max_seq (ast lib c) < i64_max" and blocks: "has_room (ast lib c)"
    using room by (simp_all add: counters_ok_def)
  have epoch: "wf_epoch e" if "case ep of None \<Rightarrow> True | Some e \<Rightarrow> wf_epoch e" "ep = Some e" for ep e
    using that by simp
  show ?thesis
  proof (cases cmd)
    case (StoreBlock ep n h data)
    have "brings lib e (StoreBlock ep n h data) c (snd (store_block map_slate lib ep n h data c))"
      by (rule store_brings [OF lib inv blocks]) (use StoreBlock cmd epoch in auto)
    then show ?thesis by (simp add: exec_def StoreBlock)
  next
    case (ReuseBlock ep n h)
    have "brings lib e (ReuseBlock ep n h) c (snd (reuse_block map_slate lib ep n h c))"
      by (rule reuse_brings [OF lib inv]) (use ReuseBlock cmd epoch in auto)
    then show ?thesis by (simp add: exec_def ReuseBlock)
  qed (use cmd commit_adds [OF lib inv max] inbox_adds [OF lib inv] complete_adds [OF lib inv _ _ max]
      in \<open>auto simp: exec_def still_snd still_rules adds_refl intro!: bringsI\<close>)
qed

end
