(* ===== verification/GcJob.thy ===== *)
theory GcJob
  imports GcSafe
begin

text \<open>
  A compaction job beside the store: the filter is built, the store goes on running commands while
  the database shows rows to the filter, and at the end the rows the filter did not keep are
  removed.  The theorem says what the job may do to the files and when.
\<close>

section \<open>What the filter does to the rows of the store\<close>

lemma parse_tags:
  "take 2 k \<noteq> BLOCK_PREFIX \<Longrightarrow> parse_block_pointer_key k = None"
  "take 2 k \<noteq> BLOCK_REV_PREFIX \<Longrightarrow> parse_block_reverse_key k = None"
  "take 2 k \<noteq> INBOX_PREFIX \<Longrightarrow> parse_inbox_key k = None"
  "take 2 k \<noteq> SEQ_PREFIX \<Longrightarrow> parse_seq_key k = None"
  "take 2 k \<noteq> FILE_PREFIX \<Longrightarrow> parse_file_key k = None"
  "prefix ''bd'' k \<longleftrightarrow> take 2 k = ''bd''"
proof -
  have two: "length p = 2 \<Longrightarrow> take 2 k \<noteq> p \<Longrightarrow> strip_prefix p k = None" for p
    by (simp add: strip_prefix_None prefix_two)
  show "take 2 k \<noteq> BLOCK_REV_PREFIX \<Longrightarrow> parse_block_reverse_key k = None"
    "take 2 k \<noteq> INBOX_PREFIX \<Longrightarrow> parse_inbox_key k = None"
    "take 2 k \<noteq> FILE_PREFIX \<Longrightarrow> parse_file_key k = None"
    by (simp_all add: parse_block_reverse_key_def parse_inbox_key_def parse_file_key_def two tag_defs)
  show "take 2 k \<noteq> BLOCK_PREFIX \<Longrightarrow> parse_block_pointer_key k = None"
    "take 2 k \<noteq> SEQ_PREFIX \<Longrightarrow> parse_seq_key k = None"
    "prefix ''bd'' k \<longleftrightarrow> take 2 k = ''bd''"
    by (simp_all add: parse_block_pointer_key_def parse_seq_key_def prefix_two tag_defs)
qed

lemmas row_class = gc_filter_row_def Let_def parse_tags key_tags take_2_seqk tag_defs

lemma row_of_file:
  assumes "good_name n" and "gc_filter_row vlen lib gc \<lparr>re_key = file_key n, re_value = Value v\<rparr> f = (Inr d, f')"
    and "d \<noteq> Keep" and "file_val lib v = Some fi"
  shows "sf_deleted fi"
  using assms
  by (auto simp: row_class parse_file_key_enc stale_deletion_def file_val_def bind_eq_Some_conv
      split: if_splits option.splits)

lemma row_of_data:
  assumes "MIN_BLOCK_SEQ \<le> q"
    and "gc_filter_row vlen lib gc \<lparr>re_key = block_data_seq_key q, re_value = v\<rparr> f = (Inr d, f')" and "d \<noteq> Keep"
  shows "\<not> known_live_seq_contains lib (gf_job f) q gc"
  using assms by (auto simp: row_class data_keys.dec_enc split: if_splits)

lemma row_of_inbox:
  assumes "wf_epoch e" "good_name n"
    and "gc_filter_row vlen lib gc \<lparr>re_key = inbox_key e n, re_value = v\<rparr> f = (Inr d, f')" and "d \<noteq> Keep"
  shows "epoch_less e (gf_epoch f)"
  using assms by (auto simp: row_class parse_inbox_key_enc split: if_splits)

lemma row_of_meta:
  assumes "gc_filter_row vlen lib gc \<lparr>re_key = k, re_value = v\<rparr> f = (Inr d, f')"
    and "k = IX_KEY \<or> (\<exists>dev. k = device_key dev)"
  shows "d = Keep"
  using assms by (auto simp: row_class split: if_splits)

lemma filter_row_same:
  "gc_filter_row vlen lib gc r f = (x, f') \<Longrightarrow> gf_job f' = gf_job f \<and> gf_epoch f' = gf_epoch f"
  by (auto simp: gc_filter_row_def Let_def dropped_row_def kept_row_def split: if_splits option.splits)

section \<open>Runs of a job\<close>

text \<open>
  \<open>P\<close> is the set of the rows the job will remove.  A row that is shown to the filter and is no
  longer the current one of its key has no effect and is left out.  Commands are those the
  database carried out; \<open>R\<close> says which commands run beside the job.
\<close>

inductive gc_job ::
  "('d, 'v) slate \<Rightarrow> ('v, 'b) lib \<Rightarrow> ('v \<Rightarrow> u64) \<Rightarrow> ('d \<Rightarrow> bytes \<rightharpoonup> 'v) \<Rightarrow> (bytes \<Rightarrow> bytes) \<Rightarrow> 'b \<Rightarrow> epoch \<Rightarrow>
   (store_cmd \<Rightarrow> (bytes \<rightharpoonup> 'v, 'b) folder_store \<Rightarrow> (bytes \<times> 'v) set \<Rightarrow> bool) \<Rightarrow> ('d, 'b) folder_store \<Rightarrow>
   ('d, 'b) folder_store \<Rightarrow> gc_filter \<Rightarrow> (bytes \<times> 'v) set \<Rightarrow> bool"
  for db lib vlen A C bloom0 e R s0 where
  start: "create_compaction_filter db lib bloom0 e bottom s0 = (Inr f, s) \<Longrightarrow>
    gc_job db lib vlen A C bloom0 e R s0 s f {}"
| command: "gc_job db lib vlen A C bloom0 e R s0 s f P \<Longrightarrow> cmd_ok C cmd \<Longrightarrow> cmd_at e cmd \<Longrightarrow>
    counters_ok (ast lib (store_view A s)) \<Longrightarrow> R cmd (store_view A s) P \<Longrightarrow>
    store_view A (exec db lib cmd s) = exec map_slate lib cmd (store_view A s) \<Longrightarrow>
    gc_job db lib vlen A C bloom0 e R s0 (exec db lib cmd s) f P"
| row: "gc_job db lib vlen A C bloom0 e R s0 s f P \<Longrightarrow> A (fs_db s) k = Some v \<Longrightarrow>
    gc_filter_row vlen lib (fs_gc s) \<lparr>re_key = k, re_value = Value v\<rparr> f = (Inr d, f') \<Longrightarrow>
    gc_job db lib vlen A C bloom0 e R s0 s f' (if d = Keep then P else insert (k, v) P)"

text \<open>The commands that do not share a block the job has given up.\<close>

definition unspoilt ::
  "('v, 'b) lib \<Rightarrow> store_cmd \<Rightarrow> (bytes \<rightharpoonup> 'v, 'b) folder_store \<Rightarrow> (bytes \<times> 'v) set \<Rightarrow> bool" where
  "unspoilt lib cmd c P \<longleftrightarrow> (\<forall>q v. shared_copy lib cmd c q \<longrightarrow> (block_data_seq_key q, v) \<notin> P)"

definition removed :: "(bytes \<times> 'v) set \<Rightarrow> (bytes \<rightharpoonup> 'v) \<Rightarrow> (bytes \<rightharpoonup> 'v)" where
  "removed P V = (\<lambda>k. case V k of None \<Rightarrow> None | Some v \<Rightarrow> if (k, v) \<in> P then None else Some v)"

definition install :: "(bytes \<times> 'v) set \<Rightarrow> (bytes \<rightharpoonup> 'v, 'b) folder_store \<Rightarrow> (bytes \<rightharpoonup> 'v, 'b) folder_store" where
  "install P c = c\<lparr>fs_db := removed P (fs_db c)\<rparr>"

section \<open>The invariant of a job\<close>

definition row_ok :: "('v, 'b) lib \<Rightarrow> epoch \<Rightarrow> astore \<Rightarrow> bytes \<Rightarrow> 'v \<Rightarrow> bool" where
  "row_ok lib e a k v \<longleftrightarrow>
     (\<forall>q. MIN_BLOCK_SEQ \<le> q \<longrightarrow> k = block_data_seq_key q \<longrightarrow> q \<notin> refs e a \<and> a_data a q \<noteq> None) \<and>
     (\<forall>n fi. good_name n \<longrightarrow> k = file_key n \<longrightarrow> file_val lib v = Some fi \<longrightarrow> sf_deleted fi) \<and>
     (\<forall>n. good_name n \<longrightarrow> k \<noteq> inbox_key e n) \<and> k \<noteq> IX_KEY \<and> (\<forall>dev. k \<noteq> device_key dev)"

definition job_inv ::
  "('v, 'b) lib \<Rightarrow> (bytes \<Rightarrow> bytes) \<Rightarrow> epoch \<Rightarrow> (bytes \<rightharpoonup> 'v, 'b) folder_store \<Rightarrow> gc_filter \<Rightarrow> (bytes \<times> 'v) set \<Rightarrow> bool" where
  "job_inv lib C e c f P \<longleftrightarrow>
     store_inv lib C c \<and> live lib (gf_job f) e c \<and> gf_epoch f = e \<and> only_epoch e (ast lib c) \<and>
     (\<forall>(k, v) \<in> P. row_ok lib e (ast lib c) k v)"

lemma row_ok_command:
  assumes "row_ok lib e (ast lib c) k v" "adds lib e c c' N"
    and "\<And>q. q \<in> N \<Longrightarrow> a_data (ast lib c) q = None \<or> k \<noteq> block_data_seq_key q"
  shows "row_ok lib e (ast lib c') k v"
proof -
  have "q \<notin> refs e (ast lib c') \<and> a_data (ast lib c') q \<noteq> None"
    if "MIN_BLOCK_SEQ \<le> q" "k = block_data_seq_key q" for q
  proof -
    have "q \<notin> refs e (ast lib c)" "a_data (ast lib c) q \<noteq> None"
      using assms(1) that by (simp_all add: row_ok_def)
    moreover from this(2) have "q \<notin> N" using assms(3) [of q] that(2) by auto
    ultimately show ?thesis using assms(2) by (auto simp: adds_def)
  qed
  then show ?thesis using assms(1) by (simp add: row_ok_def)
qed

lemma job_inv_command:
  assumes lib: "codec_laws lib" "bloom_laws lib" and inv: "job_inv lib C e c f P" and db: "slate_laws db A"
    and c: "c = store_view A s" "store_view A (exec db lib cmd s) = exec map_slate lib cmd c"
    and cmd: "cmd_ok C cmd" "cmd_at e cmd" "counters_ok (ast lib c)" "unspoilt lib cmd c P"
  shows "job_inv lib C e (exec map_slate lib cmd c) f P"
proof -
  let ?c = "exec map_slate lib cmd c"
  have I: "store_inv lib C c" "live lib (gf_job f) e c" "only_epoch e (ast lib c)"
    using inv by (simp_all add: job_inv_def)
  obtain N where N: "adds lib e c ?c N" "\<And>q. q \<in> N \<Longrightarrow> a_data (ast lib c) q = None \<or> shared_copy lib cmd c q"
    using exec_brings [OF lib I(1) cmd(1-3)] by (auto simp: brings_def)
  have "store_inv lib C ?c" using exec_inv [OF db lib(1), of C s cmd] c cmd I(1) by simp
  moreover have "live lib (gf_job f) e ?c" by (rule live_adds [OF I(2) N(1)])
  moreover have "only_epoch e (ast lib ?c)" using N(1) I(3) by (simp add: adds_def)
  moreover have "row_ok lib e (ast lib ?c) k v" if "(k, v) \<in> P" for k v
  proof (rule row_ok_command [OF _ N(1)])
    show "row_ok lib e (ast lib c) k v" using that inv by (auto simp: job_inv_def)
    show "a_data (ast lib c) q = None \<or> k \<noteq> block_data_seq_key q" if "q \<in> N" for q
      using N(2) [OF that] cmd(4) \<open>(k, v) \<in> P\<close> by (auto simp: unspoilt_def)
  qed
  ultimately show ?thesis using inv by (auto simp: job_inv_def)
qed

lemma job_row_ok:
  assumes inv: "job_inv lib C e c f P" and e: "wf_epoch e" and v: "fs_db c k = Some v"
    and r: "gc_filter_row vlen lib (fs_gc c) \<lparr>re_key = k, re_value = Value v\<rparr> f = (Inr d, f')" "d \<noteq> Keep"
  shows "row_ok lib e (ast lib c) k v"
proof -
  have I: "live lib (gf_job f) e c" "gf_epoch f = e" using inv by (simp_all add: job_inv_def)
  have "q \<notin> refs e (ast lib c) \<and> a_data (ast lib c) q \<noteq> None"
    if "MIN_BLOCK_SEQ \<le> q" "k = block_data_seq_key q" for q
    using row_of_data [OF that(1) r(1)[unfolded that(2)] r(2)] I(1) v that
    by (auto simp: live_def astore_of_def lookup_at_def)
  moreover have "sf_deleted fi" if "good_name n" "k = file_key n" "file_val lib v = Some fi" for n fi
    by (rule row_of_file [OF that(1) r(1)[unfolded that(2)] r(2) that(3)])
  moreover have "k \<noteq> inbox_key e n" if "good_name n" for n
  proof
    assume "k = inbox_key e n"
    from row_of_inbox [OF e that r(1)[unfolded this] r(2)] I(2) show False by (simp add: epoch_less_def)
  qed
  ultimately show ?thesis using row_of_meta [OF r(1)] r(2) by (auto simp: row_ok_def)
qed

lemma gc_job_inv:
  assumes db: "slate_laws db A" and lib: "codec_laws lib" "bloom_laws lib" and e: "wf_epoch e"
    and run: "gc_job db lib vlen A C bloom0 e (unspoilt lib) s0 s f P"
    and s0: "store_inv lib C (store_view A s0)" "inbox_scanned e (ast lib (store_view A s0))"
      "only_epoch e (ast lib (store_view A s0))"
  shows "job_inv lib C e (store_view A s) f P"
  using run
proof induction
  case (start bottom f s)
  note F = create_filter_live [OF db lib(2) start s0(2)]
  have "store_inv lib C (store_view A s)" "only_epoch e (ast lib (store_view A s))"
    using s0(1,3) by (simp_all add: F(3))
  with F(1,2) show ?case by (simp add: job_inv_def)
next
  case (command s f P cmd)
  then show ?case using job_inv_command [OF lib command.IH db refl] by simp
next
  case (row s f P k v d f')
  note same = filter_row_same [OF row.hyps(3)]
  show ?case
  proof (cases "d = Keep")
    case False
    have "row_ok lib e (ast lib (store_view A s)) k v"
      by (rule job_row_ok [OF row.IH e _ _ False]) (use row.hyps(2,3) in simp_all)
    with False row.IH same show ?thesis by (simp add: job_inv_def live_def)
  qed (use row.IH same in \<open>simp add: job_inv_def live_def\<close>)
qed

section \<open>The end of a job\<close>

lemma lookup_removed:
  "lookup_at good key dec (removed P V) x =
     (if \<exists>v. V (key x) = Some v \<and> (key x, v) \<in> P then None else lookup_at good key dec V x)"
  by (auto simp: lookup_at_def removed_def split: option.splits)

lemma installed_sel:
  "a_files (ast lib (install P c)) n =
     (if \<exists>v. fs_db c (file_key n) = Some v \<and> (file_key n, v) \<in> P then None else a_files (ast lib c) n)"
  "a_inbox (ast lib (install P c)) (d, n) =
     (if \<exists>v. fs_db c (inbox_key d n) = Some v \<and> (inbox_key d n, v) \<in> P then None else a_inbox (ast lib c) (d, n))"
  "a_data (ast lib (install P c)) q =
     (if \<exists>v. fs_db c (block_data_seq_key q) = Some v \<and> (block_data_seq_key q, v) \<in> P then None
      else a_data (ast lib c) q)"
  "a_ptr (ast lib (install P c)) (d', h) =
     (if \<exists>v. fs_db c (block_pointer_key d' h) = Some v \<and> (block_pointer_key d' h, v) \<in> P then None
      else a_ptr (ast lib c) (d', h))"
  "a_remote (ast lib (install P c)) dev =
     (if \<exists>v. fs_db c (device_key dev) = Some v \<and> (device_key dev, v) \<in> P then None
      else a_remote (ast lib c) dev)"
  by (auto simp: astore_of_def install_def lookup_removed)

lemma installed:
  assumes inv: "job_inv lib C e c f P" and e: "wf_epoch e"
  shows "wf_store lib (install P c)" "blk_inv C (ast lib (install P c)) (fs_blockseq c)"
    "a_files (ast lib c) n = Some fi \<Longrightarrow> \<not> sf_deleted fi \<Longrightarrow> a_files (ast lib (install P c)) n = Some fi"
    "a_inbox (ast lib (install P c)) = a_inbox (ast lib c)" "a_meta (ast lib (install P c)) = a_meta (ast lib c)"
    "a_remote (ast lib (install P c)) = a_remote (ast lib c)"
proof -
  let ?a = "ast lib c" and ?b = "ast lib (install P c)"
  have I: "store_inv lib C c" "only_epoch e ?a" "\<And>k v. (k, v) \<in> P \<Longrightarrow> row_ok lib e ?a k v"
    using inv by (auto simp: job_inv_def)
  note wf = store_invD [OF I(1)]
  show "wf_store lib (install P c)"
  proof -
    have "dom (removed P (fs_db c)) \<subseteq> dom (fs_db c)" by (auto simp: removed_def split: option.splits if_splits)
    moreover have "removed P (fs_db c) k = Some v \<Longrightarrow> fs_db c k = Some v" for k v
      by (auto simp: removed_def split: option.splits if_splits)
    ultimately show ?thesis using wf(1) by (auto simp: wf_view_def install_def intro: finite_subset)
  qed
  show files: "a_files ?b n = Some fi" if "a_files ?a n = Some fi" "\<not> sf_deleted fi" for n fi
  proof -
    have "(file_key n, v) \<notin> P" if "fs_db c (file_key n) = Some v" "file_val lib v = Some fi" "good_name n" for v
      using I(3) [of "file_key n" v] that \<open>\<not> sf_deleted fi\<close> by (auto simp: row_ok_def)
    then show ?thesis using that(1) by (auto simp: installed_sel) (auto simp: astore_of_def lookup_at_def bind_eq_Some_conv split: if_splits)
  qed
  have inbox: "(inbox_key d n, v) \<notin> P" if "a_inbox ?a (d, n) \<noteq> None" for d n v
  proof -
    have "d = e" using I(2) that by (auto simp: only_epoch_def)
    moreover have "good_name n" using that by (auto simp: astore_of_def lookup_at_def ok_inbox_def split: if_splits)
    ultimately show ?thesis using I(3) [of "inbox_key d n" v] by (auto simp: row_ok_def)
  qed
  have "a_inbox ?b (d, n) = a_inbox ?a (d, n)" for d n
    using inbox [of d n] by (cases "a_inbox ?a (d, n)") (auto simp: installed_sel)
  then show inboxes: "a_inbox ?b = a_inbox ?a" by auto
  show meta: "a_meta ?b = a_meta ?a"
    using I(3) by (auto simp: astore_of_def install_def removed_def row_ok_def split: option.splits)
  show "a_remote ?b = a_remote ?a"
    using I(3) by (intro ext) (auto simp: installed_sel row_ok_def)
  have sub_files: "a_files ?b n = Some fi \<Longrightarrow> a_files ?a n = Some fi"
    and sub_ptr: "a_ptr ?b x = Some r \<Longrightarrow> a_ptr ?a x = Some r"
    and sub_data: "a_data ?b q = Some y \<Longrightarrow> a_data ?a q = Some y" for n fi x r q y
    by (cases x; auto simp: installed_sel split: if_splits)+
  have kept: "a_data ?b q = a_data ?a q" if "q \<in> refs e ?a" for q
  proof (cases "MIN_BLOCK_SEQ \<le> q")
    case True
    then show ?thesis using I(3) [of "block_data_seq_key q"] that by (auto simp: installed_sel row_ok_def)
  qed (simp add: astore_of_def lookup_at_def)
  have alloc: "allocated ?b = allocated ?a" by (simp add: allocated_def fun_eq_iff next_bs_def meta)
  have good: "blocks_good C ?b (fs_blockseq c) fi"
    if "blocks_good C ?a (fs_blockseq c) fi" "a_files ?a n = Some fi \<or> a_inbox ?a (e, n) = Some fi" for fi n
  proof
    fix b assume b: "b \<in> set (sf_blocks fi)"
    have "s \<in> refs e ?a" if "sb_blockseq b = Some s" for s
      using that b \<open>a_files ?a n = Some fi \<or> a_inbox ?a (e, n) = Some fi\<close> unfolding refs_def by blast
    then show "block_good C ?b (fs_blockseq c) b"
      using that(1) b kept by (fastforce simp: block_good_def alloc)
  qed
  show "blk_inv C ?b (fs_blockseq c)"
  proof (rule blk_invI)
    show "range_inv ?b (fs_blockseq c)" using blk_invD(1) [OF wf(3)] by (simp add: range_inv_def next_bs_def meta)
    show "blocks_good C ?b (fs_blockseq c) fi" if "a_files ?b n = Some fi" for n fi
      using good blk_invD(2) [OF wf(3)] sub_files [OF that] by blast
    show "blocks_good C ?b (fs_blockseq c) fi" if "a_inbox ?b x = Some fi" for x fi
      using good [of fi "snd x"] blk_invD(3) [OF wf(3), of x] that I(2) by (cases x) (auto simp: inboxes only_epoch_def)
  qed (unfold alloc, blast intro: blk_invD(4) [OF wf(3)] sub_ptr, blast intro: blk_invD(5) [OF wf(3)] sub_ptr sub_data,
      blast intro: blk_invD(6) [OF wf(3)] sub_data)
qed

lemma read_block_good:
  assumes "wf_store lib c" "blk_inv C (ast lib c) (fs_blockseq c)" and n: "good_name n" "length h = HASH_LEN"
  shows "read_block map_slate lib n h c =
    (case a_files (ast lib c) n of
       Some fi \<Rightarrow> if readable h fi then Inr (C h) else Inl (NotFound ''block not found'')
     | None \<Rightarrow> Inl (NotFound ''block not found''), c)"
  using file_lookup [OF assms(1) n(1)] blk_invD(2) [OF assms(2), of n]
  by (auto simp: read_block_def run_simps n(2) decoded_def readable_def read_block_loop_good)

lemma get_file_good:
  assumes "wf_store lib c" "good_name n"
  shows "fst (get_file map_slate lib n c) = (case a_files (ast lib c) n of None \<Rightarrow> Inr None
    | Some fi \<Rightarrow> (case b_of_file_info fi of Inl x \<Rightarrow> Inl x | Inr f \<Rightarrow> Inr (Some f)))"
  using file_lookup [OF assms]
  by (auto simp: get_file_def get_file_proto_def run_simps file_of_msg_def rbind_def decoded_def split: sum.splits)

end
