(* ===== verification/StoreExample.thy ===== *)
theory StoreExample
  imports StoreRun
begin

text \<open>
  A concrete run: a store over the computing database with one file staged and its block stored.
  On this database no operation fails, so that it agrees with the reference map exactly.
\<close>

section \<open>The computing database never fails\<close>

named_theorems exact_rules \<open>operations that agree on the computing database and the map\<close>

abbreviation view :: "((bytes, 'v) RBT.rbt, 'b) folder_store \<Rightarrow> (bytes \<rightharpoonup> 'v, 'b) folder_store" where
  "view \<equiv> store_view RBT.lookup"

definition exact ::
  "(((bytes, 'v) RBT.rbt, 'b) folder_store, 'e, 'a) op \<Rightarrow>
   ((bytes \<rightharpoonup> 'v, 'b) folder_store, 'e, 'a) op \<Rightarrow> bool" where
  "exact m f \<longleftrightarrow> (\<forall>s. fst (m s) = fst (f (view s)) \<and> view (snd (m s)) = snd (f (view s)))"

lemma exact_basic [exact_rules]:
  "exact (ok x) (ok x)" "exact (err e) (err e)" "exact (lift_res r) (lift_res r)"
  "(\<And>s. g s = g' (view s)) \<Longrightarrow> exact (get_st g) (get_st g')"
  "(\<And>s. view (l s) = l' (view s)) \<Longrightarrow> exact (mod_st l) (mod_st l')"
  by (simp_all add: exact_def op_simps)

lemma exact_bnd [exact_rules]:
  assumes "exact m f" and "\<And>x. exact (k x) (g x)"
  shows "exact (bnd m k) (bnd f g)"
  unfolding exact_def
proof
  fix s
  obtain r t where m: "m s = (r, t)" by fastforce
  then have "f (view s) = (r, view t)" using assms(1) by (metis exact_def fst_conv snd_conv prod.collapse)
  with m assms(2) show "fst (bnd m k s) = fst (bnd f g (view s)) \<and> view (snd (bnd m k s)) = snd (bnd f g (view s))"
    by (simp add: bnd_def exact_def split: sum.splits)
qed

lemma exact_case [exact_rules]:
  "exact m f \<Longrightarrow> exact n g \<Longrightarrow> exact (if b then m else n) (if b then f else g)"
  "exact m f \<Longrightarrow> (\<And>x. exact (k x) (h x)) \<Longrightarrow>
   exact (case v of None \<Rightarrow> m | Some x \<Rightarrow> k x) (case v of None \<Rightarrow> f | Some x \<Rightarrow> h x)"
  "(\<And>e. exact (l e) (l' e)) \<Longrightarrow> (\<And>x. exact (i x) (j x)) \<Longrightarrow>
   exact (case w of Inl e \<Rightarrow> l e | Inr x \<Rightarrow> i x) (case w of Inl e \<Rightarrow> l' e | Inr x \<Rightarrow> j x)"
  "(\<And>a b. exact (c a b) (d a b)) \<Longrightarrow> exact (case p of (a, b) \<Rightarrow> c a b) (case p of (a, b) \<Rightarrow> d a b)"
  by (simp, cases v, simp_all, cases w, simp_all, cases p, simp_all)

lemma exact_prod_app [exact_rules]:
  "(\<And>a b. exact (k a b acc) (g a b acc)) \<Longrightarrow>
   exact ((case p of (a, b) \<Rightarrow> k a b) acc) ((case p of (a, b) \<Rightarrow> g a b) acc)"
  by (cases p) simp

lemma exact_db [exact_rules]:
  "exact (on_db (db_get rbt_slate k)) (on_db (db_get map_slate k))"
  "exact (on_db (db_write rbt_slate b)) (on_db (db_write map_slate b))"
  "exact (on_db (db_scan_prefix rbt_slate p)) (on_db (db_scan_prefix map_slate p))"
  "exact (on_db (db_scan rbt_slate lo hi)) (on_db (db_scan map_slate lo hi))"
  "exact (on_db (db_flush rbt_slate)) (on_db (db_flush map_slate))"
  by (simp_all add: exact_def on_db_def rbt_slate_def lookup_rbt_ops rbt_entries_of store_view_def
      rbt_entries_of [of "\<lambda>k. lo \<le> k \<and> k < hi"])

lemma exact_for_iter [exact_rules]:
  "(\<And>kv acc. exact (body kv acc) (body' kv acc)) \<Longrightarrow>
   exact (for_iter kvs fin acc body) (for_iter kvs fin acc body')"
  by (induction kvs arbitrary: acc) (auto intro!: exact_rules split: option.splits)

lemma exact_take_reserved [exact_rules]: "exact take_reserved take_reserved"
  by (simp add: exact_def take_reserved_def Let_def store_view_def)

lemma exact_ops [exact_rules]:
  "exact (stage_file rbt_slate lib e f) (stage_file map_slate lib e f)"
  "exact (find_file_entry rbt_slate lib ep n) (find_file_entry map_slate lib ep n)"
  "exact (find_block_dir rbt_slate lib h) (find_block_dir map_slate lib h)"
  "exact (refill rbt_slate lib) (refill map_slate lib)"
  unfolding stage_file_def put_non_durable_def find_file_entry_def find_block_dir_def refill_def
    get_index_meta_def probe_reverse_ref_def Let_def
  by (intro exact_rules; simp add: store_view_upd)+

lemma exact_block_ops [exact_rules]:
  "exact (store_block rbt_slate lib ep n h data) (store_block map_slate lib ep n h data)"
  unfolding store_block_def allocate_def write_non_durable_def
  by (intro exact_rules) (simp add: store_view_upd)

lemma exactD: "exact m f \<Longrightarrow> f (view s) = (r, c) \<Longrightarrow> fst (m s) = r \<and> view (snd (m s)) = c"
  by (simp add: exact_def)

lemma exact_complete_file [exact_rules]:
  "exact (complete_file rbt_slate lib e n ver) (complete_file map_slate lib e n ver)"
  unfolding complete_file_def commit_with_new_seq_def get_file_proto_def get_index_meta_def
    write_non_durable_def Let_def
  by (intro exact_rules)

section \<open>A run\<close>

definition hash0 :: bytes where "hash0 = replicate 32 CHR ''x''"
definition content0 :: "bytes \<Rightarrow> bytes" where "content0 h = ''hello''"
definition name0 :: bytes where "name0 = ''docs/a.txt''"

definition epoch0 :: epoch where
  "epoch0 = \<lparr>epoch_val = 1, epoch_base32 = ''00000001''\<rparr>"

definition file0 :: file_info where
  "file0 = default_file_info\<lparr>fi_name := name0, fi_size := 5,
     fi_blocks := [\<lparr>bi_hash = hash0, bi_offset = 0, bi_size = 5\<rparr>]\<rparr>"

definition store0 :: "((bytes, tagged) RBT.rbt, bloom_item list) folder_store" where
  "store0 = \<lparr>fs_db = RBT.empty, fs_gc = compaction_state_new, fs_blockseq = \<lparr>sr_next = 0, sr_end = 0\<rparr>\<rparr>"

definition "store1 = exec rbt_slate tagged_lib (StageFile epoch0 file0) store0"
definition "store2 = exec rbt_slate tagged_lib (StoreBlock (Some epoch0) name0 hash0 ''hello'') store1"
definition "store3 = exec rbt_slate tagged_lib (CompleteFile epoch0 name0 None) store2"

abbreviation run_of :: "((bytes, tagged) RBT.rbt, bloom_item list) folder_store \<Rightarrow> bool" where
  "run_of \<equiv> store_run rbt_slate tagged_lib RBT.lookup content0"

abbreviation at :: "((bytes, tagged) RBT.rbt, bloom_item list) folder_store \<Rightarrow> astore" where
  "at s \<equiv> astore_of tagged_lib (RBT.lookup (fs_db s))"

lemmas example_laws = rbt_slate_laws tagged_codec

lemma epoch0_wf [simp]: "wf_epoch epoch0"
  by (simp add: wf_epoch_def epoch0_def) code_simp

lemma name0_good [simp]: "good_name name0"
  by code_simp

lemma hash0_length [simp]: "length hash0 = HASH_LEN"
  by (simp add: hash0_def HASH_LEN_def)

lemma file0_sel [simp]: "fi_name file0 = name0" "fi_version file0 = None"
  "fi_blocks file0 = [\<lparr>bi_hash = hash0, bi_offset = 0, bi_size = 5\<rparr>]"
  by (simp_all add: file0_def default_file_info_def)

lemma run0: "run_of store0"
proof (rule store_run.create)
  show "RBT.lookup RBT.empty = (Map.empty :: bytes \<rightharpoonup> tagged)" by simp
  show "folder_store_new rbt_slate tagged_lib RBT.empty compaction_state_new = Inr store0"
    by (simp add: folder_store_new_def seq_allocator_load_def rbt_slate_def store0_def)
qed

lemma counters0: "counters_ok (at store0)"
proof -
  have "at store0 = astore_of tagged_lib Map.empty" by (simp add: store0_def)
  then show ?thesis
    by (simp add: counters_ok_def astore_of_empty default_index_meta_def i64_max_def has_room_def
        next_bs_def MIN_BLOCK_SEQ_def)
qed

lemma run1: "run_of store1"
  unfolding store1_def by (rule store_run.command [OF run0]) (simp_all add: counters0)

lemma at1: "at store1 = (at store0)\<lparr>a_inbox := [(epoch0, name0) \<mapsto> s_of_file_info file0]\<rparr>"
proof -
  note inv = store_run_inv [OF example_laws run0]
  have empty: "a_inbox (at store0) = Map.empty" by (simp add: store0_def astore_of_empty)
  show ?thesis
  proof (rule stage_file_map [OF tagged_codec inv, of file0 epoch0])
    fix c' assume map: "stage_file map_slate tagged_lib epoch0 file0 (view store0) = (Inr (), c')"
      "ast tagged_lib c' = (ast tagged_lib (view store0))\<lparr>a_inbox :=
        (a_inbox (ast tagged_lib (view store0)))((epoch0, fi_name file0) \<mapsto> s_of_file_info file0)\<rparr>"
    have "view store1 = c'"
      using exactD [OF exact_ops(1) map(1)] by (simp add: store1_def exec_def)
    then have "at store1 = ast tagged_lib c'" by (metis store_view_sel(1))
    with map(2) empty show ?thesis by simp
  qed simp_all
qed

lemma counters_cong:
  "a_meta b = a_meta a \<Longrightarrow> counters_ok b = counters_ok a"
  by (simp add: counters_ok_def has_room_def next_bs_def)

lemma counters1: "counters_ok (at store1)"
  using counters_cong [of "at store1" "at store0"] counters0 by (simp add: at1)

lemma run2: "run_of store2"
  unfolding store2_def by (rule store_run.command [OF run1]) (simp_all add: counters1 content0_def)

text \<open>Its block is stored inline: the second write changes the staged entry only.\<close>

definition staged2 :: s_file_info where
  "staged2 = set_pointer hash0 None (Some ''hello'') (s_of_file_info file0)"

lemma at2: "at store2 = (at store0)\<lparr>a_inbox := [(epoch0, name0) \<mapsto> staged2]\<rparr>"
proof -
  let ?c = "view store1" and ?n = name0 and ?lib = tagged_lib
  have wf: "wf_store ?lib ?c" using store_invD(1) [OF store_run_inv [OF example_laws run1]] by simp
  have ent: "entry_for (ast ?lib ?c) (Some epoch0) ?n = Some (s_of_file_info file0, Some epoch0)"
    by (simp add: entry_for_def at1)
  let ?c' = "?c\<lparr>fs_db := apply_op (entry_put ?lib (entry_key (Some epoch0) ?n) True staged2) (fs_db ?c)\<rparr>"
  have "has_hash hash0 (s_of_file_info file0)" by (simp add: has_hash_def)
  then have map: "store_block map_slate ?lib (Some epoch0) ?n hash0 ''hello'' ?c = (Inr (), ?c')"
    using find_file_entry_eval [OF wf name0_good, of "Some epoch0"] ent
    by (simp add: store_block_def run_simps INLINE_BLOCK_THRESHOLD_def write_non_durable_def staged2_def)
  have "view store2 = ?c'"
    using exactD [OF exact_block_ops map] by (simp add: store2_def exec_def)
  then have "at store2 = ast ?lib ?c'" by (metis store_view_sel(1))
  also have "\<dots> = put_entry (Some epoch0) ?n staged2 (at store1)"
    using entry_put_view(1) [OF tagged_codec name0_good, of "Some epoch0" True staged2 "fs_db ?c"] by simp
  finally show ?thesis by (simp add: put_entry_def at1)
qed

lemma counters2: "counters_ok (at store2)"
  using counters_cong [of "at store2" "at store0"] counters0 by (simp add: at2)

lemma run3: "run_of store3"
  unfolding store3_def by (rule store_run.command [OF run2]) (simp_all add: counters2)

lemma at3:
  "a_files (at store3) = [name0 \<mapsto> staged2\<lparr>sf_sequence := 1\<rparr>]" "max_seq (at store3) = 1"
  "next_bs (at store3) = 0"
proof -
  note inv = store_run_inv [OF example_laws run2]
  have start: "a_files (at store0) = Map.empty" "max_seq (at store0) = 0" "next_bs (at store0) = 0"
    by (simp_all add: store0_def astore_of_empty default_index_meta_def next_bs_def)
  have staged: "a_inbox (ast tagged_lib (view store2)) (epoch0, name0) = Some staged2" by (simp add: at2)
  have none: "carried (ast tagged_lib (view store2)) name0 staged2 = staged2"
    by (simp add: carried_def at2 start)
  have "\<not> incomplete staged2" by (simp add: incomplete_def staged2_def set_pointer_def)
  then have ready: "\<not> incomplete (carried (ast tagged_lib (view store2)) name0 staged2)"
    by (subst none)
  have ver: "map_option b_of_vector (sf_version staged2) = None"
    by (simp add: staged2_def)
  have max: "max_seq (ast tagged_lib (view store2)) < i64_max"
    by (simp add: at2 start i64_max_def)
  have "at store3 = a_commit name0 staged2
      ((at store2)\<lparr>a_inbox := (a_inbox (at store2))((epoch0, name0) := None)\<rparr>)"
  proof (rule complete_file_commit [OF tagged_codec inv name0_good epoch0_wf staged ver ready max])
    fix c' assume map: "complete_file map_slate tagged_lib epoch0 name0 None (view store2) =
        (Inr (Some (bep_of ((carried (ast tagged_lib (view store2)) name0 staged2)
          \<lparr>sf_sequence := max_seq (ast tagged_lib (view store2)) + 1\<rparr>))), c')"
      "ast tagged_lib c' = a_commit name0 staged2 ((ast tagged_lib (view store2))\<lparr>a_inbox :=
        (a_inbox (ast tagged_lib (view store2)))((epoch0, name0) := None)\<rparr>)"
    have "view store3 = c'"
      using exactD [OF exact_complete_file map(1)] by (simp add: store3_def exec_def)
    then have "at store3 = ast tagged_lib c'" by (metis store_view_sel(1))
    with map(2) show ?thesis by simp
  qed
  then show "a_files (at store3) = [name0 \<mapsto> staged2\<lparr>sf_sequence := 1\<rparr>]" "max_seq (at store3) = 1"
    "next_bs (at store3) = 0"
    using start by (auto simp: a_commit_def Let_def at2 carried_def next_bs_def)
qed

lemma counters3: "counters_ok (at store3)"
  by (simp add: counters_ok_def at3 has_room_def i64_max_def MIN_BLOCK_SEQ_def)

end
