(* ===== verification/GcExample.thy ===== *)
theory GcExample
  imports GcJob StoreExample
begin

text \<open>
  Two runs of a compaction job beside a store over the computing database.  A block is stored for
  a staged file and is no longer used when the file is staged again without it; the job decides to
  drop it.  In the first run the same block arrives for another file, is stored anew, and the job
  does no harm.  In the second run it arrives a third time, the search finds the old data, and the
  job removes the data of a committed file.
\<close>

section \<open>The files\<close>

definition nameA :: bytes where "nameA = ''d/a''"
definition nameB :: bytes where "nameB = ''z/b''"
definition nameC :: bytes where "nameC = ''c''"

definition big :: bytes where "big = replicate 4096 CHR ''x''"

definition content1 :: "bytes \<Rightarrow> bytes" where "content1 h = big"

definition with_block :: "bytes \<Rightarrow> file_info" where
  "with_block n = default_file_info\<lparr>fi_name := n, fi_size := 4096,
     fi_blocks := [\<lparr>bi_hash = hash0, bi_offset = 0, bi_size = 4096\<rparr>]\<rparr>"

definition without_block :: "bytes \<Rightarrow> file_info" where
  "without_block n = default_file_info\<lparr>fi_name := n\<rparr>"

definition pointed :: "bytes \<Rightarrow> u64 \<Rightarrow> s_file_info" where
  "pointed n q = set_pointer hash0 (Some q) None (s_of_file_info (with_block n))"

lemma names_good [simp]: "good_name nameA" "good_name nameB" "good_name nameC"
  "dirname nameA = ''d''" "dirname nameB = ''z''" "dirname nameC = []"
  by code_simp+

lemma names_ne [simp]: "nameA \<noteq> nameB" "nameB \<noteq> nameA" "nameA \<noteq> nameC" "nameC \<noteq> nameA" "nameB \<noteq> nameC" "nameC \<noteq> nameB"
  by (simp_all add: nameA_def nameB_def nameC_def)

lemma big_separate [simp]: "\<not> int (length big) < INLINE_BLOCK_THRESHOLD"
  by (simp add: big_def INLINE_BLOCK_THRESHOLD_def)

lemma file_sel [simp]: "fi_name (with_block n) = n" "fi_name (without_block n) = n"
  "has_hash hash0 (s_of_file_info (with_block n))"
  "sf_blocks (s_of_file_info (without_block n)) = []"
  by (simp_all add: with_block_def without_block_def default_file_info_def has_hash_def)

section \<open>Before the job\<close>

type_synonym ex_store = "((bytes, tagged) RBT.rbt, bloom_item list) folder_store"

definition "gc1 = exec rbt_slate tagged_lib (StageFile epoch0 (with_block nameA)) store0"
definition "gc2 = exec rbt_slate tagged_lib (StoreBlock (Some epoch0) nameA hash0 big) gc1"
definition "gc3 = exec rbt_slate tagged_lib (StageFile epoch0 (without_block nameA)) gc2"

definition meta1 :: folder_index_meta where
  "meta1 = default_index_meta\<lparr>fm_next_blockseq := Some 1280\<rparr>"

lemma tagged_simps [simp]:
  "enc_file tagged_lib = TFile" "enc_inbox tagged_lib = TInbox" "enc_meta tagged_lib = TMeta"
  "enc_remote tagged_lib = TRemote" "enc_ref tagged_lib = TRef" "raw tagged_lib = TRaw"
  "dec_file tagged_lib (TFile f) = Some f" "dec_inbox tagged_lib (TInbox i) = Some i" "dec_meta tagged_lib (TMeta m) = Some m"
  "dec_ref tagged_lib (TRef r) = Some r" "unraw tagged_lib (TRaw b) = b"
  "bloom_insert tagged_lib x bl = x # bl" "bloom_contains tagged_lib x bl = List.member bl x"
  by (simp_all add: tagged_lib_def)

lemma entries_none: "(\<And>k. V k \<noteq> None \<Longrightarrow> \<not> Q k) \<Longrightarrow> entries_of Q V = []"
proof -
  assume "\<And>k. V k \<noteq> None \<Longrightarrow> \<not> Q k"
  then have none: "{k \<in> dom V. Q k} = {}" by auto
  show ?thesis unfolding entries_of_def none by simp
qed

lemma entries_two:
  assumes "a < b" "V a = Some x" "V b = Some y" "Q a" "Q b" "\<And>k. V k \<noteq> None \<Longrightarrow> Q k \<Longrightarrow> k = a \<or> k = b"
  shows "entries_of Q V = [(a, x), (b, y)]"
proof -
  have two: "{k \<in> dom V. Q k} = {a, b}" using assms by auto
  show ?thesis unfolding entries_of_def two using assms(1-3) less_imp_le [OF assms(1)] by simp
qed

lemma class_prefix:
  "take 2 k \<noteq> BLOCK_REV_PREFIX \<Longrightarrow> \<not> prefix (block_reverse_prefix h) k"
  "take 2 k \<noteq> INBOX_PREFIX \<Longrightarrow> \<not> prefix (inbox_key e n) k"
  by (auto simp: block_reverse_prefix_def keys_by_tail prefix_def tag_defs)

abbreviation inboxA :: "file_info \<Rightarrow> tagged" where
  "inboxA f \<equiv> TInbox \<lparr>inbox_file_info = Some (s_of_file_info f)\<rparr>"

definition cs1 :: "(bytes \<rightharpoonup> tagged, bloom_item list) folder_store" where
  "cs1 = \<lparr>fs_db = [inbox_key epoch0 nameA \<mapsto> inboxA (with_block nameA)],
     fs_gc = compaction_state_new, fs_blockseq = \<lparr>sr_next = 0, sr_end = 0\<rparr>\<rparr>"

definition db2 :: "bytes \<rightharpoonup> tagged" where
  "db2 = [inbox_key epoch0 nameA \<mapsto> inboxA (with_block nameA), IX_KEY \<mapsto> TMeta meta1, block_data_seq_key 1024 \<mapsto> TRaw big,
     block_pointer_key ''d'' hash0 \<mapsto> TRef \<lparr>seqno = 1024\<rparr>, block_reverse_key hash0 nameA \<mapsto> TRaw [],
     inbox_key epoch0 nameA \<mapsto> TInbox \<lparr>inbox_file_info = Some (pointed nameA 1024)\<rparr>]"

lemma view1: "view gc1 = cs1"
proof -
  have "view store0 = \<lparr>fs_db = Map.empty, fs_gc = compaction_state_new, fs_blockseq = \<lparr>sr_next = 0, sr_end = 0\<rparr>\<rparr>"
    by (simp add: store_view_def store0_def)
  then have "stage_file map_slate tagged_lib epoch0 (with_block nameA) (view store0) = (Inr (), cs1)"
    by (simp add: stage_file_def put_non_durable_def run_simps cs1_def)
  from exactD [OF exact_ops(1) this] show ?thesis by (simp add: gc1_def exec_def)
qed

lemma find_none:
  "is_block_safe lib h (fs_gc c) \<longrightarrow> (\<forall>k. fs_db c k \<noteq> None \<longrightarrow> \<not> prefix (block_reverse_prefix h) k) \<Longrightarrow>
   find_block_dir map_slate lib h c = (Inr None, c)"
  using entries_none [of "fs_db c" "prefix (block_reverse_prefix h)"]
  by (cases "is_block_safe lib h (fs_gc c)") (simp_all add: find_block_dir_def run_simps)

lemma gc_run2: "store_block map_slate tagged_lib (Some epoch0) nameA hash0 big cs1 =
  (Inr (), \<lparr>fs_db = db2, fs_gc = compaction_state_new, fs_blockseq = \<lparr>sr_next = 1025, sr_end = 1280\<rparr>\<rparr>)"
proof -
  have f: "find_block_dir map_slate tagged_lib hash0 cs1 = (Inr None, cs1)"
    by (rule find_none) (simp add: cs1_def class_prefix key_tags tag_defs)
  show ?thesis
    unfolding store_block_def using f
    by (simp add: run_simps find_file_entry_def decoded_def Let_def MIN_BLOCK_SEQ_def RESERVATION_N_def default_index_meta_def write_non_durable_def
        apply_batch_def entry_put_def pointed_def meta1_def db2_def record_block_write_def compaction_state_new_def allocate_def take_reserved_def refill_def cs1_def get_index_meta_def put_non_durable_def)
qed

definition db3 :: "bytes \<rightharpoonup> tagged" where
  "db3 = db2(inbox_key epoch0 nameA \<mapsto> inboxA (without_block nameA))"

definition cs3 :: "(bytes \<rightharpoonup> tagged, bloom_item list) folder_store" where
  "cs3 = \<lparr>fs_db = db3, fs_gc = compaction_state_new, fs_blockseq = \<lparr>sr_next = 1025, sr_end = 1280\<rparr>\<rparr>"

lemma view3: "view gc3 = cs3"
proof -
  have v2: "view gc2 = \<lparr>fs_db = db2, fs_gc = compaction_state_new, fs_blockseq = \<lparr>sr_next = 1025, sr_end = 1280\<rparr>\<rparr>"
    using exactD [OF exact_block_ops gc_run2[folded view1]] by (simp add: gc2_def exec_def)
  have "stage_file map_slate tagged_lib epoch0 (without_block nameA) (view gc2) = (Inr (), cs3)"
    by (simp add: v2 stage_file_def put_non_durable_def run_simps cs3_def db3_def)
  from exactD [OF exact_ops(1) this] show ?thesis by (simp add: gc3_def exec_def)
qed

section \<open>The job\<close>

lemma exact_index_blocks: "exact (index_blocks lib job bs) (index_blocks lib job bs)"
  by (induction bs) (auto intro!: exact_rules simp: insert_live_def store_view_upd split: option.split sum.split)

lemma exact_index_live: "exact (index_live rbt_slate lib job e) (index_live map_slate lib job e)"
  unfolding index_live_def index_blocks_under_prefix_def index_entry_def compute_peer_floor_def
  by (intro exact_rules exact_index_blocks)

lemma exact_create_filter:
  "fst (create_compaction_filter rbt_slate lib b e l s) = fst (create_compaction_filter map_slate lib b e l (view s)) \<and>
   view (snd (create_compaction_filter rbt_slate lib b e l s)) = snd (create_compaction_filter map_slate lib b e l (view s))"
proof -
  obtain job g where reg: "register b b (fs_gc s) = (job, g)" by fastforce
  have v: "view (s\<lparr>fs_gc := g\<rparr>) = (view s)\<lparr>fs_gc := g\<rparr>" by (simp add: store_view_upd)
  obtain r t where run: "index_live rbt_slate lib job e (s\<lparr>fs_gc := g\<rparr>) = (r, t)" by fastforce
  have "fst (index_live rbt_slate lib job e (s\<lparr>fs_gc := g\<rparr>)) = fst (index_live map_slate lib job e (view (s\<lparr>fs_gc := g\<rparr>))) \<and>
      view (snd (index_live rbt_slate lib job e (s\<lparr>fs_gc := g\<rparr>))) = snd (index_live map_slate lib job e (view (s\<lparr>fs_gc := g\<rparr>)))"
    using exact_index_live [of lib job e] unfolding exact_def by blast
  then have "index_live map_slate lib job e ((view s)\<lparr>fs_gc := g\<rparr>) = (r, view t)"
    unfolding run v by (simp add: prod_eq_iff)
  with run reg show ?thesis
    by (cases r) (simp_all add: create_compaction_filter_def store_view_upd)
qed

definition job_state :: "bloom_item list \<Rightarrow> bloom_item list \<Rightarrow> bloom_item list compaction_state" where
  "job_state hs qs = \<lparr>jobs = [(1, \<lparr>known_live_hashes = hs, known_live_seqs = qs\<rparr>)], next_job = 2\<rparr>"

definition filter0 :: gc_filter where
  "filter0 = \<lparr>gf_job = 1, gf_epoch = epoch0, gf_peer_floor = None, gf_is_bottom = True, gf_stats = filter_stats_default\<rparr>"

definition cs4 :: "(bytes \<rightharpoonup> tagged, bloom_item list) folder_store" where
  "cs4 = cs3\<lparr>fs_gc := job_state [] []\<rparr>"

lemma db3_keys: "db3 k \<noteq> None \<Longrightarrow> k \<in> {IX_KEY, block_data_seq_key 1024, block_pointer_key ''d'' hash0,
  block_reverse_key hash0 nameA, inbox_key epoch0 nameA}"
  by (auto simp: db3_def db2_def split: if_splits)

lemma create_run: "create_compaction_filter map_slate tagged_lib [] epoch0 True cs3 = (Inr filter0, cs4)"
proof -
  have e: "entries_of (prefix (inbox_key epoch0 [])) db3 = []" "entries_of (prefix FILE_PREFIX) db3 = []"
    "entries_of (prefix DEVICE_PREFIX) db3 = []"
    by (rule entries_none; drule db3_keys; auto simp: inbox_scan_prefix class_prefix key_tags prefix_two tag_defs)+
  have reg: "register [] [] (fs_gc cs3) = (1, job_state [] [])"
    by (simp add: register_def cs3_def compaction_state_new_def job_state_def Let_def)
  show ?thesis
    using e
    by (simp add: create_compaction_filter_def reg index_live_def index_blocks_under_prefix_def run_simps
        compute_peer_floor_def cs4_def filter0_def) (simp add: cs3_def run_simps)
qed

definition P1 :: "(bytes \<times> tagged) set" where
  "P1 = {(block_data_seq_key 1024, TRaw big)}"

lemma row_run: "\<exists>f. gc_filter_row vlen tagged_lib (job_state [] []) \<lparr>re_key = block_data_seq_key 1024, re_value = Value (TRaw big)\<rparr> filter0
  = (Inr Drop, f)"
  by (simp add: row_class data_keys.dec_enc MIN_BLOCK_SEQ_def known_live_seq_contains_def job_state_def filter0_def prune_decision_def)

section \<open>The block arrives again\<close>

definition cs5 :: "(bytes \<rightharpoonup> tagged, bloom_item list) folder_store" where
  "cs5 = cs4\<lparr>fs_db := db3(inbox_key epoch0 nameB \<mapsto> inboxA (with_block nameB))\<rparr>"

definition db6 :: "bytes \<rightharpoonup> tagged" where
  "db6 = db3(inbox_key epoch0 nameB \<mapsto> inboxA (with_block nameB), block_data_seq_key 1025 \<mapsto> TRaw big,
     block_pointer_key ''z'' hash0 \<mapsto> TRef \<lparr>seqno = 1025\<rparr>, block_reverse_key hash0 nameB \<mapsto> TRaw [],
     inbox_key epoch0 nameB \<mapsto> TInbox \<lparr>inbox_file_info = Some (pointed nameB 1025)\<rparr>)"

definition cs6 :: "(bytes \<rightharpoonup> tagged, bloom_item list) folder_store" where
  "cs6 = \<lparr>fs_db = db6, fs_gc = job_state [ItemHash hash0] [ItemSeq 1025],
     fs_blockseq = \<lparr>sr_next = 1026, sr_end = 1280\<rparr>\<rparr>"

lemmas run_defs = run_simps find_file_entry_def decoded_def Let_def MIN_BLOCK_SEQ_def write_non_durable_def
  put_non_durable_def apply_batch_def entry_put_def pointed_def record_block_write_def

lemma db3_sel [simp]: "db3 (inbox_key epoch0 nameA) = Some (inboxA (without_block nameA))"
  "db3 (inbox_key epoch0 nameB) = None" "db3 (inbox_key epoch0 nameC) = None" "db3 (file_key n) = None"
  "db3 IX_KEY = Some (TMeta meta1)"
  by (simp_all add: db3_def db2_def inbox_key_eq)

lemma run5: "stage_file map_slate tagged_lib epoch0 (with_block nameB) cs4 = (Inr (), cs5)"
  by (simp add: stage_file_def run_defs cs4_def cs3_def cs5_def)

lemma run6: "store_block map_slate tagged_lib (Some epoch0) nameB hash0 big cs5 = (Inr (), cs6)"
proof -
  have f: "find_block_dir map_slate tagged_lib hash0 cs5 = (Inr None, cs5)"
    by (rule find_none) (simp add: cs5_def cs4_def job_state_def is_block_safe_def)
  show ?thesis
    unfolding store_block_def using f
    by (simp add: run_defs allocate_def take_reserved_def cs5_def cs4_def cs3_def cs6_def db6_def job_state_def)
qed

definition cs7 :: "(bytes \<rightharpoonup> tagged, bloom_item list) folder_store" where
  "cs7 = cs6\<lparr>fs_db := db6(inbox_key epoch0 nameC \<mapsto> inboxA (with_block nameC))\<rparr>"

definition db8 :: "bytes \<rightharpoonup> tagged" where
  "db8 = db6(inbox_key epoch0 nameC \<mapsto> inboxA (with_block nameC), block_pointer_key [] hash0 \<mapsto> TRef \<lparr>seqno = 1024\<rparr>,
     block_reverse_key hash0 nameC \<mapsto> TRaw [],
     inbox_key epoch0 nameC \<mapsto> TInbox \<lparr>inbox_file_info = Some (pointed nameC 1024)\<rparr>)"

definition cs8 :: "(bytes \<rightharpoonup> tagged, bloom_item list) folder_store" where
  "cs8 = \<lparr>fs_db = db8, fs_gc = job_state [ItemHash hash0, ItemHash hash0] [ItemSeq 1024, ItemSeq 1025],
     fs_blockseq = \<lparr>sr_next = 1026, sr_end = 1280\<rparr>\<rparr>"

lemma run7: "stage_file map_slate tagged_lib epoch0 (with_block nameC) cs6 = (Inr (), cs7)"
  by (simp add: stage_file_def run_defs cs6_def cs7_def)

lemma keys_order: "block_reverse_key hash0 nameA < block_reverse_key hash0 nameB"
  by code_simp

lemma db6_rev: "entries_of (prefix (block_reverse_prefix hash0)) (db6(inbox_key epoch0 nameC \<mapsto> inboxA (with_block nameC))) =
  [(block_reverse_key hash0 nameA, TRaw []), (block_reverse_key hash0 nameB, TRaw [])]"
proof (rule entries_two [OF keys_order])
  fix k assume "(db6(inbox_key epoch0 nameC \<mapsto> inboxA (with_block nameC))) k \<noteq> None" "prefix (block_reverse_prefix hash0) k"
  then show "k = block_reverse_key hash0 nameA \<or> k = block_reverse_key hash0 nameB"
    using db3_keys [of k] by (auto simp: db6_def class_prefix key_tags tag_defs split: if_splits)
qed (auto simp: db6_def db3_def db2_def reverse_prefix_iff reverse_key_eq)

lemma pointers_ne: "block_pointer_key ''d'' hash0 \<noteq> block_pointer_key ''z'' hash0"
  by (simp add: block_pointer_key_def)

lemma find7: "find_block_dir map_slate tagged_lib hash0 cs7 = (Inr (Some (''d'', \<lparr>seqno = 1024\<rparr>)), cs7)"
proof -
  have sel: "fs_db cs7 (block_pointer_key ''d'' hash0) = Some (TRef \<lparr>seqno = 1024\<rparr>)"
    "fs_db cs7 (block_data_seq_key 1024) = Some (TRaw big)"
    by (simp_all add: cs7_def cs6_def db6_def db3_def db2_def pointer_key_eq data_key_eq MIN_BLOCK_SEQ_def pointers_ne)
  have safe: "is_block_safe tagged_lib hash0 (fs_gc cs7)" by (simp add: cs7_def cs6_def job_state_def is_block_safe_def)
  have ent: "entries_of (prefix (block_reverse_prefix hash0)) (fs_db cs7) =
      [(block_reverse_key hash0 nameA, TRaw []), (block_reverse_key hash0 nameB, TRaw [])]"
    using db6_rev by (simp add: cs7_def)
  show ?thesis
    by (simp add: find_block_dir_def run_simps safe ent probe_reverse_ref_def parse_block_reverse_key_enc sel decoded_def
        validate_block_seq_def MIN_BLOCK_SEQ_def)
qed

lemma run8: "store_block map_slate tagged_lib (Some epoch0) nameC hash0 big cs7 = (Inr (), cs8)"
  unfolding store_block_def using find7
  by (simp add: run_defs cs7_def cs6_def cs8_def db8_def job_state_def)

section \<open>The files are committed\<close>

definition committed :: "bytes \<Rightarrow> u64 \<Rightarrow> s_file_info" where
  "committed n q = (pointed n q)\<lparr>sf_sequence := 1\<rparr>"

definition commits :: "bytes \<Rightarrow> u64 \<Rightarrow> (bytes \<rightharpoonup> tagged) \<Rightarrow> (bytes \<rightharpoonup> tagged)" where
  "commits n q V = V(inbox_key epoch0 n := None, IX_KEY \<mapsto> TMeta (meta1\<lparr>fm_max_sequence := 1\<rparr>),
     file_key n \<mapsto> TFile \<lparr>file_file_info = Some (committed n q)\<rparr>, seqk 1 \<mapsto> TRaw n)"

lemma complete_run:
  assumes "fs_db c (inbox_key epoch0 n) = Some (TInbox \<lparr>inbox_file_info = Some (pointed n q)\<rparr>)"
    "fs_db c (file_key n) = None" "fs_db c IX_KEY = Some (TMeta meta1)" "b_of_file_info (committed n q) = Inr x"
  shows "complete_file map_slate tagged_lib epoch0 n None c = (Inr (Some x), c\<lparr>fs_db := commits n q (fs_db c)\<rparr>)"
proof -
  have "sf_version (pointed n q) = None" "\<not> list_ex (\<lambda>b. sb_inline_data b = None \<and> sb_blockseq b = None) (sf_blocks (pointed n q))"
    by (simp_all add: pointed_def with_block_def default_file_info_def set_pointer_def s_of_file_info_def)
  moreover have "fm_max_sequence meta1 = 0" by (simp add: meta1_def default_index_meta_def)
  ultimately show ?thesis
    using assms seq_key_seqk [of 1]
    by (simp add: complete_file_def commit_with_new_seq_def get_file_proto_def get_index_meta_def run_simps decoded_def rbind_def
        write_non_durable_def apply_batch_def commits_def committed_def in_seq_def i64_max_def i64_wrap_def Let_def)
qed

lemma type_ok: "storage_type_to_bep (bep_type_to_storage 0) = Inr 0"
  by code_simp

lemma committed_ok: "\<exists>x. b_of_file_info (committed n q) = Inr x"
  using type_ok
  by (auto simp: rbind_def committed_def pointed_def with_block_def default_file_info_def set_pointer_def s_of_file_info_def b_of_file_info_def)

section \<open>The runs\<close>

lemma exact_snd: "exact m f \<Longrightarrow> view (snd (m s)) = snd (f (view s))"
  by (simp add: exact_def)

lemma exec_exact:
  "view (exec rbt_slate lib (StageFile e f) s) = exec map_slate lib (StageFile e f) (view s)"
  "view (exec rbt_slate lib (StoreBlock ep n h data) s) = exec map_slate lib (StoreBlock ep n h data) (view s)"
  "view (exec rbt_slate lib (CompleteFile e n ver) s) = exec map_slate lib (CompleteFile e n ver) (view s)"
  by (simp_all add: exec_def exact_snd [OF exact_ops(1)] exact_snd [OF exact_block_ops] exact_snd [OF exact_complete_file])

lemma counters_of: "fs_db c IX_KEY = Some (TMeta meta1) \<Longrightarrow> counters_ok (ast tagged_lib c)"
  by (simp add: counters_ok_def has_room_def next_bs_def astore_of_def meta1_def default_index_meta_def i64_max_def MIN_BLOCK_SEQ_def)

abbreviation ex_job where
  "ex_job vlen R \<equiv> gc_job rbt_slate tagged_lib vlen RBT.lookup content1 [] epoch0 R gc3"

lemma job_step:
  assumes "ex_job vlen R s f P" "view s = c" "cmd_ok content1 cmd" "cmd_at epoch0 cmd" "R cmd c P"
    and "fs_db c IX_KEY = Some (TMeta meta1)" "exec map_slate tagged_lib cmd c = c'"
    and "view (exec rbt_slate tagged_lib cmd s) = exec map_slate tagged_lib cmd (view s)"
  shows "\<exists>s. ex_job vlen R s f P \<and> view s = c'"
proof (intro exI conjI)
  show "ex_job vlen R (exec rbt_slate tagged_lib cmd s) f P"
    by (rule gc_job.command [OF assms(1,3,4)]) (use assms counters_of [OF assms(6)] in simp_all)
qed (use assms in simp)

lemma meta_sel [simp]:
  "fs_db cs4 IX_KEY = Some (TMeta meta1)" "fs_db cs5 IX_KEY = Some (TMeta meta1)"
  "fs_db cs6 IX_KEY = Some (TMeta meta1)" "fs_db cs7 IX_KEY = Some (TMeta meta1)" "fs_db cs8 IX_KEY = Some (TMeta meta1)"
  by (simp_all add: cs4_def cs3_def cs5_def cs6_def db6_def cs7_def cs8_def db8_def)

lemma job_decided: "\<exists>s f. ex_job vlen R s f P1 \<and> view s = cs4"
proof -
  obtain s where s: "create_compaction_filter rbt_slate tagged_lib [] epoch0 True gc3 = (Inr filter0, s)" "view s = cs4"
    using exact_create_filter [of tagged_lib "[]" epoch0 True gc3] create_run
    by (cases "create_compaction_filter rbt_slate tagged_lib [] epoch0 True gc3") (auto simp: view3)
  obtain f where f: "gc_filter_row vlen tagged_lib (job_state [] [])
      \<lparr>re_key = block_data_seq_key 1024, re_value = Value (TRaw big)\<rparr> filter0 = (Inr Drop, f)"
    using row_run by blast
  have "RBT.lookup (fs_db s) (block_data_seq_key 1024) = Some (TRaw big)" "fs_gc s = job_state [] []"
    using arg_cong [OF s(2), of fs_db] arg_cong [OF s(2), of fs_gc] by (simp_all add: cs4_def cs3_def db3_def db2_def)
  then have "ex_job vlen R s f (if Drop = Keep then {} else insert (block_data_seq_key 1024, TRaw big) {})"
    by (intro gc_job.row [where A = RBT.lookup, OF gc_job.start [OF s(1)]]) (simp_all add: f)
  with s(2) show ?thesis unfolding P1_def by auto
qed

lemma job_fresh:
  assumes "\<And>c P. R (StageFile epoch0 (with_block nameB)) c P" "R (StoreBlock (Some epoch0) nameB hash0 big) cs5 P1"
  shows "\<exists>s f. ex_job vlen R s f P1 \<and> view s = cs6"
proof -
  obtain s f where s: "ex_job vlen R s f P1" "view s = cs4" using job_decided by blast
  then obtain s where s: "ex_job vlen R s f P1" "view s = cs5"
    using job_step [OF s _ _ assms(1) _ _ exec_exact(1)] run5 by (auto simp: exec_def)
  have "\<exists>s. ex_job vlen R s f P1 \<and> view s = cs6"
    by (rule job_step [OF s _ _ assms(2) _ _ exec_exact(2)]) (simp_all add: exec_def run6 content1_def)
  then show ?thesis by blast
qed

lemma job_harmless: "\<exists>s f. ex_job vlen (unspoilt tagged_lib) s f P1 \<and> view s = cs6\<lparr>fs_db := commits nameB 1025 db6\<rparr>"
proof -
  have stage: "unspoilt tagged_lib (StageFile epoch0 (with_block nameB)) c P" for c P
    by (simp add: unspoilt_def shared_copy_def)
  have "stored_copy tagged_lib cs5 hash0 = None"
    by (simp add: stored_copy_def cs5_def cs4_def job_state_def is_block_safe_def)
  then have "unspoilt tagged_lib (StoreBlock (Some epoch0) nameB hash0 big) cs5 P1"
    by (simp add: unspoilt_def shared_copy_def)
  from job_fresh [where R = "unspoilt tagged_lib", OF stage this]
  obtain s f where s: "ex_job vlen (unspoilt tagged_lib) s f P1" "view s = cs6" by blast
  obtain x where "b_of_file_info (committed nameB 1025) = Inr x" using committed_ok by blast
  then have "exec map_slate tagged_lib (CompleteFile epoch0 nameB None) cs6 = cs6\<lparr>fs_db := commits nameB 1025 db6\<rparr>"
    using complete_run [of cs6 nameB 1025 x] by (simp add: exec_def cs6_def db6_def)
  from job_step [OF s _ _ _ _ this exec_exact(3)] show ?thesis
    by (auto simp: unspoilt_def shared_copy_def)
qed

lemma job_harmful: "\<exists>s f. ex_job vlen (\<lambda>_ _ _. True) s f P1 \<and> view s = cs8\<lparr>fs_db := commits nameC 1024 db8\<rparr>"
proof -
  let ?R = "\<lambda>_ _ _. True"
  obtain s f where s: "ex_job vlen ?R s f P1" "view s = cs6" using job_fresh [where R = ?R] by blast
  have "\<exists>s. ex_job vlen ?R s f P1 \<and> view s = cs7"
    by (rule job_step [where cmd = "StageFile epoch0 (with_block nameC)", OF s _ _ _ _ _ exec_exact(1)])
      (simp_all add: exec_def run7)
  then obtain s where s: "ex_job vlen ?R s f P1" "view s = cs7" by blast
  have "\<exists>s. ex_job vlen ?R s f P1 \<and> view s = cs8"
    by (rule job_step [where cmd = "StoreBlock (Some epoch0) nameC hash0 big", OF s _ _ _ _ _ exec_exact(2)])
      (simp_all add: exec_def run8 content1_def)
  then obtain s where s: "ex_job vlen ?R s f P1" "view s = cs8" by blast
  obtain x where "b_of_file_info (committed nameC 1024) = Inr x" using committed_ok by blast
  then have "exec map_slate tagged_lib (CompleteFile epoch0 nameC None) cs8 = cs8\<lparr>fs_db := commits nameC 1024 db8\<rparr>"
    using complete_run [of cs8 nameC 1024 x] by (simp add: exec_def cs8_def db8_def db6_def)
  from job_step [OF s _ _ _ _ this exec_exact(3)] show ?thesis by auto
qed

lemma read_committed:
  assumes "fs_db c (file_key n) = Some (TFile \<lparr>file_file_info = Some (committed n q)\<rparr>)" "MIN_BLOCK_SEQ \<le> q"
  shows "fst (read_block map_slate tagged_lib n hash0 c) = (case fs_db c (block_data_seq_key q) of
     Some v \<Rightarrow> Inr (unraw tagged_lib v) | None \<Rightarrow> Inl (NotFound ''block not found''))"
proof -
  have "sf_blocks (committed n q) = [(s_of_block_info \<lparr>bi_hash = hash0, bi_offset = 0, bi_size = 4096\<rparr>)\<lparr>sb_blockseq := Some q, sb_inline_data := None\<rparr>]"
    by (simp add: committed_def pointed_def with_block_def set_pointer_def s_of_file_info_def s_of_block_info_def)
  then show ?thesis
    using assms
    by (simp add: read_block_def run_simps decoded_def resolve_block_data_def validate_block_seq_def
        s_of_block_info_def leD split: option.split)
qed

lemma gc3_run: "store_run rbt_slate tagged_lib RBT.lookup content1 gc3"
proof -
  have s0: "store_run rbt_slate tagged_lib RBT.lookup content1 store0"
    by (rule store_run.create [where d = RBT.empty and gc = compaction_state_new])
      (simp_all add: folder_store_new_def seq_allocator_load_def rbt_slate_def store0_def)
  have s1: "store_run rbt_slate tagged_lib RBT.lookup content1 gc1"
    unfolding gc1_def by (rule store_run.command [OF s0]) (use counters0 in simp_all)
  have "counters_ok (ast tagged_lib (view gc1))"
    unfolding view1
    by (simp add: cs1_def counters_ok_def has_room_def next_bs_def astore_of_def default_index_meta_def i64_max_def MIN_BLOCK_SEQ_def)
  then have s2: "store_run rbt_slate tagged_lib RBT.lookup content1 gc2"
    unfolding gc2_def by (rule store_run.command [OF s1, rotated]) (simp add: content1_def)
  have v2: "fs_db (view gc2) IX_KEY = Some (TMeta meta1)"
    using exactD [OF exact_block_ops gc_run2[folded view1]] by (simp add: gc2_def exec_def db2_def)
  show ?thesis
    unfolding gc3_def by (rule store_run.command [OF s2 _ counters_of [OF v2]]) simp
qed

lemma inbox3: "a_inbox (ast tagged_lib (view gc3)) (e, n) = Some fi \<Longrightarrow>
  e = epoch0 \<and> fi = s_of_file_info (without_block nameA)"
proof -
  assume a: "a_inbox (ast tagged_lib (view gc3)) (e, n) = Some fi"
  then obtain v where v: "ok_inbox (e, n)" "db3 (inbox_key e n) = Some v" "inbox_val tagged_lib v = Some fi"
    by (auto simp: view3 cs3_def astore_of_def lookup_at_def bind_eq_Some_conv split: if_splits)
  then have "inbox_key e n = inbox_key epoch0 nameA" using db3_keys [of "inbox_key e n"] by auto
  then have "e = epoch0" "n = nameA" using v(1) by (auto simp: ok_inbox_def inbox_key_eq)
  with v show ?thesis by (auto simp: inbox_val_def)
qed

lemma gc3_ready: "inbox_scanned epoch0 (ast tagged_lib (view gc3))" "only_epoch epoch0 (ast tagged_lib (view gc3))"
  unfolding inbox_scanned_def only_epoch_def using inbox3 by fastforce+

end
