(* ===== verification/GcProps.thy ===== *)
theory GcProps
  imports GcExample
begin

text \<open>
  Garbage collection beside a running store: what a job preserves, and the run in which it does not.
\<close>



text \<open>
  C28. The check that protects shared blocks looks at hashes, the filter at sequence numbers, and a
  file can lose its data between the two.  There is a run of a store from its creation and of one
  job beside it in which every command succeeds: the job decides to drop the unused data of a
  hash, the same block is stored anew for a file, which makes the hash live, and then arrives for
  a third file, for which the search finds the dropped data and shares it.  That file is
  committed, its block can be read, and when the job ends the block is gone.
\<close>

theorem gc_job_race:
  "\<exists>s f P. store_run rbt_slate tagged_lib RBT.lookup content1 gc3 \<and>
     gc_job rbt_slate tagged_lib vlen RBT.lookup content1 [] epoch0 (\<lambda>_ _ _. True) gc3 s f P \<and>
     fst (read_block map_slate tagged_lib nameC hash0 (view s)) = Inr big \<and>
     fst (read_block map_slate tagged_lib nameC hash0 (install P (view s))) = Inl (NotFound ''block not found'')"
proof -
  obtain s f where s: "ex_job vlen (\<lambda>_ _ _. True) s f P1" "view s = cs8\<lparr>fs_db := commits nameC 1024 db8\<rparr>"
    using job_harmful by blast
  let ?file = "TFile \<lparr>file_file_info = Some (committed nameC 1024)\<rparr>"
  have row: "fs_db (view s) (file_key nameC) = Some ?file" "fs_db (view s) (block_data_seq_key 1024) = Some (TRaw big)"
    by (simp_all add: s(2) commits_def db8_def db6_def db3_def db2_def data_key_eq MIN_BLOCK_SEQ_def)
  have inst: "fs_db (install P1 (view s)) (file_key nameC) = Some ?file"
    "fs_db (install P1 (view s)) (block_data_seq_key 1024) = None"
    using row by (simp_all add: install_def removed_def P1_def)
  have "fst (read_block map_slate tagged_lib nameC hash0 (view s)) = Inr big"
    "fst (read_block map_slate tagged_lib nameC hash0 (install P1 (view s))) = Inl (NotFound ''block not found'')"
    using read_committed [OF row(1)] read_committed [OF inst(1)] row(2) inst(2) by (simp_all add: MIN_BLOCK_SEQ_def)
  with s(1) gc3_run show ?thesis by blast
qed

end
