(* ===== verification/DeviceId.thy ===== *)
theory DeviceId
  imports Prelude
begin

text \<open>
  Device identifiers: \<open>bepository-bep/src/device_id.rs\<close>.  An identifier is the 32 bytes of a hash;
  its text is the Base32 digits of the bytes in four groups of thirteen, each with a Luhn check
  character, in chunks of seven separated by hyphens.  The 64-bit accumulators of both directions
  are words; the \<open>expect\<close> of the printer is an error value that is proved not to occur.
\<close>

unbundle bit_operations_syntax

section \<open>Characters\<close>

definition DEVICE_ALPHABET :: bytes where
  "DEVICE_ALPHABET = ''ABCDEFGHIJKLMNOPQRSTUVWXYZ234567''"

datatype device_id_error = InvalidLength nat | InvalidCharacter char | InvalidCheckDigit

definition decode_char :: "char \<Rightarrow> nat option" where
  "decode_char c =
     (if byte CHR ''A'' \<le> byte c \<and> byte c \<le> byte CHR ''Z'' then Some (byte c - byte CHR ''A'')
      else if byte CHR ''a'' \<le> byte c \<and> byte c \<le> byte CHR ''z'' then Some (byte c - byte CHR ''a'')
      else if byte CHR ''2'' \<le> byte c \<and> byte c \<le> byte CHR ''7'' then Some (byte c - byte CHR ''2'' + 26)
      else None)"

definition to_ascii_uppercase :: "char \<Rightarrow> char" where
  "to_ascii_uppercase c =
     (if byte CHR ''a'' \<le> byte c \<and> byte c \<le> byte CHR ''z'' then char_of (byte c - 32) else c)"

text \<open>The check character of a group: the weights \<open>1, 2, 1, 2, \<dots>\<close> start at \<open>f\<close>.\<close>

fun luhn_sum :: "nat \<Rightarrow> bytes \<Rightarrow> nat \<Rightarrow> device_id_error + nat" where
  "luhn_sum f [] acc = Inr acc"
| "luhn_sum f (ch # chs) acc =
     (case decode_char ch of
        None \<Rightarrow> Inl (InvalidCharacter ch)
      | Some val \<Rightarrow> let a = f * val in luhn_sum (3 - f) chs (acc + (a div 32 + a mod 32)))"

definition luhn_check :: "bytes \<Rightarrow> device_id_error + char" where
  "luhn_check chs =
     rbind (luhn_sum 1 chs 0) (\<lambda>acc. Inr (DEVICE_ALPHABET ! ((32 - acc mod 32) mod 32)))"

section \<open>Printing\<close>

text \<open>The digits that are complete in the accumulator, and the number of bits left.\<close>

function emit_digits :: "u64 \<Rightarrow> nat \<Rightarrow> bytes \<times> nat" where
  "emit_digits buffer bits =
     (if 5 \<le> bits
      then (case emit_digits buffer (bits - 5) of
              (cs, rest) \<Rightarrow> (DEVICE_ALPHABET ! unat (drop_bit (bits - 5) buffer AND 0x1F) # cs, rest))
      else ([], bits))"
  by pat_completeness auto
termination by (relation "measure snd") auto

fun encode_bytes :: "bytes \<Rightarrow> u64 \<Rightarrow> nat \<Rightarrow> bytes" where
  "encode_bytes [] buffer bits =
     (if 0 < bits then [DEVICE_ALPHABET ! unat (push_bit (5 - bits) buffer AND 0x1F)] else [])"
| "encode_bytes (b # bs) buffer bits =
     (let buffer = push_bit 8 buffer OR of_nat (byte b)
      in case emit_digits buffer (bits + 8) of (cs, bits) \<Rightarrow> cs @ encode_bytes bs buffer bits)"

definition group_of :: "nat \<Rightarrow> nat \<Rightarrow> 'a list \<Rightarrow> 'a list" where
  "group_of n i xs = take n (drop (i * n) xs)"

fun luhnify :: "nat list \<Rightarrow> bytes \<Rightarrow> device_id_error + bytes" where
  "luhnify [] base32 = Inr []"
| "luhnify (i # is) base32 =
     rbind (luhn_check (group_of 13 i base32)) (\<lambda>c.
     rbind (luhnify is base32) (\<lambda>rest. Inr (group_of 13 i base32 @ [c] @ rest)))"

function chunkify :: "bytes \<Rightarrow> bytes" where
  "chunkify cs =
     (if length cs \<le> 7 then cs else take 7 cs @ ''-'' @ chunkify (drop 7 cs))"
  by pat_completeness auto
termination by (relation "measure length") auto

definition device_id_display :: "bytes \<Rightarrow> device_id_error + bytes" where
  "device_id_display dev =
     rbind (luhnify [0..<4] (encode_bytes dev 0 0)) (\<lambda>luhnified. Inr (chunkify luhnified))"

section \<open>Parsing\<close>

function emit_bytes :: "u64 \<Rightarrow> nat \<Rightarrow> bytes \<times> nat" where
  "emit_bytes buffer bits =
     (if 8 \<le> bits
      then (case emit_bytes buffer (bits - 8) of
              (bs, rest) \<Rightarrow> (char_of (unat (drop_bit (bits - 8) buffer AND 0xFF)) # bs, rest))
      else ([], bits))"
  by pat_completeness auto
termination by (relation "measure snd") auto

text \<open>The bytes a group adds to those before it; at most 32 are kept.\<close>

fun decode_group :: "bytes \<Rightarrow> bytes \<times> u64 \<times> nat \<Rightarrow> device_id_error + (bytes \<times> u64 \<times> nat)" where
  "decode_group [] st = Inr st"
| "decode_group (c # cs) (out, buffer, bits) =
     (case decode_char c of
        None \<Rightarrow> Inl (InvalidCharacter c)
      | Some val \<Rightarrow>
          let buffer = push_bit 5 buffer OR of_nat val
          in case emit_bytes buffer (bits + 5) of
               (bs, bits) \<Rightarrow> decode_group cs (take 32 (out @ bs), buffer, bits))"

fun decode_groups :: "nat list \<Rightarrow> bytes \<Rightarrow> bytes \<times> u64 \<times> nat \<Rightarrow> device_id_error + (bytes \<times> u64 \<times> nat)" where
  "decode_groups [] clean st = Inr st"
| "decode_groups (i # is) clean st =
     (let chunk = group_of 14 i clean; grp = take 13 chunk; expected_check = chunk ! 13
      in rbind (luhn_check grp) (\<lambda>c.
         if c \<noteq> expected_check then Inl InvalidCheckDigit
         else rbind (decode_group grp st) (decode_groups is clean)))"

definition device_id_from_str :: "bytes \<Rightarrow> device_id_error + bytes" where
  "device_id_from_str s =
     (let clean = map to_ascii_uppercase (filter (\<lambda>b. b \<noteq> CHR ''-'') s)
      in if length clean \<noteq> 56 then Inl (InvalidLength (length clean))
         else rbind (decode_groups [0..<4] clean ([], 0, 0)) (\<lambda>(out, _).
              Inr (out @ replicate (32 - length out) (char_of (0::nat)))))"

definition device_id_parse :: "bytes \<Rightarrow> bytes option" where
  "device_id_parse s = (case device_id_from_str s of Inl _ \<Rightarrow> None | Inr dev \<Rightarrow> Some dev)"

declare emit_digits.simps [simp del] emit_bytes.simps [simp del] chunkify.simps [simp del]

section \<open>Bit strings\<close>

text \<open>The low bits of a word, the highest first.\<close>

definition low_bits :: "nat \<Rightarrow> u64 \<Rightarrow> bool list" where
  "low_bits n w = map (bit w) (rev [0..<n])"

lemma length_low_bits [simp]: "length (low_bits n w) = n"
  by (simp add: low_bits_def)

lemma nth_low_bits: "i < n \<Longrightarrow> low_bits n w ! i = bit w (n - Suc i)"
  by (simp add: low_bits_def rev_nth)

lemma low_bits_append:
  assumes "m + k \<le> 64" "take_bit k x = x"
  shows "low_bits (m + k) (push_bit k w OR x) = low_bits m w @ low_bits k x"
proof (rule nth_equalityI)
  fix i assume i: "i < length (low_bits (m + k) (push_bit k w OR x))"
  have hi: "\<not> bit x j" if "k \<le> j" for j
    using that assms(2) by (metis bit_take_bit_iff not_le)
  show "low_bits (m + k) (push_bit k w OR x) ! i = (low_bits m w @ low_bits k x) ! i"
  proof (cases "i < m")
    case True
    then show ?thesis
      using i assms(1) hi [of "m + k - Suc i"]
      by (auto simp: nth_low_bits nth_append bit_or_iff bit_push_bit_iff)
  next
    case False
    then show ?thesis
      using i assms(1) by (auto simp: nth_low_bits nth_append bit_or_iff bit_push_bit_iff add.commute)
  qed
qed simp

lemma low_bits_split:
  assumes "k \<le> n"
  shows "low_bits n w = low_bits k (drop_bit (n - k) w) @ low_bits (n - k) w"
  using assms by (intro nth_equalityI) (auto simp: nth_low_bits nth_append bit_drop_bit_eq)

lemma low_bits_push: "m + k \<le> 64 \<Longrightarrow> low_bits (m + k) (push_bit k w) = low_bits m w @ replicate k False"
  by (intro nth_equalityI) (auto simp: nth_low_bits nth_append bit_push_bit_iff)

lemma low_bits_cong:
  assumes "take_bit k x = take_bit k y"
  shows "low_bits k x = low_bits k y"
proof (rule nth_equalityI)
  fix i assume i: "i < length (low_bits k x)"
  have "bit (take_bit k x) (k - Suc i) = bit (take_bit k y) (k - Suc i)" by (simp add: assms)
  then show "low_bits k x ! i = low_bits k y ! i" using i by (simp add: nth_low_bits bit_take_bit_iff)
qed simp

lemma low_bits_inj: "low_bits k x = low_bits k y \<Longrightarrow> take_bit k x = take_bit k y"
proof (rule bit_eqI)
  fix j assume eq: "low_bits k x = low_bits k y"
  have "bit x j = bit y j" if "j < k"
    using arg_cong [OF eq, of "\<lambda>l. l ! (k - Suc j)"] that by (simp add: nth_low_bits)
  then show "bit (take_bit k x) j \<longleftrightarrow> bit (take_bit k y) j" by (auto simp: bit_take_bit_iff)
qed

section \<open>Characters as bit strings\<close>

definition char_bits :: "char \<Rightarrow> bool list" where
  "char_bits c = low_bits 5 (of_nat (case decode_char c of Some v \<Rightarrow> v | None \<Rightarrow> 0))"

definition byte_bits :: "char \<Rightarrow> bool list" where
  "byte_bits c = low_bits 8 (of_nat (byte c))"

lemma length_bits [simp]: "length (char_bits c) = 5" "length (byte_bits c) = 8"
  by (simp_all add: char_bits_def byte_bits_def)

lemma alphabet_all: "list_all (\<lambda>i. decode_char (DEVICE_ALPHABET ! i) = Some i \<and> DEVICE_ALPHABET ! i \<noteq> CHR ''-'' \<and>
  to_ascii_uppercase (DEVICE_ALPHABET ! i) = DEVICE_ALPHABET ! i) [0..<32]"
  by (simp add: DEVICE_ALPHABET_def decode_char_def to_ascii_uppercase_def byte_def upt_rec)

lemma alphabet:
  assumes "i < 32"
  shows "decode_char (DEVICE_ALPHABET ! i) = Some i" "DEVICE_ALPHABET ! i \<noteq> CHR ''-''"
    "to_ascii_uppercase (DEVICE_ALPHABET ! i) = DEVICE_ALPHABET ! i"
  using alphabet_all assms by (simp_all add: list_all_iff)

lemma length_alphabet: "length DEVICE_ALPHABET = 32"
  by (simp add: DEVICE_ALPHABET_def)

text \<open>A digit of the accumulator.\<close>

lemma mask_5: "w AND 0x1F = take_bit 5 (w :: u64)"
  by (simp add: take_bit_eq_mask mask_eq_exp_minus_1)

lemma mask_8: "w AND 0xFF = take_bit 8 (w :: u64)"
  by (simp add: take_bit_eq_mask mask_eq_exp_minus_1)

lemma unat_take_bit: "unat (take_bit n (w :: u64)) < 2 ^ n"
  by (simp add: unsigned_take_bit_eq)

lemma digit_bits:
  assumes "c = DEVICE_ALPHABET ! unat (w AND 0x1F)"
  shows "char_bits c = low_bits 5 w" "c \<in> set DEVICE_ALPHABET"
proof -
  have lt: "unat (w AND 0x1F) < 32" using unat_take_bit [of 5 w] by (simp add: mask_5)
  then show "c \<in> set DEVICE_ALPHABET" using assms by (simp add: length_alphabet)
  show "char_bits c = low_bits 5 w"
    using alphabet(1) [OF lt] by (simp add: assms char_bits_def) (intro low_bits_cong, simp add: mask_5)
qed

lemma byte_of_word: "byte_bits (char_of (unat (w AND 0xFF))) = low_bits 8 (w :: u64)"
proof -
  have "unat (w AND 0xFF) < 256" using unat_take_bit [of 8 w] by (simp add: mask_8)
  then show ?thesis
    by (simp add: byte_bits_def byte_def) (intro low_bits_cong, simp add: mask_8)
qed

lemma byte_less: "byte c < 256"
  by (simp add: byte_def)

lemma byte_take: "take_bit 8 (of_nat (byte c)) = (of_nat (byte c) :: u64)"
  using byte_less [of c] by (simp add: take_bit_of_nat take_bit_nat_eq_self)

lemma byte_bits_inj:
  assumes "byte_bits a = byte_bits b"
  shows "a = b"
proof -
  have "(of_nat (byte a) :: u64) = of_nat (byte b)"
    using low_bits_inj [OF assms [unfolded byte_bits_def]] by (simp add: byte_take)
  then have "unat (of_nat (byte a) :: u64) = unat (of_nat (byte b) :: u64)" by simp
  then have "byte a = byte b" using byte_less [of a] byte_less [of b] by (simp add: unat_of_nat take_bit_nat_eq_self)
  then show ?thesis by (simp add: byte_def)
qed

section \<open>Printing and parsing move bits\<close>

lemma emit_digits_bits:
  "concat (map char_bits (fst (emit_digits w n))) @ low_bits (snd (emit_digits w n)) w = low_bits n w \<and>
   snd (emit_digits w n) < 5 \<and> set (fst (emit_digits w n)) \<subseteq> set DEVICE_ALPHABET"
proof (induction n rule: less_induct)
  case (less n)
  show ?case
  proof (cases "5 \<le> n")
    case True
    let ?c = "DEVICE_ALPHABET ! unat (drop_bit (n - 5) w AND 0x1F)"
    have step: "emit_digits w n = (?c # fst (emit_digits w (n - 5)), snd (emit_digits w (n - 5)))"
      using True by (subst emit_digits.simps) (simp add: case_prod_unfold)
    have c: "char_bits ?c = low_bits 5 (drop_bit (n - 5) w)" "?c \<in> set DEVICE_ALPHABET"
      by (rule digit_bits [OF refl])+
    show ?thesis
      unfolding step using less [of "n - 5"] True c low_bits_split [OF True, of w] by auto
  qed (subst emit_digits.simps, simp)+
qed

lemma emit_bytes_bits:
  "concat (map byte_bits (fst (emit_bytes w n))) @ low_bits (snd (emit_bytes w n)) w = low_bits n w \<and>
   snd (emit_bytes w n) < 8"
proof (induction n rule: less_induct)
  case (less n)
  show ?case
  proof (cases "8 \<le> n")
    case True
    let ?c = "char_of (unat (drop_bit (n - 8) w AND 0xFF))"
    have step: "emit_bytes w n = (?c # fst (emit_bytes w (n - 8)), snd (emit_bytes w (n - 8)))"
      using True by (subst emit_bytes.simps) (simp add: case_prod_unfold)
    show ?thesis
      unfolding step using less [of "n - 8"] True low_bits_split [OF True, of w]
      by (simp add: byte_of_word)
  qed (subst emit_bytes.simps, simp)+
qed

lemma encode_bytes_bits:
  "n < 5 \<Longrightarrow> \<exists>k < 5. concat (map char_bits (encode_bytes bs w n)) =
     low_bits n w @ concat (map byte_bits bs) @ replicate k False \<and> set (encode_bytes bs w n) \<subseteq> set DEVICE_ALPHABET"
proof (induction bs arbitrary: w n)
  case Nil
  show ?case
  proof (cases "0 < n")
    case True
    have "char_bits (DEVICE_ALPHABET ! unat (push_bit (5 - n) w AND 0x1F)) = low_bits n w @ replicate (5 - n) False"
      using digit_bits(1) [OF refl, of "push_bit (5 - n) w"] low_bits_push [of n "5 - n" w] Nil by simp
    then show ?thesis using True digit_bits(2) [OF refl, of "push_bit (5 - n) w"]
      by (intro exI [of _ "5 - n"]) auto
  qed (simp add: low_bits_def)
next
  case (Cons b bs)
  let ?w = "push_bit 8 w OR of_nat (byte b)"
  obtain cs m where e: "emit_digits ?w (n + 8) = (cs, m)" by fastforce
  have E: "concat (map char_bits cs) @ low_bits m ?w = low_bits (n + 8) ?w" "m < 5" "set cs \<subseteq> set DEVICE_ALPHABET"
    using emit_digits_bits [of ?w "n + 8"] e by simp_all
  have "low_bits (n + 8) ?w = low_bits n w @ byte_bits b"
    unfolding byte_bits_def using Cons.prems by (intro low_bits_append byte_take) simp
  with E(1) Cons.IH [OF E(2), of ?w] E(3) show ?case by (auto simp: e)
qed

lemma alphabet_decode:
  assumes "c \<in> set DEVICE_ALPHABET"
  obtains v where "decode_char c = Some v" "v < 32" "c = DEVICE_ALPHABET ! v"
  using assms alphabet(1) that by (auto simp: in_set_conv_nth length_alphabet)

lemma concat_length [simp]: "length (concat (map byte_bits bs)) = 8 * length bs"
  "length (concat (map char_bits cs)) = 5 * length cs"
  by (induction bs, simp_all, induction cs) simp_all

lemma decode_group_bits:
  "set cs \<subseteq> set DEVICE_ALPHABET \<Longrightarrow> n < 8 \<Longrightarrow> 8 * length out + n + 5 * length cs < 264 \<Longrightarrow>
   \<exists>out' w' n'. decode_group cs (out, w, n) = Inr (out', w', n') \<and> n' < 8 \<and>
     concat (map byte_bits out') @ low_bits n' w' =
     concat (map byte_bits out) @ low_bits n w @ concat (map char_bits cs)"
proof (induction cs arbitrary: out w n)
  case (Cons c cs)
  obtain v where v: "decode_char c = Some v" "v < 32" using Cons.prems(1) by (auto elim: alphabet_decode)
  let ?w = "push_bit 5 w OR of_nat v"
  obtain bs m where e: "emit_bytes ?w (n + 5) = (bs, m)" by fastforce
  have "take_bit 5 (of_nat v) = (of_nat v :: u64)" using v(2) by (simp add: take_bit_of_nat take_bit_nat_eq_self)
  then have "low_bits (n + 5) ?w = low_bits n w @ char_bits c"
    using Cons.prems(2) v(1) by (simp add: char_bits_def low_bits_append)
  then have E: "concat (map byte_bits bs) @ low_bits m ?w = low_bits n w @ char_bits c" "m < 8"
    using emit_bytes_bits [of ?w "n + 5"] e by simp_all
  have len: "8 * length bs + m = n + 5"
    using arg_cong [OF E(1), of length] by simp
  have short: "take 32 (out @ bs) = out @ bs" using len Cons.prems(3) by simp
  have "8 * length (out @ bs) + m + 5 * length cs < 264" using len Cons.prems(3) by simp
  from Cons.IH [OF _ E(2) this] obtain out' w' n' where
    "decode_group cs (out @ bs, ?w, m) = Inr (out', w', n')" "n' < 8"
    "concat (map byte_bits out') @ low_bits n' w' = concat (map byte_bits (out @ bs)) @ low_bits m ?w @ concat (map char_bits cs)"
    using Cons.prems(1) by force
  moreover have "decode_group (c # cs) (out, w, n) = decode_group cs (out @ bs, ?w, m)"
    using v(1) e short by (simp del: take_append)
  moreover have "concat (map byte_bits bs) @ low_bits m ?w @ xs = low_bits n w @ char_bits c @ xs" for xs
    using E(1) by (metis append_assoc)
  ultimately show ?case by simp
qed simp

lemma luhn_sum_ok: "set cs \<subseteq> set DEVICE_ALPHABET \<Longrightarrow> \<exists>s. luhn_sum f cs acc = Inr s"
  by (induction cs arbitrary: f acc) (auto simp: Let_def elim!: alphabet_decode)

lemma luhn_check_ok:
  assumes "set cs \<subseteq> set DEVICE_ALPHABET"
  obtains c where "luhn_check cs = Inr c" "c \<in> set DEVICE_ALPHABET"
  using luhn_sum_ok [OF assms, of 1 0] that by (auto simp: luhn_check_def length_alphabet)

lemma filter_chunkify: "filter (\<lambda>b. b \<noteq> CHR ''-'') (chunkify cs) = filter (\<lambda>b. b \<noteq> CHR ''-'') cs"
proof (induction cs rule: chunkify.induct)
  case (1 cs)
  show ?case
  proof (cases "length cs \<le> 7")
    case False
    then have "filter (\<lambda>b. b \<noteq> CHR ''-'') (chunkify cs) =
        filter (\<lambda>b. b \<noteq> CHR ''-'') (take 7 cs @ drop 7 cs)"
      using 1 by (subst chunkify.simps) (simp del: append_take_drop_id)
    then show ?thesis by simp
  qed (subst chunkify.simps, simp)
qed

lemma length_chunkify: "length cs = 7 * Suc n \<Longrightarrow> length (chunkify cs) = 8 * n + 7"
proof (induction n arbitrary: cs)
  case (Suc n)
  have "length (drop 7 cs) = 7 * Suc n" using Suc.prems by simp
  from Suc.IH [OF this] Suc.prems show ?case by (subst chunkify.simps) simp
qed (subst chunkify.simps, simp)

lemma clean_text:
  assumes "set cs \<subseteq> set DEVICE_ALPHABET"
  shows "map to_ascii_uppercase (filter (\<lambda>b. b \<noteq> CHR ''-'') cs) = cs"
  using assms by (induction cs) (auto simp: in_set_conv_nth length_alphabet alphabet)

lemma list_4: "length xs = 52 \<Longrightarrow> \<exists>a b c d. xs = a @ b @ c @ d \<and> length a = 13 \<and> length b = 13 \<and> length c = 13 \<and> length d = 13"
  using append_take_drop_id [of 13 xs] append_take_drop_id [of 13 "drop 13 xs"] append_take_drop_id [of 13 "drop 26 xs"]
  by (intro exI [of _ "take 13 xs"] exI [of _ "take 13 (drop 13 xs)"] exI [of _ "take 13 (drop 26 xs)"] exI [of _ "drop 39 xs"])
    simp

lemma display_groups:
  assumes "length dev = 32"
  obtains a b c d where "encode_bytes dev 0 0 = a @ b @ c @ d"
    "length a = 13" "length b = 13" "length c = 13" "length d = 13" "set (a @ b @ c @ d) \<subseteq> set DEVICE_ALPHABET"
    "concat (map char_bits (a @ b @ c @ d)) = concat (map byte_bits dev) @ replicate 4 False"
proof -
  obtain k where k: "k < 5" "concat (map char_bits (encode_bytes dev 0 0)) = concat (map byte_bits dev) @ replicate k False"
    "set (encode_bytes dev 0 0) \<subseteq> set DEVICE_ALPHABET"
    using encode_bytes_bits [of 0 dev 0] by (auto simp: low_bits_def)
  from arg_cong [OF k(2), of length] have "5 * length (encode_bytes dev 0 0) = 256 + k"
    using assms by simp
  then have "length (encode_bytes dev 0 0) = 52" "k = 4" using k(1) by presburger+
  with list_4 [of "encode_bytes dev 0 0"] k that show ?thesis by auto
qed

lemma four: "[0..<4] = [0, 1, 2, 3 :: nat]"
  by (simp add: upt_rec numeral_nat)

lemma decode_groups_step:
  assumes "group_of 14 i clean = g @ [c]" "length g = 13" "luhn_check g = Inr c"
  shows "decode_groups (i # is) clean = (\<lambda>st. rbind (decode_group g st) (decode_groups is clean))"
  using assms by (simp add: fun_eq_iff Let_def nth_append)

lemma decode_groups_end: "decode_groups [] clean = Inr"
  by (simp add: fun_eq_iff)

lemma decode_group_append: "decode_group (xs @ ys) st = rbind (decode_group xs st) (decode_group ys)"
proof (induction xs arbitrary: st)
  case (Cons c xs)
  then show ?case by (cases st) (simp add: Let_def split: option.split prod.split)
qed simp

lemma rbind_assoc: "rbind (rbind r f) g = rbind r (\<lambda>x. rbind (f x) g)"
  by (cases r) simp_all

lemma same_bytes:
  assumes "concat (map byte_bits xs) @ us = concat (map byte_bits ys) @ vs" "length us < 8" "length vs < 8"
  shows "xs = ys"
  using assms(1)
proof (induction xs arbitrary: ys)
  case Nil
  then show ?case using assms(2) arg_cong [OF Nil, of length] by (cases ys) auto
next
  case (Cons x xs)
  show ?case
  proof (cases ys)
    case Nil
    then show ?thesis using assms(3) arg_cong [OF Cons.prems, of length] by simp
  next
    case (Cons y ys')
    then have "byte_bits x = byte_bits y" "concat (map byte_bits xs) @ us = concat (map byte_bits ys') @ vs"
      using Cons.prems by simp_all
    with Cons.IH byte_bits_inj Cons show ?thesis by blast
  qed
qed

text \<open>
  C29. A device identifier is parsed back from its text: printing never fails, the text has
  63 characters, and parsing it returns the 32 bytes it was printed from.
\<close>

theorem device_id_round_trip:
  assumes "length dev = 32"
  shows "\<exists>s. device_id_display dev = Inr s \<and> length s = 63 \<and> device_id_from_str s = Inr dev"
proof -
  obtain a b c d where g: "encode_bytes dev 0 0 = a @ b @ c @ d"
    "length a = 13" "length b = 13" "length c = 13" "length d = 13" "set (a @ b @ c @ d) \<subseteq> set DEVICE_ALPHABET"
    "concat (map char_bits (a @ b @ c @ d)) = concat (map byte_bits dev) @ replicate 4 False"
    using display_groups [OF assms] .
  have sub: "set a \<subseteq> set DEVICE_ALPHABET" "set b \<subseteq> set DEVICE_ALPHABET" "set c \<subseteq> set DEVICE_ALPHABET" "set d \<subseteq> set DEVICE_ALPHABET"
    using g(6) by auto
  obtain ka kb kc kd where k: "luhn_check a = Inr ka" "luhn_check b = Inr kb" "luhn_check c = Inr kc" "luhn_check d = Inr kd"
    "{ka, kb, kc, kd} \<subseteq> set DEVICE_ALPHABET"
    using luhn_check_ok [OF sub(1)] luhn_check_ok [OF sub(2)] luhn_check_ok [OF sub(3)] luhn_check_ok [OF sub(4)]
    by (metis empty_subsetI insert_subset)
  let ?l = "a @ [ka] @ b @ [kb] @ c @ [kc] @ d @ [kd]"
  have display: "device_id_display dev = Inr (chunkify ?l)"
    using g k by (simp add: device_id_display_def four group_of_def)
  have len: "length (chunkify ?l) = 63" using length_chunkify [of ?l 7] g by simp
  have clean: "map to_ascii_uppercase (filter (\<lambda>b. b \<noteq> CHR ''-'') (chunkify ?l)) = ?l"
    using sub k(5) clean_text [of ?l] unfolding filter_chunkify by simp
  have groups: "group_of 14 0 ?l = a @ [ka]" "group_of 14 1 ?l = b @ [kb]" "group_of 14 2 ?l = c @ [kc]" "group_of 14 3 ?l = d @ [kd]"
    using g(2-5) by (simp_all add: group_of_def)
  have run: "decode_groups [0..<4] ?l st = rbind (decode_group (a @ b @ c @ d) st) Inr" for st
    unfolding four decode_group_append rbind_assoc
    by (simp only: decode_groups_step [OF groups(1) g(2) k(1)] decode_groups_step [OF groups(2) g(3) k(2)]
        decode_groups_step [OF groups(3) g(4) k(3)] decode_groups_step [OF groups(4) g(5) k(4)] decode_groups_end)
  obtain out w n where out: "decode_group (a @ b @ c @ d) ([], 0, 0) = Inr (out, w, n)" "n < 8"
    "concat (map byte_bits out) @ low_bits n w = concat (map byte_bits dev) @ replicate 4 False"
    using decode_group_bits [OF g(6), of 0 "[]" 0] g(2-5) unfolding g(7) by (auto simp: low_bits_def)
  have "out = dev" using same_bytes [OF out(3)] out(2) by simp
  with out(1) clean run g(2-5) have "device_id_from_str (chunkify ?l) = Inr dev"
    by (simp only: device_id_from_str_def Let_def) (simp add: assms)
  with display len show ?thesis by blast
qed

theorem device_id_round_trip_witness:
  "length (replicate 32 CHR ''x'') = 32 \<and>
   (\<exists>s. device_id_display (replicate 32 CHR ''x'') = Inr s \<and> length s = 63 \<and>
     device_id_from_str s = Inr (replicate 32 CHR ''x''))"
  using device_id_round_trip [of "replicate 32 CHR ''x''"] by simp

end
