(* ===== verification/DeviceCheck.thy ===== *)
theory DeviceCheck
  imports DeviceId
begin

text \<open>
  The check characters of device identifiers: a single wrong character is always detected.
\<close>

section \<open>Errors are detected\<close>

lemma decode_upper: "decode_char (to_ascii_uppercase c) = decode_char c"
proof (cases "97 \<le> byte c \<and> byte c \<le> 122")
  case True
  then have "byte (char_of (byte c - 32)) = byte c - 32" by (auto simp: byte_def)
  with True show ?thesis by (auto simp: to_ascii_uppercase_def decode_char_def byte_def)
qed (auto simp: to_ascii_uppercase_def byte_def)

lemma decode_less: "decode_char c = Some v \<Longrightarrow> v < 32"
  by (auto simp: decode_char_def byte_def split: if_splits)

definition luhn_weight :: "nat \<Rightarrow> nat \<Rightarrow> nat" where
  "luhn_weight f v = f * v div 32 + f * v mod 32"

lemma luhn_weight_eval: "v < 32 \<Longrightarrow> luhn_weight 1 v = v" "v < 32 \<Longrightarrow> luhn_weight 2 v = (if v < 16 then 2 * v else 2 * v - 31)"
proof -
  show "v < 32 \<Longrightarrow> luhn_weight 1 v = v" by (simp add: luhn_weight_def)
  have "2 * v div 32 + 2 * v mod 32 = 2 * v - 31" if "16 \<le> v" "v < 32"
  proof -
    define x where "x = v - 16"
    then have x: "v = 16 + x" "x < 16" using that by simp_all
    have "2 * v div 32 = 1" "2 * v mod 32 = 2 * x" using x by (simp_all add: distrib_left)
    with x show ?thesis by simp
  qed
  then show "v < 32 \<Longrightarrow> luhn_weight 2 v = (if v < 16 then 2 * v else 2 * v - 31)"
    by (auto simp: luhn_weight_def)
qed

lemma luhn_weight_less: "f = 1 \<or> f = 2 \<Longrightarrow> v < 32 \<Longrightarrow> luhn_weight f v < 32"
  using luhn_weight_eval [of v] by (cases "f = 1"; cases "v < 16") simp_all

lemma luhn_weight_inj:
  assumes "f = 1 \<or> f = 2" "v < 32" "v' < 32" "v \<noteq> v'"
  shows "luhn_weight f v mod 32 \<noteq> luhn_weight f v' mod 32"
proof -
  have odd: "2 * a \<noteq> 2 * b - (31 :: nat)" if "16 \<le> b" for a b using that by presburger
  have "luhn_weight f v \<noteq> luhn_weight f v'"
    using assms luhn_weight_eval [OF assms(2)] luhn_weight_eval [OF assms(3)] odd [of v' v] odd [of v v']
    by (cases "f = 1"; cases "v < 16"; cases "v' < 16") simp_all
  with luhn_weight_less [OF assms(1,2)] luhn_weight_less [OF assms(1,3)] show ?thesis by simp
qed

lemma luhn_sum_acc: "luhn_sum f cs acc = rbind (luhn_sum f cs 0) (\<lambda>s. Inr (acc + s))"
proof (induction cs arbitrary: f acc)
  case (Cons c cs)
  show ?case
  proof (cases "decode_char c")
    case (Some v)
    let ?w = "f * v div 32 + f * v mod 32"
    show ?thesis
      using Cons [of "3 - f" "acc + ?w"] Cons [of "3 - f" "0 + ?w"] Some
      by (simp add: Let_def rbind_assoc ac_simps)
  qed simp
qed simp

lemma mod_cancel: "(a + r) mod m = (b + r) mod m \<longleftrightarrow> a mod m = b mod (m :: nat)"
proof -
  have "int ((a + r) mod m) = int ((b + r) mod m) \<longleftrightarrow> int (a mod m) = int (b mod m)"
    by (simp add: zmod_int mod_eq_dvd_iff)
  then show ?thesis by simp
qed

lemma luhn_sum_changed:
  "luhn_sum f cs 0 = Inr s \<Longrightarrow> f = 1 \<or> f = 2 \<Longrightarrow> i < length cs \<Longrightarrow> decode_char c' = Some v' \<Longrightarrow>
   decode_char (cs ! i) \<noteq> Some v' \<Longrightarrow> \<exists>s'. luhn_sum f (cs[i := c']) 0 = Inr s' \<and> s' mod 32 \<noteq> s mod 32"
proof (induction cs arbitrary: f s i)
  case (Cons c cs)
  obtain v where v: "decode_char c = Some v" using Cons.prems(1) by (cases "decode_char c") auto
  have "luhn_sum (3 - f) cs (luhn_weight f v) = Inr s" using Cons.prems(1) v by (simp add: Let_def luhn_weight_def)
  then obtain r where r: "luhn_sum (3 - f) cs 0 = Inr r" "s = luhn_weight f v + r"
    by (subst (asm) luhn_sum_acc) (auto simp: rbind_Inr)
  show ?case
  proof (cases i)
    case 0
    have "luhn_sum f (c' # cs) 0 = Inr (luhn_weight f v' + r)"
      using r(1) Cons.prems(4) by (simp add: Let_def luhn_weight_def luhn_sum_acc [of "3 - f" cs "_ + _"])
    moreover have "v \<noteq> v'" using Cons.prems(5) v 0 by simp
    then have "(luhn_weight f v' + r) mod 32 \<noteq> (luhn_weight f v + r) mod 32"
      using luhn_weight_inj [OF Cons.prems(2) decode_less [OF v] decode_less [OF Cons.prems(4)]]
      by (simp add: mod_cancel)
    ultimately show ?thesis using r(2) 0 by auto
  next
    case (Suc j)
    obtain s' where s': "luhn_sum (3 - f) (cs[j := c']) 0 = Inr s'" "s' mod 32 \<noteq> r mod 32"
      using Cons.IH [OF r(1), of j] Cons.prems Suc by auto
    have "luhn_sum f (c # cs[j := c']) 0 = Inr (luhn_weight f v + s')"
      using s'(1) v by (simp add: Let_def luhn_weight_def luhn_sum_acc [of "3 - f" "cs[j := c']" "_ + _"])
    moreover have "(luhn_weight f v + s') mod 32 \<noteq> (luhn_weight f v + r) mod 32"
      using s'(2) by (simp add: mod_cancel add.commute [of "luhn_weight f v"])
    ultimately show ?thesis using r(2) Suc by auto
  qed
qed simp

lemma luhn_check_changed:
  assumes "luhn_check cs = Inr k" "i < length cs" "decode_char c' = Some v'" "decode_char (cs ! i) \<noteq> Some v'"
  obtains k' where "luhn_check (cs[i := c']) = Inr k'" "k' \<noteq> k"
proof -
  obtain s where s: "luhn_sum 1 cs 0 = Inr s" "k = DEVICE_ALPHABET ! ((32 - s mod 32) mod 32)"
    using assms(1) by (auto simp: luhn_check_def rbind_Inr)
  obtain s' where s': "luhn_sum 1 (cs[i := c']) 0 = Inr s'" "s' mod 32 \<noteq> s mod 32"
    using luhn_sum_changed [OF s(1) _ assms(2-4)] by blast
  have "s' mod 32 < 32" "s mod 32 < 32" by simp_all
  moreover have "(32 - x) mod 32 = (if x = 0 then 0 else 32 - x)" if "x < 32" for x :: nat using that by simp
  ultimately have "(32 - s' mod 32) mod 32 \<noteq> (32 - s mod 32) mod 32"
    using s'(2) diff_less_mono2 by (simp only: split: if_split) linarith
  then have "DEVICE_ALPHABET ! ((32 - s' mod 32) mod 32) \<noteq> k"
    using alphabet(1) [of "(32 - s' mod 32) mod 32"] alphabet(1) [of "(32 - s mod 32) mod 32"] s(2) by auto
  with s'(1) that show ?thesis by (simp add: luhn_check_def)
qed

lemma group_of_update:
  assumes "length xs = 56" "i < 4" "j < 56"
  shows "group_of 14 i (xs[j := x]) = (if j div 14 = i then (group_of 14 i xs)[j mod 14 := x] else group_of 14 i xs)"
proof (rule nth_equalityI)
  show "length (group_of 14 i (xs[j := x])) = length (if j div 14 = i then (group_of 14 i xs)[j mod 14 := x] else group_of 14 i xs)"
    by (simp add: group_of_def)
  fix p assume "p < length (group_of 14 i (xs[j := x]))"
  then have p: "p < 14" "i * 14 + p < 56" using assms by (auto simp: group_of_def)
  have "i * 14 + p = j \<longleftrightarrow> j div 14 = i \<and> j mod 14 = p"
    using p(1) by (metis add.commute div_mult_mod_eq mod_mult_self3 mod_less div_mult_self3 add_0_right div_less zero_neq_numeral)
  then show "group_of 14 i (xs[j := x]) ! p = (if j div 14 = i then (group_of 14 i xs)[j mod 14 := x] else group_of 14 i xs) ! p"
    using p assms by (auto simp: group_of_def nth_list_update)
qed

lemma decode_groups_changed:
  "decode_groups is clean st = Inr r \<Longrightarrow> distinct is \<Longrightarrow> set is \<subseteq> {..<4} \<Longrightarrow> j div 14 \<in> set is \<Longrightarrow>
   length clean = 56 \<Longrightarrow> j < 56 \<Longrightarrow> decode_char c' = Some v' \<Longrightarrow> decode_char (clean ! j) \<noteq> Some v' \<Longrightarrow>
   decode_groups is (clean[j := c']) st = Inl InvalidCheckDigit"
proof (induction "is" arbitrary: st)
  case (Cons i "is")
  let ?g = "group_of 14 i clean"
  have i: "i < 4" using Cons.prems(3) by simp
  have len: "length ?g = 14" using i Cons.prems(5) by (simp add: group_of_def)
  obtain k where k: "luhn_check (take 13 ?g) = Inr k" "k = ?g ! 13"
    using Cons.prems(1) by (auto simp: Let_def rbind_Inr split: if_splits)
  note upd = group_of_update [OF Cons.prems(5) i Cons.prems(6)]
  show ?case
  proof (cases "j div 14 = i")
    case False
    obtain st' where "decode_group (take 13 ?g) st = Inr st'" "decode_groups is clean st' = Inr r"
      using Cons.prems(1) k by (auto simp: Let_def rbind_Inr split: if_splits)
    with Cons.IH [OF this(2)] Cons.prems False k show ?thesis by (auto simp: upd Let_def)
  next
    case True
    have at: "?g ! (j mod 14) = clean ! j"
      using True Cons.prems(5,6) by (auto simp: group_of_def mult.commute)
    show ?thesis
    proof (cases "j mod 14 = 13")
      case at13: True
      then have "c' \<noteq> ?g ! 13" using at Cons.prems(7,8) by auto
      then show ?thesis using True at13 k len by (simp add: upd Let_def)
    next
      case False
      then have "j mod 14 < 13" using mod_less_divisor [of 14 j] by linarith
      moreover from this have "decode_char (take 13 ?g ! (j mod 14)) \<noteq> Some v'" using at Cons.prems(8) by simp
      ultimately obtain k' where "luhn_check ((take 13 ?g)[j mod 14 := c']) = Inr k'" "k' \<noteq> k"
        using luhn_check_changed [OF k(1), of "j mod 14" c' v'] Cons.prems(7) len by auto
      then show ?thesis using True False k(2) len by (simp add: upd Let_def take_update_swap)
    qed
  qed
qed simp

abbreviation clean_of :: "bytes \<Rightarrow> bytes" where
  "clean_of s \<equiv> map to_ascii_uppercase (filter (\<lambda>b. b \<noteq> CHR ''-'') s)"

lemma clean_update:
  assumes "i < length s" "s ! i \<noteq> CHR ''-''" "c \<noteq> CHR ''-''"
  obtains j where "j < length (clean_of s)" "clean_of s ! j = to_ascii_uppercase (s ! i)"
    "clean_of (s[i := c]) = (clean_of s)[j := to_ascii_uppercase c]"
proof
  let ?a = "clean_of (take i s)" and ?b = "clean_of (drop (Suc i) s)"
  have s: "clean_of s = ?a @ to_ascii_uppercase (s ! i) # ?b"
    using assms(1,2) by (subst id_take_nth_drop [OF assms(1)]) simp
  then show "length ?a < length (clean_of s)" "clean_of s ! length ?a = to_ascii_uppercase (s ! i)"
    by (simp_all only: length_append nth_append_length) simp
  show "clean_of (s[i := c]) = (clean_of s)[length ?a := to_ascii_uppercase c]"
    unfolding s using assms(1,3) by (simp only: upd_conv_take_nth_drop list_update_length) simp
qed

text \<open>
  C30. A device identifier with one wrong character is never accepted.  When a text is accepted, in
  whatever letter case and with hyphens anywhere, and one of its characters other than a hyphen is
  replaced by a character of a different value, a check character included, parsing fails with
  \<open>InvalidCheckDigit\<close>.
\<close>

theorem device_id_single_error:
  assumes "device_id_from_str s = Inr dev" "i < length s" "s ! i \<noteq> CHR ''-''"
    and "decode_char c = Some v" "decode_char (s ! i) \<noteq> Some v"
  shows "device_id_from_str (s[i := c]) = Inl InvalidCheckDigit"
proof -
  have c: "c \<noteq> CHR ''-''" using assms(4) by (auto simp: decode_char_def byte_def)
  obtain j where j: "j < length (clean_of s)" "clean_of s ! j = to_ascii_uppercase (s ! i)"
    "clean_of (s[i := c]) = (clean_of s)[j := to_ascii_uppercase c]"
    using clean_update [OF assms(2,3) c] .
  obtain r where len: "length (clean_of s) = 56" and run: "decode_groups [0..<4] (clean_of s) ([], 0, 0) = Inr r"
    using assms(1) by (auto simp: device_id_from_str_def Let_def rbind_Inr split: if_splits)
  have "j div 14 \<in> set [0..<4]" using j(1) len by auto
  moreover have "decode_char (to_ascii_uppercase c) = Some v" "decode_char (clean_of s ! j) \<noteq> Some v"
    using assms(4,5) by (simp_all only: j(2) decode_upper) simp
  ultimately have "decode_groups [0..<4] ((clean_of s)[j := to_ascii_uppercase c]) ([], 0, 0) = Inl InvalidCheckDigit"
    by (intro decode_groups_changed [OF run _ _ _ len]) (use j(1) len in auto)
  then show ?thesis
    unfolding device_id_from_str_def Let_def j(3) using len by simp
qed

lemma zero_id: "device_id_from_str (replicate 56 CHR ''A'') = Inr (replicate 32 CHR 0x00)"
  by code_simp

theorem device_id_single_error_witness:
  "device_id_from_str ((replicate 56 CHR ''A'')[0 := CHR ''B'']) = Inl InvalidCheckDigit"
  by (rule device_id_single_error [OF zero_id, where v = 1]) (simp_all add: decode_char_def byte_def)

end
