(* ===== verification/StoreProps.thy ===== *)
theory StoreProps
  imports StoreExample
begin

text \<open>
  The properties of the folder store, for every lawful database and every state a run reaches.
  An operation either fails in the database or has the stated outcome.
\<close>

abbreviation st :: "('v, 'b) lib \<Rightarrow> ('d \<Rightarrow> bytes \<rightharpoonup> 'v) \<Rightarrow> ('d, 'b) folder_store \<Rightarrow> astore" where
  "st lib A s \<equiv> astore_of lib (A (fs_db s))"

definition db_failed :: "storage_error + 'a \<Rightarrow> bool" where
  "db_failed r \<longleftrightarrow> (case r of Inl e \<Rightarrow> io_err e | Inr _ \<Rightarrow> False)"

lemma op_cases:
  assumes "sim (store_view A) (store_view A s) I m f" and "f (store_view A s) = (r, c)"
  obtains (io) "db_failed (fst (m s))" | (same) "fst (m s) = r" "store_view A (snd (m s)) = c"
  using simD [OF assms(1) prod.collapse [symmetric]] assms(2) unfolding db_failed_def by force

lemma read_cases:
  assumes "sim (store_view A) (store_view A s) I m f" and "f (store_view A s) = (r, c)"
  shows "db_failed (fst (m s)) \<or> fst (m s) = r"
  using op_cases [OF assms] by blast

lemma write_cases:
  assumes "simw (store_view A) (store_view A s) I m f" and "f (store_view A s) = (r, c)" and "I c"
  shows "db_failed (fst (m s)) \<or>
    fst (m s) = r \<and> store_view A (snd (m s)) = c \<and> A (fs_db (snd (m s))) = fs_db c"
proof -
  have "sim (store_view A) (store_view A s) I m f" using assms by (intro simwD) simp_all
  from op_cases [OF this assms(2)] show ?thesis by (metis store_view_sel(1))
qed

section \<open>Invariants\<close>



text \<open>
  C1. No dangling blocks.  In every state a run reaches, a block of a committed or staged file
  that has a block sequence number has its data in the database, the data is the content of the
  block's hash, and data stored inline is the content of the hash too.
\<close>

theorem blocks_resolve:
  assumes "slate_laws db A" and "codec_laws lib" and "store_run db lib A C s"
    and "a_files (st lib A s) n = Some fi \<or> a_inbox (st lib A s) (e, n) = Some fi"
    and "b \<in> set (sf_blocks fi)"
  shows "(\<forall>q. sb_blockseq b = Some q \<longrightarrow> a_data (st lib A s) q = Some (C (sb_hash b))) \<and>
    (\<forall>d. sb_inline_data b = Some d \<longrightarrow> d = C (sb_hash b))"
  using blk_invD(2,3) [OF store_invD(3) [OF store_run_inv [OF assms(1-3)]]] assms(4,5)
  by (auto simp: block_good_def)

theorem blocks_resolve_witness:
  "sb_inline_data (hd (sf_blocks staged2)) = Some (content0 (sb_hash (hd (sf_blocks staged2))))"
proof -
  have "sb_inline_data (hd (sf_blocks staged2)) = Some ''hello''"
    and "hd (sf_blocks staged2) \<in> set (sf_blocks (staged2\<lparr>sf_sequence := 1\<rparr>))"
    by (simp_all add: staged2_def set_pointer_def)
  with blocks_resolve [OF example_laws run3, of name0 "staged2\<lparr>sf_sequence := 1\<rparr>" epoch0
      "hd (sf_blocks staged2)"]
  show ?thesis by (simp add: at3)
qed

section \<open>Reading\<close>

text \<open>
  C5. What \<open>read_block\<close> returns: the content of the hash if a block of the file with that hash
  has its data, and \<open>NotFound\<close> otherwise; in particular it never returns other bytes.
\<close>

theorem read_block_exact:
  assumes "slate_laws db A" and "codec_laws lib" and "store_run db lib A C s"
    and "good_name n" and "length h = HASH_LEN"
  shows "db_failed (fst (read_block db lib n h s)) \<or>
    fst (read_block db lib n h s) =
      (case a_files (st lib A s) n of
         Some fi \<Rightarrow> if list_ex (\<lambda>b. sb_hash b = h \<and> has_pointer b) (sf_blocks fi) then Inr (C h)
           else Inl (NotFound ''block not found'')
       | None \<Rightarrow> Inl (NotFound ''block not found''))"
proof -
  note inv = store_run_inv [OF assms(1-3)]
  show ?thesis
    using read_cases [OF sim_read_block [where I = "store_inv lib C", OF assms(1) inv]
        read_block_map [OF inv assms(4,5)]]
    by (simp add: readable_def list_ex_iff cong: option.case_cong)
qed

theorem read_block_exact_witness:
  "db_failed (fst (read_block rbt_slate tagged_lib name0 hash0 store3)) \<or>
   fst (read_block rbt_slate tagged_lib name0 hash0 store3) = Inr ''hello''"
  using read_block_exact [OF example_laws run3 name0_good hash0_length]
  by (simp add: at3 staged2_def set_pointer_def has_pointer_def content0_def)

lemma delta_sequences:
  assumes "idx_inv a"
  shows "map fi_sequence (delta a since) = sorted_list_of_set {s \<in> dom (a_seqs a). since < s}"
    "finite (dom (a_seqs a)) \<Longrightarrow>
     set (delta a since) = {bep_of fi |n fi. a_files a n = Some fi \<and> since < sf_sequence fi}"
proof -
  have ex: "\<exists>n fi. a_seqs a s = Some n \<and> a_files a n = Some fi \<and> sf_sequence fi = s \<and> ok_type (sf_type fi)"
    if "s \<in> dom (a_seqs a)" for s using assms that by (fastforce simp: idx_inv_def)
  have "map (\<lambda>s. fi_sequence (bep_of (the (a_files a (the (a_seqs a s))))))
      (sorted_list_of_set {s \<in> dom (a_seqs a). since < s})
    = map id (sorted_list_of_set {s \<in> dom (a_seqs a). since < s})"
  proof (cases "finite {s \<in> dom (a_seqs a). since < s}")
    case True
    then show ?thesis using ex bep_of_sel(2) by (intro map_cong refl) fastforce
  qed simp
  then show "map fi_sequence (delta a since) = sorted_list_of_set {s \<in> dom (a_seqs a). since < s}"
    by (simp add: delta_def comp_def)
  show "set (delta a since) = {bep_of fi |n fi. a_files a n = Some fi \<and> since < sf_sequence fi}"
    if "finite (dom (a_seqs a))"
    using that idx_invD(6) [OF assms] ex by (force simp: delta_def)
qed

lemma finite_seqs:
  assumes "wf_view lib V"
  shows "finite (dom (a_seqs (astore_of lib V)))"
proof -
  let ?S = "dom (a_seqs (astore_of lib V))"
  have ok: "in_seq s" if "s \<in> ?S" for s using that a_seqs_in_seq by blast
  then have "seqk ` ?S \<subseteq> dom V" by (force simp: a_seqs_lookup)
  moreover have "finite (dom V)" using assms by (simp add: wf_view_def)
  ultimately have "finite (seqk ` ?S)" by (rule finite_subset)
  moreover have "inj_on seqk ?S" by (rule inj_onI) (use ok seqk_eq in blast)
  ultimately show ?thesis by (rule finite_imageD)
qed



text \<open>
  The full scan is exact: \<open>all_files\<close> returns every committed file once, as the network
  format of what was committed, and nothing else.
\<close>

lemma all_files_exact:
  assumes "slate_laws db A" and "codec_laws lib" and "store_run db lib A C s"
  shows "db_failed (fst (all_files db lib s)) \<or>
    (\<exists>fs. fst (all_files db lib s) = Inr fs \<and> distinct (map fi_name fs) \<and>
       set fs = bep_of ` ran (a_files (st lib A s)))"
proof -
  note inv = store_run_inv [OF assms(1-3)]
  note wf = store_invD(1,2) [OF inv]
  show ?thesis
    using read_cases [OF sim_all_files [where I = "store_inv lib C", OF assms(1) inv] all_files_map [OF inv]]
      set_entry_files [OF wf] distinct_entry_files [OF wf] by auto
qed

section \<open>Committing\<close>



text \<open>The outcome of completing a staged file, branch by branch.\<close>

definition complete_outcome ::
  "astore \<Rightarrow> epoch \<Rightarrow> bytes \<Rightarrow> vector option \<Rightarrow> storage_error + file_info option \<Rightarrow> astore \<Rightarrow> bool" where
  "complete_outcome a e n ver r a' \<longleftrightarrow>
     (case a_inbox a (e, n) of
        None \<Rightarrow> r = Inr None \<and> a' = a
      | Some fi \<Rightarrow>
          if map_option b_of_vector (sf_version fi) \<noteq> ver then r = Inr None \<and> a' = a
          else if \<not> list_all has_pointer (sf_blocks (carried a n fi)) then
            r = Inl (Internal ''staged file has blocks with neither inline data nor blockseq'') \<and> a' = a
          else
            r = Inr (Some (bep_of ((carried a n fi)\<lparr>sf_sequence := max_seq a + 1\<rparr>))) \<and>
            a_files a' = (a_files a)(n \<mapsto> (carried a n fi)\<lparr>sf_sequence := max_seq a + 1\<rparr>) \<and>
            a_inbox a' = (a_inbox a)((e, n) := None))"

lemma incomplete_iff: "incomplete fi \<longleftrightarrow> \<not> list_all has_pointer (sf_blocks fi)"
  by (auto simp: incomplete_def list_ex_iff list_all_iff has_pointer_def)

lemma carried_other [simp]:
  "carried (a\<lparr>a_inbox := x\<rparr>) = carried a" "carried (a\<lparr>a_rev := y\<rparr>) = carried a"
  by (simp_all add: carried_def fun_eq_iff)

lemma complete_file_outcome:
  assumes "codec_laws lib" and "store_inv lib C c" and "good_name n" and "wf_epoch e"
    and "max_seq (ast lib c) < i64_max"
  obtains r c' where "complete_file map_slate lib e n ver c = (r, c')" "store_inv lib C c'"
    "complete_outcome (ast lib c) e n ver r (ast lib c')"
proof -
  consider (skip) "\<And>fi. a_inbox (ast lib c) (e, n) = Some fi \<Longrightarrow> map_option b_of_vector (sf_version fi) \<noteq> ver"
    | (missing) fi where "a_inbox (ast lib c) (e, n) = Some fi" "map_option b_of_vector (sf_version fi) = ver"
        "incomplete (carried (ast lib c) n fi)"
    | (commit) fi where "a_inbox (ast lib c) (e, n) = Some fi" "map_option b_of_vector (sf_version fi) = ver"
        "\<not> incomplete (carried (ast lib c) n fi)"
    by blast
  then show ?thesis
  proof cases
    case skip
    with that [OF complete_file_skip [OF assms(2-4) skip] assms(2)] show ?thesis
      by (simp add: complete_outcome_def split: option.splits)
  next
    case missing
    with that [OF complete_file_incomplete [OF assms(2-4) missing] assms(2)] show ?thesis
      by (simp add: complete_outcome_def incomplete_iff)
  next
    case commit
    show ?thesis
    proof (rule complete_file_commit [OF assms(1-4) commit assms(5)])
      fix c' assume c': "complete_file map_slate lib e n ver c = (Inr (Some (bep_of
          ((carried (ast lib c) n fi)\<lparr>sf_sequence := max_seq (ast lib c) + 1\<rparr>))), c')"
        "ast lib c' = a_commit n fi ((ast lib c)\<lparr>a_inbox := (a_inbox (ast lib c))((e, n) := None)\<rparr>)"
        "store_inv lib C c'"
      then have "a_files (ast lib c') = (a_files (ast lib c))(n \<mapsto>
          (carried (ast lib c) n fi)\<lparr>sf_sequence := max_seq (ast lib c) + 1\<rparr>)"
        "a_inbox (ast lib c') = (a_inbox (ast lib c))((e, n) := None)"
        by (simp_all add: a_commit_def Let_def)
      with commit show ?thesis
        by (intro that [OF c'(1,3)]) (simp only: complete_outcome_def option.case incomplete_iff simp_thms if_False)
    qed
  qed
qed

text \<open>
  C2. \<open>complete_file\<close> commits a staged file only when it is the expected version and every block
  of it has its data: it does nothing when nothing is staged or the version differs, fails
  without a change when a block has no data, and otherwise commits the file under the next
  sequence number and removes it from the inbox, in one step.
\<close>

theorem complete_file_spec:
  assumes "slate_laws db A" and "codec_laws lib" and "store_run db lib A C s"
    and "good_name n" and "wf_epoch e" and "max_seq (st lib A s) < i64_max"
  shows "db_failed (fst (complete_file db lib e n ver s)) \<or>
    complete_outcome (st lib A s) e n ver (fst (complete_file db lib e n ver s))
      (st lib A (snd (complete_file db lib e n ver s)))"
proof -
  note inv = store_run_inv [OF assms(1-3)]
  show ?thesis
  proof (rule complete_file_outcome [OF assms(2) inv assms(4,5)])
    show "max_seq (ast lib (store_view A s)) < i64_max" using assms(6) by simp
    fix r c' assume map: "complete_file map_slate lib e n ver (store_view A s) = (r, c')"
      "store_inv lib C c'" "complete_outcome (ast lib (store_view A s)) e n ver r (ast lib c')"
    show ?thesis
      using write_cases [OF simw_complete_file [where I = "store_inv lib C", OF assms(1) inv] map(1,2)] map(3)
      by (metis store_view_sel(1))
  qed
qed

theorem complete_file_spec_witness:
  "db_failed (fst (complete_file rbt_slate tagged_lib epoch0 name0 None store2)) \<or>
   fst (complete_file rbt_slate tagged_lib epoch0 name0 None store2)
     = Inr (Some (bep_of (staged2\<lparr>sf_sequence := 1\<rparr>)))"
proof -
  have start: "a_files (at store0) = Map.empty" "max_seq (at store0) = 0"
    by (simp_all add: store0_def astore_of_empty default_index_meta_def)
  have "sf_version staged2 = None" "list_all has_pointer (sf_blocks staged2)"
    by (simp_all add: staged2_def set_pointer_def has_pointer_def s_of_file_info_def)
  with complete_file_spec [OF example_laws run2 name0_good epoch0_wf, of None] show ?thesis
    by (auto simp: at2 start i64_max_def complete_outcome_def carried_def)
qed

section \<open>Blocks\<close>

lemma carry_keeps: "has_pointer b \<Longrightarrow> carry_block m b = b"
  by (simp add: carry_block_def)

lemma readable_sequence [simp]: "readable h (fi\<lparr>sf_sequence := q\<rparr>) = readable h fi"
  by (simp add: readable_def)

lemma readable_carry:
  shows "readable h new \<Longrightarrow> readable h (carry_block_pointers new old)"
    "readable h old \<Longrightarrow> has_hash h new \<Longrightarrow> readable h (carry_block_pointers new old)"
proof -
  show "readable h (carry_block_pointers new old)" if "readable h new"
    using that by (force simp: readable_def carry_block_pointers_def carry_keeps)
  assume old: "readable h old" and "has_hash h new"
  then obtain b where b: "b \<in> set (sf_blocks new)" "sb_hash b = h"
    by (auto simp: has_hash_def list_ex_iff)
  let ?m = "by_hash (sf_blocks old) Map.empty"
  obtain src where src: "?m h = Some src" "has_pointer src"
    using old by (cases "find (\<lambda>b. has_pointer b \<and> sb_hash b = h) (sf_blocks old)")
      (auto simp: by_hash_find readable_def find_None_iff find_Some_iff)
  then have "has_pointer (carry_block ?m b)" using b
    by (auto simp: carry_block_def has_pointer_def)
  then show "readable h (carry_block_pointers new old)"
    using b unfolding readable_def carry_block_pointers_def
    by (intro bexI [of _ "carry_block ?m b"]) simp_all
qed

lemma readable_carried:
  "readable h stored \<Longrightarrow> readable h (carried a n stored)"
  by (simp add: carried_def readable_carry(1) split: option.splits)

lemma read_after:
  assumes "slate_laws db A" and "store_inv lib C (store_view A s)" and "good_name n" "length h = HASH_LEN"
    and "a_files (st lib A s) n = Some fi" and "readable h fi"
  shows "db_failed (fst (read_block db lib n h s)) \<or> fst (read_block db lib n h s) = Inr (C h)"
  using read_cases [OF sim_read_block [where I = "store_inv lib C", OF assms(1,2)]
      read_block_map [OF assms(2-4)]] assms(5,6) by simp

lemma list_all_carried:
  assumes "list_all has_pointer (sf_blocks fi)"
  shows "sf_blocks (carried a n fi) = sf_blocks fi"
  using assms
  by (auto simp: carried_def carry_block_pointers_def list_all_iff carry_keeps intro!: map_idI
      split: option.splits)

lemma store_staged:
  assumes "slate_laws db A" and "codec_laws lib" and inv: "store_inv lib C (store_view A s)"
    and "good_name n" and "wf_epoch e" and "length h = HASH_LEN" and room: "has_room (st lib A s)"
    and staged: "a_inbox (st lib A s) (e, n) = Some fi" and "has_hash h fi"
    and rest: "\<forall>b \<in> set (sf_blocks fi). sb_hash b = h \<or> has_pointer b"
    and run: "store_block db lib (Some e) n h (C h) s = (r1, s1)"
  obtains "db_failed r1"
  | fi' where "r1 = Inr ()" "store_inv lib C (store_view A s1)" "a_inbox (st lib A s1) (e, n) = Some fi'"
      "list_all has_pointer (sf_blocks fi')" "readable h fi'" "sf_version fi' = sf_version fi"
      "max_seq (st lib A s1) = max_seq (st lib A s)"
proof -
  let ?c = "store_view A s"
  have ent: "entry_for (ast lib ?c) (Some e) n = Some (fi, Some e)"
    using staged by (simp add: entry_for_def)
  have epoch: "wf_epoch e'" if "Some e = Some e'" for e' using that assms(5) by simp
  have room': "has_room (ast lib ?c)" using room by simp
  obtain c1 where c1: "store_block map_slate lib (Some e) n h (C h) ?c = (Inr (), c1)"
    "store_inv lib C c1" "wrote_block (Some e) n h fi (C h) (ast lib ?c) (ast lib c1)"
    using store_block_ok [OF assms(2) inv room' assms(4,6) epoch ent assms(9) refl]
    by (auto simp del: store_view_sel)
  obtain w p where w: "a_inbox (ast lib c1) = (a_inbox (st lib A s))((e, n) \<mapsto> set_pointer h w p fi)"
    "readable h (set_pointer h w p fi)" "w \<noteq> None \<or> p \<noteq> None"
    by (rule wrote_block_entry [OF c1(3) assms(9)]) (auto simp: put_entry_def)
  have all: "list_all has_pointer (sf_blocks (set_pointer h w p fi))"
    using rest w(3) by (auto simp: list_all_iff set_pointer_def has_pointer_def)
  have max: "max_seq (ast lib c1) = max_seq (st lib A s)" using c1(3) by (simp add: wrote_block_def)
  consider "db_failed r1" | "r1 = Inr ()" "store_view A s1 = c1" "A (fs_db s1) = fs_db c1"
    using write_cases [OF simw_store_block [OF assms(1,2) inv room'] c1(1,2)] run by auto
  then show ?thesis
  proof cases
    case 2
    show ?thesis
      by (rule that(2) [of "set_pointer h w p fi"]) (use 2 w(1,2) all c1(2) max in simp_all)
  qed (rule that(1))
qed

lemma complete_staged:
  assumes "slate_laws db A" and "codec_laws lib" and inv: "store_inv lib C (store_view A s)"
    and "good_name n" and "wf_epoch e" and max: "max_seq (st lib A s) < i64_max"
    and staged: "a_inbox (st lib A s) (e, n) = Some fi" "list_all has_pointer (sf_blocks fi)"
    and run: "complete_file db lib e n (map_option b_of_vector (sf_version fi)) s = (r, t)"
  obtains "db_failed r"
  | f fi' where "r = Inr (Some f)" "store_inv lib C (store_view A t)" "a_files (st lib A t) n = Some fi'"
      "sf_blocks fi' = sf_blocks fi"
proof -
  let ?c = "store_view A s"
  have max': "max_seq (ast lib ?c) < i64_max" using max by simp
  show ?thesis
  proof (rule complete_file_outcome [OF assms(2) inv assms(4,5) max',
        of "map_option b_of_vector (sf_version fi)"])
    fix r' c' assume map: "complete_file map_slate lib e n (map_option b_of_vector (sf_version fi)) ?c = (r', c')"
      "store_inv lib C c'"
      "complete_outcome (ast lib ?c) e n (map_option b_of_vector (sf_version fi)) r' (ast lib c')"
    then have out: "r' = Inr (Some (bep_of ((carried (st lib A s) n fi)\<lparr>sf_sequence := max_seq (st lib A s) + 1\<rparr>)))"
      "a_files (ast lib c') n = Some ((carried (st lib A s) n fi)\<lparr>sf_sequence := max_seq (st lib A s) + 1\<rparr>)"
      using staged by (simp_all add: complete_outcome_def list_all_carried)
    consider "db_failed r" | "r = r'" "store_view A t = c'" "A (fs_db t) = fs_db c'"
      using write_cases [OF simw_complete_file [where I = "store_inv lib C", OF assms(1) inv] map(1,2)] run
      by auto
    then show ?thesis
    proof cases
      case 2
      show ?thesis
        by (rule that(2) [OF _ _ out(2) [folded 2(3)]])
          (use 2 out(1) map(2) list_all_carried [OF staged(2), of "st lib A s" n] in simp_all)
    qed (rule that(1))
  qed
qed

text \<open>
  Receiving a file: when every block of a staged file but those of one hash has its data,
  storing the data of that hash, completing the file and reading the block gives that data back,
  unless one of the three operations fails in the database.
\<close>

lemma staged_block_round_trip:
  assumes "slate_laws db A" and "codec_laws lib" and "store_run db lib A C s"
    and "good_name n" and "wf_epoch e" and "length h = HASH_LEN" and "counters_ok (st lib A s)"
    and "a_inbox (st lib A s) (e, n) = Some fi" and "has_hash h fi"
    and "\<forall>b \<in> set (sf_blocks fi). sb_hash b = h \<or> has_pointer b"
    and "store_block db lib (Some e) n h (C h) s = (r1, s1)"
    and "complete_file db lib e n (map_option b_of_vector (sf_version fi)) s1 = (r2, s2)"
    and "read_block db lib n h s2 = (r3, s3)"
  shows "db_failed r1 \<or> db_failed r2 \<or> db_failed r3 \<or>
    r1 = Inr () \<and> (\<exists>f. r2 = Inr (Some f)) \<and> r3 = Inr (C h)"
proof -
  note inv = store_run_inv [OF assms(1-3)]
  have room: "has_room (st lib A s)" "max_seq (st lib A s) < i64_max"
    using assms(7) by (simp_all add: counters_ok_def)
  show ?thesis
  proof (rule store_staged [OF assms(1,2) inv assms(4-6) room(1) assms(8-11)])
    fix fi' assume one: "r1 = Inr ()" "store_inv lib C (store_view A s1)"
      "a_inbox (st lib A s1) (e, n) = Some fi'" "list_all has_pointer (sf_blocks fi')"
      "readable h fi'" "sf_version fi' = sf_version fi" "max_seq (st lib A s1) = max_seq (st lib A s)"
    then have max: "max_seq (st lib A s1) < i64_max"
      and run: "complete_file db lib e n (map_option b_of_vector (sf_version fi')) s1 = (r2, s2)"
      using room(2) assms(12) by simp_all
    show ?thesis
    proof (rule complete_staged [OF assms(1,2) one(2) assms(4,5) max one(3,4) run])
      fix f fi'' assume two: "r2 = Inr (Some f)" "store_inv lib C (store_view A s2)"
        "a_files (st lib A s2) n = Some fi''" "sf_blocks fi'' = sf_blocks fi'"
      with one(5) have "readable h fi''" by (simp add: readable_def)
      from read_after [OF assms(1) two(2) assms(4,6) two(3) this] one(1) two(1) assms(13)
      show ?thesis by auto
    qed simp
  qed simp
qed

text \<open>
  C8. Copying pointers loses no data: after \<open>put_file_with_carry\<close> of a file whose blocks come
  from another file, every block of the new file that could be read in the source can be read in
  the new file, with the same content.
\<close>

theorem carried_file_readable:
  assumes "slate_laws db A" and "codec_laws lib" and "store_run db lib A C s"
    and "good_name (fi_name f)" and "good_name src" and "max_seq (st lib A s) < i64_max"
    and "a_files (st lib A s) src = Some fi" and "readable h fi" and "length h = HASH_LEN"
    and "\<exists>b \<in> set (fi_blocks f). bi_hash b = h"
    and "put_file_with_carry db lib f src s = (r1, s1)"
    and "read_block db lib (fi_name f) h s1 = (r2, s2)"
  shows "db_failed r1 \<or> db_failed r2 \<or> r1 = Inr (max_seq (st lib A s) + 1) \<and> r2 = Inr (C h)"
proof -
  note inv = store_run_inv [OF assms(1-3)]
  let ?c = "store_view A s"
  have max: "max_seq (ast lib ?c) < i64_max" using assms(6) by simp
  have "has_hash h (s_of_file_info f)"
    using assms(10) by (auto simp: has_hash_def list_ex_iff)
  then have copy: "readable h (copy_of (st lib A s) f src)"
    using assms(7,8) by (simp add: copy_of_def carried_def readable_carry(2))
  show ?thesis
  proof (rule put_file_with_carry_map [OF assms(2) inv assms(4,5) max])
    fix c' R assume map: "put_file_with_carry map_slate lib f src ?c = (Inr (max_seq (ast lib ?c) + 1), c')"
      "ast lib c' = a_commit (fi_name f) (copy_of (ast lib ?c) f src) ((ast lib ?c)\<lparr>a_rev := R\<rparr>)"
      "store_inv lib C c'"
    consider "db_failed r1"
      | "r1 = Inr (max_seq (st lib A s) + 1)" "store_view A s1 = c'" "A (fs_db s1) = fs_db c'"
      using write_cases [OF simw_put_file_with_carry [where I = "store_inv lib C", OF assms(1) inv
            store_inv_gc] map(1,3)] assms(11) by auto
    then show ?thesis
    proof cases
      case 2
      have "a_files (st lib A s1) (fi_name f) =
          Some ((carried (st lib A s) (fi_name f) (copy_of (st lib A s) f src))
            \<lparr>sf_sequence := max_seq (st lib A s) + 1\<rparr>)"
        using 2(3) map(2) by (simp add: a_commit_def Let_def)
      then show ?thesis
        using read_after [OF assms(1) _ assms(4,9), of lib C s1] 2 map(3) copy assms(12)
        by (auto simp: readable_carried)
    qed simp
  qed
qed

theorem carried_file_readable_witness:
  "let (r1, s1) = put_file_with_carry rbt_slate tagged_lib (file0\<lparr>fi_name := ''b''\<rparr>) name0 store3;
       (r2, _) = read_block rbt_slate tagged_lib ''b'' hash0 s1
   in db_failed r1 \<or> db_failed r2 \<or> r1 = Inr 2 \<and> r2 = Inr ''hello''"
proof -
  have "good_name (fi_name (file0\<lparr>fi_name := ''b''\<rparr>))" by code_simp
  moreover have "max_seq (at store3) < i64_max" by (simp add: at3 i64_max_def)
  moreover have "a_files (at store3) name0 = Some (staged2\<lparr>sf_sequence := 1\<rparr>)" by (simp add: at3)
  moreover have "readable hash0 (staged2\<lparr>sf_sequence := 1\<rparr>)"
    by (simp add: readable_def staged2_def set_pointer_def has_pointer_def)
  ultimately show ?thesis
    using carried_file_readable [OF example_laws run3 _ name0_good _ _ _ hash0_length _
        prod.collapse [symmetric] prod.collapse [symmetric], of "file0\<lparr>fi_name := ''b''\<rparr>"]
    by (auto simp: at3 content0_def Let_def case_prod_beta)
qed



section \<open>Inbox and peers\<close>

text \<open>
  C9. \<open>gc_inbox\<close> removes exactly the staged files of earlier epochs, reports how many it removed,
  and changes nothing else.
\<close>

theorem gc_inbox_exact:
  assumes "slate_laws db A" and "codec_laws lib" and "store_run db lib A C s"
    and "gc_inbox db current s = (r, s')"
  shows "db_failed r \<or>
    r = Inr (card {x \<in> dom (a_inbox (st lib A s)). epoch_less (fst x) current}) \<and>
    st lib A s' = (st lib A s)\<lparr>a_inbox := (\<lambda>x. if epoch_less (fst x) current then None
      else a_inbox (st lib A s) x)\<rparr>"
proof -
  note inv = store_run_inv [OF assms(1-3)]
  show ?thesis
  proof (rule gc_inbox_map [OF inv, of current])
    fix c' assume map: "gc_inbox map_slate current (store_view A s) =
        (Inr (stale_count current (ast lib (store_view A s))), c')"
      "ast lib c' = drop_stale current (ast lib (store_view A s))" "store_inv lib C c'"
    consider "db_failed r" | "r = Inr (stale_count current (st lib A s))" "A (fs_db s') = fs_db c'"
      using write_cases [OF simw_gc_inbox [where I = "store_inv lib C", OF assms(1) inv] map(1,3)] assms(4)
      by auto
    then show ?thesis
      using map(2) by cases (simp_all add: stale_count_def drop_stale_def)
  qed
qed

theorem gc_inbox_exact_witness:
  "db_failed (fst (gc_inbox rbt_slate \<lparr>epoch_val = 2, epoch_base32 = ''00000002''\<rparr> store1)) \<or>
   fst (gc_inbox rbt_slate \<lparr>epoch_val = 2, epoch_base32 = ''00000002''\<rparr> store1) = Inr 1"
proof -
  let ?e = "\<lparr>epoch_val = 2, epoch_base32 = ''00000002''\<rparr>"
  have "{x \<in> dom (a_inbox (at store1)). epoch_less (fst x) ?e} = {(epoch0, name0)}"
    by (auto simp: at1 epoch_less_def epoch0_def)
  then show ?thesis
    using gc_inbox_exact [OF example_laws run1 prod.collapse [symmetric], of ?e] by auto
qed

text \<open>
  The index state of a peer is read back as it was last written, and writing it does not
  change that of other peers nor any file.
\<close>

lemma remote_state_round_trip:
  assumes "slate_laws db A" and "codec_laws lib" and "store_run db lib A C s"
    and "put_remote_state db lib d x s = (r1, s1)" and "get_remote_state db lib d' s1 = (r2, s2)"
  shows "db_failed r1 \<or> db_failed r2 \<or>
    r2 = Inr (if d' = d then x else case a_remote (st lib A s) d' of
       Some y \<Rightarrow> y | None \<Rightarrow> default_remote_state) \<and>
    a_files (st lib A s1) = a_files (st lib A s)"
proof -
  note inv = store_run_inv [OF assms(1-3)]
  show ?thesis
  proof (rule put_remote_state_map [OF assms(2) inv, of d x])
    fix c' assume map: "put_remote_state map_slate lib d x (store_view A s) = (Inr (), c')"
      "ast lib c' = (ast lib (store_view A s))\<lparr>a_remote := (a_remote (ast lib (store_view A s)))(d \<mapsto> x)\<rparr>"
      "store_inv lib C c'"
    consider "db_failed r1" | "store_view A s1 = c'" "A (fs_db s1) = fs_db c'"
      using write_cases [OF simw_ops(3) [where I = "store_inv lib C", OF assms(1) inv] map(1,3)] assms(4)
      by auto
    then show ?thesis
    proof cases
      case 2
      have inv1: "store_inv lib C (store_view A s1)" using 2 map(3) by simp
      show ?thesis
        using read_cases [OF sim_reads(2) [where I = "store_inv lib C", OF assms(1) inv1]
            get_remote_state_map [OF store_invD(1) [OF inv1]], of d'] assms(5) 2 map(2) by auto
    qed simp
  qed
qed

end
