(* ===== verification/Conflict.thy ===== *)
theory Conflict
  imports Proto
begin

text \<open>
  Version vectors and conflict resolution: \<open>bepository-bep/src/conflict.rs\<close> and the resolver
  the command line installs (\<open>TheirsResolver\<close> in \<open>bepository-cli/src/main.rs\<close>).  The merge
  loop over the two sorted counter lists is shown to compute the pointwise order of the
  vectors as functions from counter ids to values, absent counters reading as 0.
\<close>

type_synonym device_id = bytes

datatype ordering = Greater | Less | Equal | Concurrent

record conflict_resolution =
  winner :: file_info
  loser :: file_info
  loser_path :: "bytes option"

text \<open>The loop over \<open>windows(2)\<close>: the first pair of neighbours with one id is an error.\<close>

fun has_equal_neighbours :: "counter list \<Rightarrow> bool" where
  "has_equal_neighbours (c # d # cs) \<longleftrightarrow>
     cnt_id c = cnt_id d \<or> has_equal_neighbours (d # cs)"
| "has_equal_neighbours _ \<longleftrightarrow> False"

definition sorted_unique :: "vector \<Rightarrow> bep_error + counter list" where
  "sorted_unique v =
     (let sorted = sort_key cnt_id (counters v)
      in if has_equal_neighbours sorted
         then Inl (PeerBadMessage ''duplicate counter id in version vector'')
         else Inr sorted)"

text \<open>The counters left when one list is exhausted.\<close>

fun any_positive :: "counter list \<Rightarrow> bool \<Rightarrow> bool" where
  "any_positive [] dominated = dominated"
| "any_positive (c # cs) dominated = any_positive cs (if cnt_value c > 0 then True else dominated)"

fun compare_loop :: "counter list \<Rightarrow> counter list \<Rightarrow> bool \<Rightarrow> bool \<Rightarrow> bool \<times> bool" where
  "compare_loop (ac # as) (bc # bs) a_dominated b_dominated =
     (if cnt_id ac = cnt_id bc then
        (if cnt_value ac > cnt_value bc then compare_loop as bs True b_dominated
         else if cnt_value ac < cnt_value bc then compare_loop as bs a_dominated True
         else compare_loop as bs a_dominated b_dominated)
      else if cnt_id ac < cnt_id bc then
        compare_loop as (bc # bs) (if cnt_value ac > 0 then True else a_dominated) b_dominated
      else
        compare_loop (ac # as) bs a_dominated (if cnt_value bc > 0 then True else b_dominated))"
| "compare_loop as bs a_dominated b_dominated =
     (any_positive as a_dominated, any_positive bs b_dominated)"

definition compare :: "vector \<Rightarrow> vector \<Rightarrow> bep_error + ordering" where
  "compare a b =
     rbind (sorted_unique a) (\<lambda>a_sorted.
     rbind (sorted_unique b) (\<lambda>b_sorted.
       Inr (case compare_loop a_sorted b_sorted False False of
              (False, False) \<Rightarrow> Equal
            | (True, False) \<Rightarrow> Greater
            | (False, True) \<Rightarrow> Less
            | (True, True) \<Rightarrow> Concurrent)))"

text \<open>\<open>sum\<close> on \<open>u64\<close>: release builds wrap around.\<close>

definition total :: "vector \<Rightarrow> bep_error + u64" where
  "total v = rbind (sorted_unique v) (\<lambda>_. Inr (sum_list (map cnt_value (counters v))))"

definition version_total :: "file_info \<Rightarrow> bep_error + u64" where
  "version_total f = (case fi_version f of None \<Rightarrow> Inr 0 | Some v \<Rightarrow> total v)"

definition resolve_conflict ::
  "file_info \<Rightarrow> device_id \<Rightarrow> file_info \<Rightarrow> device_id \<Rightarrow> bep_error + file_info \<times> file_info" where
  "resolve_conflict a a_device b b_device =
     rbind (version_total a) (\<lambda>a_total.
     rbind (version_total b) (\<lambda>b_total.
       if a_total \<noteq> b_total then Inr (if a_total > b_total then (a, b) else (b, a))
       else if fi_deleted a \<noteq> fi_deleted b then Inr (if \<not> fi_deleted a then (a, b) else (b, a))
       else Inr (if a_device > b_device then (a, b) else (b, a))))"

type_synonym resolver =
  "file_info \<Rightarrow> device_id \<Rightarrow> file_info \<Rightarrow> device_id \<Rightarrow> bep_error + conflict_resolution"

definition backup_resolver :: resolver where
  "backup_resolver local local_device remote remote_device =
     rbind (resolve_conflict local local_device remote remote_device) (\<lambda>(w, l).
       Inr \<lparr>winner = w, loser = l, loser_path = Some (fi_name l @ ''.sync-conflict'')\<rparr>)"

definition theirs_resolver :: resolver where
  "theirs_resolver local local_device remote remote_device =
     Inr \<lparr>winner = remote, loser = local, loser_path = None\<rparr>"

section \<open>Sorting and duplicates\<close>

definition dup_ids :: "vector \<Rightarrow> bool" where
  "dup_ids v \<longleftrightarrow> \<not> distinct (map cnt_id (counters v))"

abbreviation strictly_sorted :: "counter list \<Rightarrow> bool" where
  "strictly_sorted cs \<equiv> sorted_wrt (<) (map cnt_id cs)"

lemma sorted_neighbours:
  "sorted (map cnt_id cs) \<Longrightarrow> \<not> has_equal_neighbours cs \<longleftrightarrow> strictly_sorted cs"
  by (induction cs rule: has_equal_neighbours.induct) fastforce+

lemma sorted_unique_cases:
  "sorted_unique v =
     (if dup_ids v then Inl (PeerBadMessage ''duplicate counter id in version vector'')
      else Inr (sort_key cnt_id (counters v)))"
proof -
  let ?s = "sort_key cnt_id (counters v)"
  have "distinct (map cnt_id ?s) \<longleftrightarrow> \<not> dup_ids v"
    by (simp add: dup_ids_def distinct_map)
  moreover have "sorted (map cnt_id ?s)" by simp
  ultimately have "\<not> has_equal_neighbours ?s \<longleftrightarrow> \<not> dup_ids v"
    by (simp add: sorted_neighbours strict_sorted_iff)
  then show ?thesis by (auto simp: sorted_unique_def Let_def)
qed

lemma sort_key_strictly_sorted:
  "\<not> dup_ids v \<Longrightarrow> strictly_sorted (sort_key cnt_id (counters v))"
  using sorted_unique_cases [of v] sorted_neighbours [of "sort_key cnt_id (counters v)"]
  by (auto simp: sorted_unique_def Let_def split: if_splits)

section \<open>The loop computes the pointwise order\<close>

fun value_at :: "counter list \<Rightarrow> u64 \<Rightarrow> u64" where
  "value_at [] i = 0"
| "value_at (c # cs) i = (if cnt_id c = i then cnt_value c else value_at cs i)"

definition counter_of :: "vector \<Rightarrow> u64 \<Rightarrow> u64" where
  "counter_of v i = value_at (counters v) i"

lemma value_at_absent: "i \<notin> cnt_id ` set cs \<Longrightarrow> value_at cs i = 0"
  by (induction cs) auto

lemma value_at_mem: "distinct (map cnt_id cs) \<Longrightarrow> c \<in> set cs \<Longrightarrow> value_at cs (cnt_id c) = cnt_value c"
  by (induction cs) force+

lemma value_at_cong:
  assumes "distinct (map cnt_id cs)" "distinct (map cnt_id ds)" "set cs = set ds"
  shows "value_at cs i = value_at ds i"
  using assms by (metis imageE value_at_absent value_at_mem)

lemma value_at_Cons_upd: "value_at (c # cs) = (value_at cs)(cnt_id c := cnt_value c)"
  by auto

text \<open>Two functions updated at one point where the first was not below the second.\<close>

lemma ex_less_upd:
  fixes f g :: "'i \<Rightarrow> 'v::linorder"
  assumes "\<not> g k < f k"
  shows "(\<exists>i. (g(k := y)) i < (f(k := x)) i) \<longleftrightarrow> y < x \<or> (\<exists>i. g i < f i)"
  using assms by (metis fun_upd_other fun_upd_same)

lemma ex_less_upd_left:
  fixes f g :: "'i \<Rightarrow> 'v::linorder"
  shows "\<not> g k < f k \<Longrightarrow> (\<exists>i. (g(k := y)) i < f i) \<longleftrightarrow> y < f k \<or> (\<exists>i. g i < f i)"
  using ex_less_upd [of g k f y "f k"] by simp

lemma ex_less_upd_right:
  fixes f g :: "'i \<Rightarrow> 'v::linorder"
  shows "\<not> g k < f k \<Longrightarrow> (\<exists>i. g i < (f(k := x)) i) \<longleftrightarrow> g k < x \<or> (\<exists>i. g i < f i)"
  using ex_less_upd [of g k f "g k" x] by simp

lemma any_positive_iff:
  "strictly_sorted cs \<Longrightarrow> any_positive cs d \<longleftrightarrow> d \<or> (\<exists>i. 0 < value_at cs i)"
proof (induction cs arbitrary: d)
  case Nil
  then show ?case by simp
next
  case (Cons c cs)
  have "value_at cs (cnt_id c) = 0" using Cons.prems by (intro value_at_absent) auto
  then have "(\<exists>i. 0 < value_at (c # cs) i) \<longleftrightarrow> 0 < cnt_value c \<or> (\<exists>i. 0 < value_at cs i)"
    unfolding value_at_Cons_upd
    using ex_less_upd_right [of "\<lambda>_. 0" "cnt_id c" "value_at cs" "cnt_value c"] by simp
  with Cons show ?case by auto
qed

lemma head_absent:
  assumes "strictly_sorted (c # cs)" and "i \<le> cnt_id c"
  shows "value_at cs i = 0" and "i < cnt_id c \<Longrightarrow> value_at (c # cs) i = 0"
  using assms by (fastforce intro!: value_at_absent)+

lemma compare_loop_iff:
  "strictly_sorted as \<Longrightarrow> strictly_sorted bs \<Longrightarrow>
   compare_loop as bs d e =
     (d \<or> (\<exists>i. value_at bs i < value_at as i), e \<or> (\<exists>i. value_at as i < value_at bs i))"
proof (induction as bs d e rule: compare_loop.induct)
  case (1 ac as bc bs d e)
  note sorted = "1.prems"
  consider (eq) "cnt_id ac = cnt_id bc" | (less) "cnt_id ac < cnt_id bc"
    | (greater) "cnt_id bc < cnt_id ac" by fastforce
  then show ?case
  proof cases
    case eq
    then have "value_at as (cnt_id bc) = 0" "value_at bs (cnt_id bc) = 0"
      using head_absent sorted by auto
    then have "(\<exists>i. value_at (bc # bs) i < value_at (ac # as) i)
        \<longleftrightarrow> cnt_value bc < cnt_value ac \<or> (\<exists>i. value_at bs i < value_at as i)"
      and "(\<exists>i. value_at (ac # as) i < value_at (bc # bs) i)
        \<longleftrightarrow> cnt_value ac < cnt_value bc \<or> (\<exists>i. value_at as i < value_at bs i)"
      unfolding value_at_Cons_upd eq by (simp_all add: ex_less_upd del: fun_upd_apply)
    then show ?thesis using eq "1.IH"(1-3) sorted by auto
  next
    case less
    then have z: "value_at as (cnt_id ac) = 0" "value_at (bc # bs) (cnt_id ac) = 0"
      using head_absent sorted by (auto simp del: value_at.simps)
    then have "(\<exists>i. value_at (bc # bs) i < value_at (ac # as) i)
        \<longleftrightarrow> 0 < cnt_value ac \<or> (\<exists>i. value_at (bc # bs) i < value_at as i)"
      and "(\<exists>i. value_at (ac # as) i < value_at (bc # bs) i)
        \<longleftrightarrow> (\<exists>i. value_at as i < value_at (bc # bs) i)"
      unfolding value_at_Cons_upd [of ac as]
      by (simp_all add: ex_less_upd_left ex_less_upd_right del: fun_upd_apply value_at.simps)
    then show ?thesis using less "1.IH"(4) sorted by auto
  next
    case greater
    then have z: "value_at bs (cnt_id bc) = 0" "value_at (ac # as) (cnt_id bc) = 0"
      using head_absent sorted by (auto simp del: value_at.simps)
    then have "(\<exists>i. value_at (bc # bs) i < value_at (ac # as) i)
        \<longleftrightarrow> (\<exists>i. value_at bs i < value_at (ac # as) i)"
      and "(\<exists>i. value_at (ac # as) i < value_at (bc # bs) i)
        \<longleftrightarrow> 0 < cnt_value bc \<or> (\<exists>i. value_at (ac # as) i < value_at bs i)"
      unfolding value_at_Cons_upd [of bc bs]
      by (simp_all add: ex_less_upd_left ex_less_upd_right del: fun_upd_apply value_at.simps)
    moreover have ne: "cnt_id ac \<noteq> cnt_id bc" "\<not> cnt_id ac < cnt_id bc" using greater by auto
    moreover have "strictly_sorted bs" using sorted(2) by simp
    ultimately show ?thesis using "1.IH"(5) sorted(1) by (simp del: value_at.simps)
  qed
qed (simp_all add: any_positive_iff)

lemma sort_value_at:
  "\<not> dup_ids v \<Longrightarrow> value_at (sort_key cnt_id (counters v)) i = counter_of v i"
  unfolding counter_of_def dup_ids_def by (rule value_at_cong) (auto simp: distinct_map)

text \<open>The specification: the pointwise order of two functions.\<close>

definition pointwise_order :: "(u64 \<Rightarrow> u64) \<Rightarrow> (u64 \<Rightarrow> u64) \<Rightarrow> ordering" where
  "pointwise_order f g =
     (if \<exists>i. g i < f i then (if \<exists>i. f i < g i then Concurrent else Greater)
      else (if \<exists>i. f i < g i then Less else Equal))"

lemma compare_pointwise:
  "compare a b =
     (if dup_ids a \<or> dup_ids b
      then Inl (PeerBadMessage ''duplicate counter id in version vector'')
      else Inr (pointwise_order (counter_of a) (counter_of b)))"
proof (cases "dup_ids a \<or> dup_ids b")
  case True
  then show ?thesis by (auto simp: compare_def sorted_unique_cases)
next
  case False
  then have "compare_loop (sort_key cnt_id (counters a)) (sort_key cnt_id (counters b)) False False
      = (\<exists>i. counter_of b i < counter_of a i, \<exists>i. counter_of a i < counter_of b i)"
    by (simp add: compare_loop_iff sort_key_strictly_sorted sort_value_at)
  with False show ?thesis
    by (auto simp: compare_def sorted_unique_cases pointwise_order_def)
qed

fun flip :: "ordering \<Rightarrow> ordering" where
  "flip Greater = Less"
| "flip Less = Greater"
| "flip Equal = Equal"
| "flip Concurrent = Concurrent"

lemma pointwise_order_flip: "pointwise_order g f = flip (pointwise_order f g)"
  by (simp add: pointwise_order_def)

lemma pointwise_order_iff:
  "pointwise_order f g = Equal \<longleftrightarrow> f = g"
  "pointwise_order f g = Greater \<longleftrightarrow> g \<le> f \<and> f \<noteq> g"
  "pointwise_order f g = Less \<longleftrightarrow> f \<le> g \<and> f \<noteq> g"
  by (auto simp: pointwise_order_def le_fun_def not_less antisym fun_eq_iff)
    (metis antisym less_imp_le not_less)+

text \<open>
  C12. \<open>compare\<close> is the pointwise order of version vectors: it fails exactly when one of the
  vectors lists a counter id twice, and otherwise answers \<open>Equal\<close> when the vectors agree on
  every counter, \<open>Greater\<close> or \<open>Less\<close> when one dominates the other and they differ, and
  \<open>Concurrent\<close> when neither dominates; counters absent from a vector count as 0 and the
  order of the counters in the message does not matter.
\<close>

theorem compare_spec:
  "(\<exists>e. compare a b = Inl e) = (dup_ids a \<or> dup_ids b) \<and>
   (compare a b = Inr Equal) = (\<not> dup_ids a \<and> \<not> dup_ids b \<and> counter_of a = counter_of b) \<and>
   (compare a b = Inr Greater) =
     (\<not> dup_ids a \<and> \<not> dup_ids b \<and> counter_of b \<le> counter_of a \<and> counter_of a \<noteq> counter_of b) \<and>
   (compare a b = Inr Less) =
     (\<not> dup_ids a \<and> \<not> dup_ids b \<and> counter_of a \<le> counter_of b \<and> counter_of a \<noteq> counter_of b) \<and>
   compare b a = map_sum id flip (compare a b)"
  unfolding compare_pointwise [of a b] compare_pointwise [of b a]
  using pointwise_order_iff [of "counter_of a" "counter_of b"]
    pointwise_order_flip [of "counter_of b" "counter_of a"]
  by auto

section \<open>Conflict resolution\<close>

lemma version_total_error:
  "version_total f = Inl e \<Longrightarrow> e = PeerBadMessage ''duplicate counter id in version vector''"
  by (auto simp: version_total_def total_def sorted_unique_cases split: option.splits if_splits)

text \<open>
  C13. The tie-breaking strategy does not depend on which side evaluates it: for two different
  devices, exchanging the two versions (with their devices) gives the same winner and the
  same loser, so the two peers of a conflict agree.
\<close>

theorem resolve_conflict_symmetric:
  assumes "a_device \<noteq> b_device"
  shows "resolve_conflict a a_device b b_device = resolve_conflict b b_device a a_device"
  using assms version_total_error
  by (cases "version_total a"; cases "version_total b")
    (auto simp: resolve_conflict_def rbind_def)

theorem resolve_conflict_symmetric_witness:
  "\<forall>a b. resolve_conflict a ''A'' b ''B'' = resolve_conflict b ''B'' a ''A''"
  using resolve_conflict_symmetric [of "''A''" "''B''"] by simp

end
