(* ===== verification/FolderApi.thy ===== *)
theory FolderApi
  imports StoreProps Conflict
begin

text \<open>
  The handle of a folder that the protocol engine works with: \<open>SlateFolder\<close> of
  \<open>bepository-storage/src/api.rs\<close>, which implements the trait \<open>StorageFolder\<close> of
  \<open>bepository-bep/src/storage.rs\<close> on the folder store.  A handle is the record
  \<open>slate_folder\<close>; the store it shares is the state of the operations.
\<close>

section \<open>The handle and its operations\<close>

record slate_folder =
  sfo_id :: bytes
  sfo_label :: bytes
  sfo_epoch :: "epoch option"

record bep_remote_state =
  rs_index_id :: u64
  rs_max_sequence :: i64

datatype update_result =
    NeedBlocks file_info
  | NoAction
  | Applied file_info
  | ConcurrentEdit file_info file_info

definition blocks_equal :: "file_info \<Rightarrow> file_info \<Rightarrow> bool" where
  "blocks_equal a b \<longleftrightarrow>
     length (fi_blocks a) = length (fi_blocks b) \<and>
     list_all (\<lambda>(ba, bb). bi_hash ba = bi_hash bb \<and> bi_size ba = bi_size bb)
       (zip (fi_blocks a) (fi_blocks b))"

definition require_epoch :: "slate_folder \<Rightarrow> storage_error + epoch" where
  "require_epoch fo =
     (case sfo_epoch fo of
        None \<Rightarrow> Inl (Standby ''epoch not set: call activate() before this operation'')
      | Some e \<Rightarrow> Inr e)"

definition stage_and_request_blocks ::
  "('d, 'v) slate \<Rightarrow> ('v, 'b) lib \<Rightarrow> epoch \<Rightarrow> file_info \<Rightarrow>
   (('d, 'b) folder_store, storage_error, update_result) op" where
  "stage_and_request_blocks db lib epoch remote_file =
     bnd (stage_file db lib epoch remote_file) (\<lambda>_. ok (NeedBlocks remote_file))"

definition slate_index ::
  "('d, 'v) slate \<Rightarrow> ('v, 'b) lib \<Rightarrow> i64 \<Rightarrow>
   (('d, 'b) folder_store, storage_error, file_info list) op" where
  "slate_index db lib since = (if since = 0 then all_files db lib else files_since db lib since)"

definition slate_read_block ::
  "('d, 'v) slate \<Rightarrow> ('v, 'b) lib \<Rightarrow> bytes \<Rightarrow> i64 \<Rightarrow> i32 \<Rightarrow> bytes \<Rightarrow>
   (('d, 'b) folder_store, storage_error, bytes) op" where
  "slate_read_block db lib name offset sz hash = read_block db lib name hash"

definition apply_update ::
  "('d, 'v) slate \<Rightarrow> ('v, 'b) lib \<Rightarrow> slate_folder \<Rightarrow> file_info \<Rightarrow> device_id \<Rightarrow>
   (('d, 'b) folder_store, storage_error, update_result) op" where
  "apply_update db lib fo remote_file remote_device =
     bnd (lift_res (validate_file_name (fi_name remote_file))) (\<lambda>_.
     bnd (lift_res (map_sum (\<lambda>e. InvalidInput (bep_error_text e)) id (validate_file_info remote_file))) (\<lambda>_.
     bnd (lift_res (require_epoch fo)) (\<lambda>epoch.
     bnd (get_file db lib (fi_name remote_file)) (\<lambda>local_file. case local_file of
       None \<Rightarrow> stage_and_request_blocks db lib epoch remote_file
     | Some local \<Rightarrow>
         (case fi_version local of
            None \<Rightarrow> stage_and_request_blocks db lib epoch remote_file
          | Some lv \<Rightarrow>
              (case fi_version remote_file of
                 None \<Rightarrow> stage_and_request_blocks db lib epoch remote_file
               | Some rv \<Rightarrow>
                   bnd (lift_res (map_sum (\<lambda>e. Corruption (bep_error_text e)) id (compare lv rv))) (\<lambda>ord.
                     if ord = Greater \<or> ord = Equal then ok NoAction
                     else if ord = Concurrent then ok (ConcurrentEdit local remote_file)
                     else if blocks_equal local remote_file then
                       bnd (put_file db lib remote_file) (\<lambda>seq.
                         ok (Applied (remote_file\<lparr>fi_sequence := seq\<rparr>)))
                     else stage_and_request_blocks db lib epoch remote_file)))))))"

definition slate_complete_file ::
  "('d, 'v) slate \<Rightarrow> ('v, 'b) lib \<Rightarrow> slate_folder \<Rightarrow> bytes \<Rightarrow> vector option \<Rightarrow>
   (('d, 'b) folder_store, storage_error, file_info option) op" where
  "slate_complete_file db lib fo name expected_version =
     bnd (lift_res (require_epoch fo)) (\<lambda>epoch. complete_file db lib epoch name expected_version)"

definition slate_resolve_conflict ::
  "('d, 'v) slate \<Rightarrow> ('v, 'b) lib \<Rightarrow> file_info \<Rightarrow> file_info \<Rightarrow> bytes option \<Rightarrow>
   (('d, 'b) folder_store, storage_error, unit) op" where
  "slate_resolve_conflict db lib win lose path =
     bnd (case path of
            None \<Rightarrow> ok ()
          | Some p \<Rightarrow>
              bnd (put_file_with_carry db lib (lose\<lparr>fi_name := p\<rparr>) (fi_name lose)) (\<lambda>_. ok ())) (\<lambda>_.
     bnd (put_file db lib win) (\<lambda>_. ok ()))"

definition slate_local_sequence ::
  "('d, 'v) slate \<Rightarrow> ('v, 'b) lib \<Rightarrow> (('d, 'b) folder_store, storage_error, i64) op" where
  "slate_local_sequence db lib = bnd (get_index_meta db lib) (\<lambda>meta. ok (fm_max_sequence meta))"

definition slate_remote_state ::
  "('d, 'v) slate \<Rightarrow> ('v, 'b) lib \<Rightarrow> device_id \<Rightarrow>
   (('d, 'b) folder_store, storage_error, bep_remote_state) op" where
  "slate_remote_state db lib device =
     bnd (get_remote_state db lib device) (\<lambda>proto.
       ok \<lparr>rs_index_id = ri_index_id proto, rs_max_sequence = ri_max_sequence proto\<rparr>)"

definition slate_set_remote_state ::
  "('d, 'v) slate \<Rightarrow> ('v, 'b) lib \<Rightarrow> device_id \<Rightarrow> bep_remote_state \<Rightarrow>
   (('d, 'b) folder_store, storage_error, unit) op" where
  "slate_set_remote_state db lib device state =
     put_remote_state db lib device
       \<lparr>ri_index_id = rs_index_id state, ri_max_sequence = rs_max_sequence state\<rparr>"

definition slate_store_block ::
  "('d, 'v) slate \<Rightarrow> ('v, 'b) lib \<Rightarrow> slate_folder \<Rightarrow> bytes \<Rightarrow> i64 \<Rightarrow> bytes \<Rightarrow> bytes \<Rightarrow>
   (('d, 'b) folder_store, storage_error, unit) op" where
  "slate_store_block db lib fo name offset hash data = store_block db lib (sfo_epoch fo) name hash data"

definition slate_reuse_block ::
  "('d, 'v) slate \<Rightarrow> ('v, 'b) lib \<Rightarrow> slate_folder \<Rightarrow> bytes \<Rightarrow> i64 \<Rightarrow> bytes \<Rightarrow> i32 \<Rightarrow>
   (('d, 'b) folder_store, storage_error, bool) op" where
  "slate_reuse_block db lib fo name offset hash sz =
     (if is_inline_block sz then ok False else reuse_block db lib (sfo_epoch fo) name hash)"

section \<open>What an update does\<close>

text \<open>The outcome on the abstract state, by the pointwise order of the version vectors.\<close>

definition stages :: "astore \<Rightarrow> epoch \<Rightarrow> file_info \<Rightarrow> storage_error + update_result \<Rightarrow> astore \<Rightarrow> bool" where
  "stages a e f r a' \<longleftrightarrow> r = Inr (NeedBlocks f) \<and>
     a' = a\<lparr>a_inbox := (a_inbox a)((e, fi_name f) \<mapsto> s_of_file_info f)\<rparr>"

definition same_content :: "s_file_info \<Rightarrow> file_info \<Rightarrow> bool" where
  "same_content old f \<longleftrightarrow>
     map (\<lambda>b. (sb_hash b, sb_size b)) (sf_blocks old) = map (\<lambda>b. (bi_hash b, bi_size b)) (fi_blocks f)"

definition update_outcome ::
  "astore \<Rightarrow> epoch \<Rightarrow> file_info \<Rightarrow> storage_error + update_result \<Rightarrow> astore \<Rightarrow> bool" where
  "update_outcome a e f r a' \<longleftrightarrow>
     (case a_files a (fi_name f) of
        None \<Rightarrow> stages a e f r a'
      | Some old \<Rightarrow>
          (case map_option b_of_vector (sf_version old) of
             None \<Rightarrow> stages a e f r a'
           | Some lv \<Rightarrow>
               (case fi_version f of
                  None \<Rightarrow> stages a e f r a'
                | Some rv \<Rightarrow>
                    if dup_ids lv \<or> dup_ids rv then (\<exists>msg. r = Inl (Corruption msg)) \<and> a' = a
                    else if counter_of rv \<le> counter_of lv then r = Inr NoAction \<and> a' = a
                    else if \<not> counter_of lv \<le> counter_of rv then
                      r = Inr (ConcurrentEdit (bep_of old) f) \<and> a' = a
                    else if same_content old f then
                      r = Inr (Applied (f\<lparr>fi_sequence := max_seq a + 1\<rparr>)) \<and>
                      a' = a_commit (fi_name f) (s_of_file_info f) a
                    else stages a e f r a')))"

lemma blocks_equal_iff:
  "blocks_equal a b \<longleftrightarrow>
     map (\<lambda>b. (bi_hash b, bi_size b)) (fi_blocks a) = map (\<lambda>b. (bi_hash b, bi_size b)) (fi_blocks b)"
proof -
  have "blocks_equal a b \<longleftrightarrow>
      list_all2 (\<lambda>x y. (bi_hash x, bi_size x) = (bi_hash y, bi_size y)) (fi_blocks a) (fi_blocks b)"
    by (simp add: blocks_equal_def list_all2_iff list_all_iff)
  then show ?thesis by (simp only: list_all2_eq list_all2_map1 list_all2_map2)
qed

lemma blocks_equal_content:
  "ok_type (sf_type old) \<Longrightarrow> blocks_equal (bep_of old) f \<longleftrightarrow> same_content old f"
  by (simp add: blocks_equal_iff same_content_def bep_of_sel b_of_block_info_def comp_def)

lemma compare_cases:
  assumes "\<not> dup_ids a" "\<not> dup_ids b"
  obtains (le) ord where "compare a b = Inr ord" "ord = Greater \<or> ord = Equal" "counter_of b \<le> counter_of a"
  | (less) "compare a b = Inr Less" "\<not> counter_of b \<le> counter_of a" "counter_of a \<le> counter_of b"
  | (concurrent) "compare a b = Inr Concurrent" "\<not> counter_of b \<le> counter_of a" "\<not> counter_of a \<le> counter_of b"
  using assms compare_pointwise [of a b] pointwise_order_iff [of "counter_of a" "counter_of b"]
  by (cases "pointwise_order (counter_of a) (counter_of b)") (auto simp: pointwise_order_def le_fun_def not_le split: if_splits)

lemma stage_outcome:
  assumes "codec_laws lib" and "store_inv lib C c" and "good_name (fi_name f)" and "wf_epoch e"
    and run: "stage_and_request_blocks map_slate lib e f c = (r, c')"
  shows "store_inv lib C c'" "stages (ast lib c) e f r (ast lib c')"
proof -
  obtain d where "stage_file map_slate lib e f c = (Inr (), d)" "store_inv lib C d"
    "ast lib d = (ast lib c)\<lparr>a_inbox := (a_inbox (ast lib c))((e, fi_name f) \<mapsto> s_of_file_info f)\<rparr>"
    by (rule stage_file_map [OF assms(1-4)])
  with run show "store_inv lib C c'" "stages (ast lib c) e f r (ast lib c')"
    by (auto simp: stage_and_request_blocks_def run_simps stages_def)
qed

text \<open>The part of \<open>apply_update\<close> after the lookup of the local file.\<close>

definition decide_update ::
  "('d, 'v) slate \<Rightarrow> ('v, 'b) lib \<Rightarrow> epoch \<Rightarrow> file_info \<Rightarrow> file_info \<Rightarrow>
   (('d, 'b) folder_store, storage_error, update_result) op" where
  "decide_update db lib epoch remote_file local =
         (case fi_version local of
            None \<Rightarrow> stage_and_request_blocks db lib epoch remote_file
          | Some lv \<Rightarrow>
              (case fi_version remote_file of
                 None \<Rightarrow> stage_and_request_blocks db lib epoch remote_file
               | Some rv \<Rightarrow>
                   bnd (lift_res (map_sum (\<lambda>e. Corruption (bep_error_text e)) id (compare lv rv))) (\<lambda>ord.
                     if ord = Greater \<or> ord = Equal then ok NoAction
                     else if ord = Concurrent then ok (ConcurrentEdit local remote_file)
                     else if blocks_equal local remote_file then
                       bnd (put_file db lib remote_file) (\<lambda>seq.
                         ok (Applied (remote_file\<lparr>fi_sequence := seq\<rparr>)))
                     else stage_and_request_blocks db lib epoch remote_file)))"

lemma apply_update_steps:
  assumes "good_name (fi_name f)" and "sfo_epoch fo = Some e" and "validate_file_info f = Inr ()"
  shows "apply_update db lib fo f dev =
    bnd (get_file db lib (fi_name f)) (\<lambda>local_file. case local_file of
      None \<Rightarrow> stage_and_request_blocks db lib e f
    | Some local \<Rightarrow> decide_update db lib e f local)"
proof -
  have "validate_file_name (fi_name f) = Inr ()"
    using assms(1) by (simp add: good_name_def valid_name_def)
  with assms(2,3) show ?thesis
    unfolding apply_update_def decide_update_def by (simp add: require_epoch_def bnd_def op_simps fun_eq_iff)
qed

lemma decide_update_map:
  assumes "codec_laws lib" and "store_inv lib C c" and "good_name (fi_name f)" and "wf_epoch e"
    and "max_seq (ast lib c) < i64_max" and old: "a_files (ast lib c) (fi_name f) = Some old"
    and eq: "decide_update map_slate lib e f (bep_of old) c = (r, c')"
  shows "store_inv lib C c' \<and> update_outcome (ast lib c) e f r (ast lib c')"
proof -
  note stage = stage_outcome [OF assms(1-4)]
  have t: "ok_type (sf_type old)" using idx_invD(3) [OF store_invD(2) [OF assms(2)] old] .
  note sel = bep_of_sel(3) [OF t]
  show ?thesis
  proof (cases "sf_version old = None \<or> fi_version f = None")
    case True
    then have "stage_and_request_blocks map_slate lib e f c = (r, c')"
      using eq by (auto simp: decide_update_def sel split: option.splits)
    with stage True old show ?thesis by (auto simp: update_outcome_def split: option.splits)
  next
    case False
    then obtain sv rv where v: "sf_version old = Some sv" "fi_version f = Some rv" by auto
    let ?lv = "b_of_vector sv"
    note eq = eq [unfolded decide_update_def sel v option.simps]
    show ?thesis
    proof (cases "dup_ids ?lv \<or> dup_ids rv")
      case True
      then show ?thesis using old v assms(2) eq
        by (auto simp: update_outcome_def compare_pointwise bnd_def op_simps)
    next
      case False
      then have "\<not> dup_ids ?lv" "\<not> dup_ids rv" by simp_all
      then show ?thesis
      proof (cases rule: compare_cases)
        case le
        then show ?thesis using old v False assms(2) eq by (auto simp: update_outcome_def bnd_def op_simps)
      next
        case concurrent
        then show ?thesis using old v False assms(2) eq by (auto simp: update_outcome_def bnd_def op_simps)
      next
        case less
        show ?thesis
        proof (cases "same_content old f")
          case True
          obtain d where "put_file map_slate lib f c = (Inr (max_seq (ast lib c) + 1), d)" "store_inv lib C d"
            "ast lib d = a_commit (fi_name f) (s_of_file_info f) (ast lib c)"
            by (rule put_file_map [OF assms(1-3,5)])
          with old v False less True eq show ?thesis
            by (auto simp: update_outcome_def blocks_equal_content [OF t] bnd_def op_simps)
        next
          case new: False
          with less eq have "stage_and_request_blocks map_slate lib e f c = (r, c')"
            by (simp add: blocks_equal_content [OF t] bnd_def op_simps)
          with stage old v False less new show ?thesis by (simp add: update_outcome_def)
        qed
      qed
    qed
  qed
qed

lemma apply_update_map:
  assumes "codec_laws lib" and "store_inv lib C c" and "good_name (fi_name f)" and "wf_epoch e"
    and "sfo_epoch fo = Some e" and "validate_file_info f = Inr ()" and "max_seq (ast lib c) < i64_max"
    and eq: "apply_update map_slate lib fo f dev c = (r, c')"
  shows "store_inv lib C c' \<and> update_outcome (ast lib c) e f r (ast lib c')"
proof -
  note get = get_file_map [OF store_invD(1) [OF assms(2)] assms(3)]
  note eq = eq [unfolded apply_update_steps [OF assms(3,5,6)] bnd_def get]
  show ?thesis
  proof (cases "a_files (ast lib c) (fi_name f)")
    case None
    then have "stage_and_request_blocks map_slate lib e f c = (r, c')" using eq by simp
    with stage_outcome [OF assms(1-4)] None show ?thesis by (simp add: update_outcome_def)
  next
    case (Some old)
    have "ok_type (sf_type old)" using idx_invD(3) [OF store_invD(2) [OF assms(2)] Some] .
    with Some eq have "decide_update map_slate lib e f (bep_of old) c = (r, c')"
      by (simp add: b_of_file_info_ok)
    then show ?thesis by (rule decide_update_map [OF assms(1-4,7) Some])
  qed
qed

lemma simw_stage:
  assumes "slate_laws db A" and "I c"
  shows "simw (store_view A) c I (stage_and_request_blocks db lib e f) (stage_and_request_blocks map_slate lib e f)"
  unfolding stage_and_request_blocks_def
  by (intro simw_then simw_ops sim_rules assms) (simp add: op_simps)

lemma simw_decide:
  assumes "slate_laws db A" and "I c"
  shows "simw (store_view A) c I (decide_update db lib e f l) (decide_update map_slate lib e f l)"
proof -
  have put: "simw (store_view A) c I
      (bnd (put_file db lib f) (\<lambda>seq. ok (Applied (f\<lparr>fi_sequence := seq\<rparr>))))
      (bnd (put_file map_slate lib f) (\<lambda>seq. ok (Applied (f\<lparr>fi_sequence := seq\<rparr>))))"
    by (intro simw_then simw_ops sim_rules assms) (simp add: op_simps)
  show ?thesis unfolding decide_update_def
    by (intro simw_rules sim_rules still_rules simw_stage put assms)
qed

lemma simw_apply_update:
  assumes "slate_laws db A" and "I c" and "good_name (fi_name f)" and "sfo_epoch fo = Some e"
    and "validate_file_info f = Inr ()"
  shows "simw (store_view A) c I (apply_update db lib fo f dev) (apply_update map_slate lib fo f dev)"
  unfolding apply_update_steps [OF assms(3-5)]
  by (intro simw_rules sim_rules still_rules simw_stage simw_decide assms(1,2))

text \<open>
  C31. What the announcement of a file by a peer does to a folder, on every branch.  A bad name, a
  bad block list and a folder without an epoch are refused without a change.  A file the folder
  does not have, or whose version is not known on one side, is staged and its blocks are asked
  for.  Otherwise the pointwise order of the two version vectors decides: nothing happens when the
  local version is at least the remote one, a conflict is reported when neither dominates, and a
  dominating remote version is committed at once when its blocks are the local ones and staged
  when they are not.
\<close>

theorem apply_update_spec:
  assumes "slate_laws db A" and "codec_laws lib" and "store_run db lib A C s"
    and "utf8_valid (fi_name f)" and "\<And>e. sfo_epoch fo = Some e \<Longrightarrow> wf_epoch e" and "max_seq (st lib A s) < i64_max"
    and run: "apply_update db lib fo f dev s = (r, t)"
  shows "db_failed r \<or>
    (case validate_file_name (fi_name f) of
       Inl x \<Rightarrow> r = Inl x \<and> t = s
     | Inr _ \<Rightarrow>
         (case validate_file_info f of
            Inl x \<Rightarrow> r = Inl (InvalidInput (bep_error_text x)) \<and> t = s
          | Inr _ \<Rightarrow>
              (case sfo_epoch fo of
                 None \<Rightarrow> (\<exists>msg. r = Inl (Standby msg)) \<and> t = s
               | Some e \<Rightarrow> update_outcome (st lib A s) e f r (st lib A t))))"
proof -
  note inv = store_run_inv [OF assms(1-3)]
  consider (bad) x where "validate_file_name (fi_name f) = Inl x"
    | (bad_info) x where "validate_file_name (fi_name f) = Inr ()" "validate_file_info f = Inl x"
    | (standby) "validate_file_name (fi_name f) = Inr ()" "validate_file_info f = Inr ()" "sfo_epoch fo = None"
    | (fine) e where "validate_file_name (fi_name f) = Inr ()" "validate_file_info f = Inr ()" "sfo_epoch fo = Some e"
    by (cases "validate_file_name (fi_name f)"; cases "validate_file_info f"; cases "sfo_epoch fo") auto
  then show ?thesis
  proof cases
    case fine
    have good: "good_name (fi_name f)" using fine(1) assms(4) by (simp add: good_name_def valid_name_def)
    obtain r' c' where map: "apply_update map_slate lib fo f dev (store_view A s) = (r', c')" by fastforce
    have max: "max_seq (ast lib (store_view A s)) < i64_max" using assms(6) by simp
    have out: "store_inv lib C c'" "update_outcome (ast lib (store_view A s)) e f r' (ast lib c')"
      using apply_update_map [OF assms(2) inv good assms(5) [OF fine(3)] fine(3,2) max map] by simp_all
    have "db_failed r \<or> r = r' \<and> A (fs_db t) = fs_db c'"
      using write_cases [OF simw_apply_update [where I = "store_inv lib C", OF assms(1) inv good fine(3,2)] map out(1)] run
      by auto
    with out(2) fine show ?thesis by auto
  qed (use run in \<open>auto simp: apply_update_def bnd_def op_simps require_epoch_def\<close>)
qed

theorem apply_update_spec_witness:
  "fst (apply_update rbt_slate tagged_lib \<lparr>sfo_id = ''f'', sfo_label = [], sfo_epoch = Some epoch0\<rparr> file0 [] store3)
     = Inr (NeedBlocks file0) \<or>
   db_failed (fst (apply_update rbt_slate tagged_lib \<lparr>sfo_id = ''f'', sfo_label = [], sfo_epoch = Some epoch0\<rparr> file0 [] store3))"
proof -
  let ?fo = "\<lparr>sfo_id = ''f'', sfo_label = [], sfo_epoch = Some epoch0\<rparr>"
  have u: "utf8_valid (fi_name file0)" "validate_file_name (fi_name file0) = Inr ()"
    using name0_good by (simp_all add: good_name_def valid_name_def)
  have v: "validate_file_info file0 = Inr ()"
    by (simp add: file0_def default_file_info_def validate_file_info_def hash0_def MAX_BLOCK_SIZE_def
        i64_checked_add_def in_i64_def i64_max_def i64_min_def)
  have m: "max_seq (at store3) < i64_max" by (simp add: at3 i64_max_def)
  have n: "sf_version staged2 = None" by (simp add: staged2_def s_of_file_info_def)
  show ?thesis
    using apply_update_spec [OF example_laws run3 u(1) _ m prod.collapse [symmetric], of ?fo "[]"] u(2) v n
    by (auto simp: update_outcome_def stages_def at3)
qed

end
