(* ===== verification/Meta.thy ===== *)
theory Meta
  imports Base32 Errors
begin

text \<open>
  The metadata file of a repository and its folder registry: \<open>bepository-storage/src/meta.rs\<close> and
  the closures that \<open>bepository-storage/src/api.rs\<close> passes to \<open>modify_meta\<close>.  A \<open>BTreeMap\<close> is
  the list of its entries in key order.  Durations are nanoseconds.
\<close>

section \<open>Data\<close>

record folder_entry =
  fe_id :: bytes
  fe_label :: bytes

record meta_identity =
  mi_cert_der :: bytes
  mi_key_der :: bytes

record checkpoint_schedule =
  cs_ttl :: nat

record meta =
  m_format_version :: u32
  m_next_folder_key :: u64
  m_identity :: "meta_identity option"
  m_folders :: "(bytes \<times> folder_entry) list"
  m_checkpoint :: "(nat \<times> checkpoint_schedule) list"

definition SUPPORTED_FORMAT_VERSION :: u32 where
  "SUPPORTED_FORMAT_VERSION = 1"

definition META_PREFIX :: bytes where "META_PREFIX = ''bepository-''"

definition META_SUFFIX :: bytes where "META_SUFFIX = ''.toml''"

definition meta_default :: meta where
  "meta_default = \<lparr>m_format_version = SUPPORTED_FORMAT_VERSION, m_next_folder_key = 0,
     m_identity = None, m_folders = [], m_checkpoint = []\<rparr>"

text \<open>\<open>BTreeMap::insert\<close> and \<open>BTreeMap::remove\<close> on the sorted entries.\<close>

fun btree_insert :: "'k::linorder \<Rightarrow> 'v \<Rightarrow> ('k \<times> 'v) list \<Rightarrow> ('k \<times> 'v) list" where
  "btree_insert k v [] = [(k, v)]"
| "btree_insert k v ((k', v') # kvs) =
     (if k < k' then (k, v) # (k', v') # kvs
      else if k = k' then (k, v) # kvs
      else (k', v') # btree_insert k v kvs)"

definition btree_remove :: "'k \<Rightarrow> ('k \<times> 'v) list \<Rightarrow> ('k \<times> 'v) list" where
  "btree_remove k kvs = filter (\<lambda>kv. fst kv \<noteq> k) kvs"

section \<open>Folders\<close>

definition has_folder :: "meta \<Rightarrow> bytes \<Rightarrow> bool" where
  "has_folder m i \<longleftrightarrow> list_ex (\<lambda>(_, e). fe_id e = i) (m_folders m)"

definition folder_ids :: "meta \<Rightarrow> bytes list" where
  "folder_ids m = map (\<lambda>(_, e). fe_id e) (m_folders m)"

text \<open>\<open>to_base32(id).expect(..)\<close>: the panic ends the request with an internal error.\<close>

definition folder_key :: "u64 \<Rightarrow> storage_error + bytes" where
  "folder_key i = map_sum (\<lambda>_. Internal ''folder id exceeds 40-bit base32 limit'') id (to_base32 i)"

definition folder_storage_key :: "bytes \<Rightarrow> bytes" where
  "folder_storage_key key = ''folder_'' @ key"

text \<open>A new entry under the next key.\<close>

definition add_folder :: "bytes \<Rightarrow> bytes \<Rightarrow> meta \<Rightarrow> storage_error + bytes \<times> meta" where
  "add_folder i label m =
     rbind (folder_key (m_next_folder_key m)) (\<lambda>key.
       Inr (key, m\<lparr>m_next_folder_key := m_next_folder_key m + 1,
         m_folders := btree_insert key \<lparr>fe_id = i, fe_label = label\<rparr> (m_folders m)\<rparr>))"

definition register_in_meta :: "bytes \<Rightarrow> bytes \<Rightarrow> meta \<Rightarrow> storage_error + bytes \<times> meta" where
  "register_in_meta i label m =
     (if has_folder m i then Inl (InvalidInput ''folder already registered'')
      else rbind (add_folder i label m) (\<lambda>(key, m). Inr (folder_storage_key key, m)))"

text \<open>\<open>values_mut().find(..)\<close> and the new label: the first entry with the id.\<close>

fun set_label :: "bytes \<Rightarrow> bytes \<Rightarrow> (bytes \<times> folder_entry) list \<Rightarrow> (bytes \<times> folder_entry) list" where
  "set_label i label [] = []"
| "set_label i label ((k, e) # kvs) =
     (if fe_id e = i then (k, e\<lparr>fe_label := label\<rparr>) # kvs else (k, e) # set_label i label kvs)"

fun ensure_in_meta :: "(bytes \<times> bytes) list \<Rightarrow> meta \<Rightarrow> storage_error + bool list \<times> meta" where
  "ensure_in_meta [] m = Inr ([], m)"
| "ensure_in_meta ((i, label) # fs) m =
     (if has_folder m i then
        rbind (ensure_in_meta fs (m\<lparr>m_folders := set_label i label (m_folders m)\<rparr>)) (\<lambda>(created, m).
          Inr (False # created, m))
      else
        rbind (add_folder i label m) (\<lambda>(_, m).
        rbind (ensure_in_meta fs m) (\<lambda>(created, m). Inr (True # created, m))))"

definition remove_from_meta :: "bytes \<Rightarrow> meta \<Rightarrow> meta" where
  "remove_from_meta i m =
     (case find (\<lambda>(_, e). fe_id e = i) (m_folders m) of
        Some (k, _) \<Rightarrow> m\<lparr>m_folders := btree_remove k (m_folders m)\<rparr>
      | None \<Rightarrow> m)"

section \<open>Checkpoint schedules\<close>

definition secs :: "nat \<Rightarrow> nat" where
  "secs n = n * 1000000000"

definition default_checkpoints :: "(nat \<times> checkpoint_schedule) list" where
  "default_checkpoints =
     [(secs 3600, \<lparr>cs_ttl = secs (24 * 3600)\<rparr>), (secs (24 * 3600), \<lparr>cs_ttl = secs (7 * 24 * 3600)\<rparr>)]"

definition schedule_in_meta :: "nat \<Rightarrow> checkpoint_schedule option \<Rightarrow> meta \<Rightarrow> meta" where
  "schedule_in_meta interval schedule m =
     m\<lparr>m_checkpoint := (case schedule of
        Some s \<Rightarrow> btree_insert interval s (m_checkpoint m)
      | None \<Rightarrow> btree_remove interval (m_checkpoint m))\<rparr>"

definition default_checkpoints_in_meta :: "meta \<Rightarrow> meta" where
  "default_checkpoints_in_meta m =
     (if m_checkpoint m = [] then m\<lparr>m_checkpoint := default_checkpoints\<rparr> else m)"

section \<open>The registry\<close>

text \<open>The in-memory view: the metadata and a table from folder ids, built from it.\<close>

record meta_state =
  mt_meta :: meta
  mt_registry :: "(bytes \<times> bytes \<times> bytes) list"

text \<open>\<open>LinearMap::insert\<close> overwrites the value of a key in place.\<close>

fun linear_insert :: "'k \<Rightarrow> 'v \<Rightarrow> ('k \<times> 'v) list \<Rightarrow> ('k \<times> 'v) list" where
  "linear_insert k v [] = [(k, v)]"
| "linear_insert k v ((k', v') # kvs) =
     (if k' = k then (k', v) # kvs else (k', v') # linear_insert k v kvs)"

definition meta_state_from :: "meta \<Rightarrow> meta_state" where
  "meta_state_from m =
     \<lparr>mt_meta = m,
      mt_registry = foldl (\<lambda>reg (key, e). linear_insert (fe_id e) (folder_storage_key key, fe_label e) reg)
        [] (m_folders m)\<rparr>"

definition resolve_in :: "meta_state \<Rightarrow> bytes \<Rightarrow> storage_error + bytes \<times> bytes" where
  "resolve_in ms i =
     (case map_of (mt_registry ms) i of
        Some (sk, label) \<Rightarrow> Inr (sk, label)
      | None \<Rightarrow> Inl (NotFound ''folder not found in registry''))"

definition list_in :: "meta_state \<Rightarrow> (bytes \<times> bytes \<times> bytes) list" where
  "list_in ms = sort_key fst (map (\<lambda>(i, sk, label). (i, label, sk)) (mt_registry ms))"

definition folder_triples_from_meta :: "meta \<Rightarrow> (bytes \<times> bytes \<times> bytes) list" where
  "folder_triples_from_meta m =
     sort_key fst (map (\<lambda>(key, e). (fe_id e, fe_label e, folder_storage_key key)) (m_folders m))"

section \<open>Well-formed metadata\<close>

text \<open>Keys are in order and below the next one; no two entries have the same folder id.\<close>

definition meta_ok :: "meta \<Rightarrow> bool" where
  "meta_ok m \<longleftrightarrow>
     sorted_wrt (<) (map fst (m_folders m)) \<and> distinct (folder_ids m) \<and>
     (\<forall>k \<in> fst ` set (m_folders m). \<exists>i. to_base32 i = Inr k \<and> i < m_next_folder_key m)"

text \<open>The folders of the metadata: id, storage key and label.\<close>

definition folder_map :: "meta \<Rightarrow> bytes \<rightharpoonup> bytes \<times> bytes" where
  "folder_map m = map_of (map (\<lambda>(k, e). (fe_id e, folder_storage_key k, fe_label e)) (m_folders m))"

lemma to_base32_inj: "to_base32 i = Inr k \<Longrightarrow> to_base32 j = Inr k \<Longrightarrow> i = j"
  using to_base32_mono [of i k j k] to_base32_mono [of j k i k] by (metis less_irrefl linorder_neqE)

lemma set_btree_insert:
  "k \<notin> fst ` set kvs \<Longrightarrow> set (btree_insert k v kvs) = insert (k, v) (set kvs)"
  by (induction kvs) (auto simp: image_iff split: if_splits)

lemma keys_btree_insert: "fst ` set (btree_insert k v kvs) = insert k (fst ` set kvs)"
  by (induction k v kvs rule: btree_insert.induct) (simp_all add: insert_commute)

lemma sorted_btree_insert:
  "sorted_wrt (<) (map fst kvs) \<Longrightarrow> sorted_wrt (<) (map fst (btree_insert k v kvs))"
proof (induction kvs)
  case (Cons kv kvs)
  have "set (map fst (btree_insert k v kvs)) = insert k (set (map fst kvs))"
    using keys_btree_insert [of k v kvs] by simp
  with Cons show ?case by (cases kv) (fastforce intro: order.strict_trans)
qed simp

lemma distinct_btree_insert:
  "k \<notin> fst ` set kvs \<Longrightarrow> distinct (map f (btree_insert k v kvs)) \<longleftrightarrow>
     distinct (map f kvs) \<and> f (k, v) \<notin> f ` set kvs"
proof (induction kvs)
  case (Cons kv kvs)
  obtain k' v' where kv: "kv = (k', v')" by fastforce
  show ?case
  proof (cases "k < k'")
    case False
    with Cons.prems kv have "k' < k" "k \<notin> fst ` set kvs" by auto
    with Cons.IH kv set_btree_insert [of k kvs v] show ?thesis by auto
  qed (use kv in auto)
qed simp

lemma has_folder_iff: "has_folder m i \<longleftrightarrow> i \<in> set (folder_ids m)"
  by (force simp: has_folder_def folder_ids_def list_ex_iff)

lemma folder_map_dom: "dom (folder_map m) = set (folder_ids m)"
  by (force simp: folder_map_def folder_ids_def dom_map_of_conv_image_fst)

lemma has_folder_map: "has_folder m i \<longleftrightarrow> folder_map m i \<noteq> None"
  by (simp add: has_folder_iff folder_map_dom [symmetric] domIff)

lemma folder_map_iff:
  assumes "distinct (folder_ids m)"
  shows "folder_map m i = Some x \<longleftrightarrow>
    (\<exists>k e. (k, e) \<in> set (m_folders m) \<and> fe_id e = i \<and> x = (folder_storage_key k, fe_label e))"
proof -
  have "map fst (map (\<lambda>(k, e). (fe_id e, folder_storage_key k, fe_label e)) (m_folders m)) = folder_ids m"
    by (simp add: folder_ids_def comp_def case_prod_beta)
  with assms show ?thesis unfolding folder_map_def
    by (subst map_of_eq_Some_iff) (force simp: image_iff)+
qed

lemma storage_key_eq: "folder_storage_key a = folder_storage_key b \<longleftrightarrow> a = b"
  by (simp add: folder_storage_key_def)

text \<open>No two folders share a storage key.\<close>

lemma storage_keys_distinct:
  assumes "meta_ok m" "folder_map m i = Some (sk, l)" "folder_map m j = Some (sk, l')"
  shows "i = j"
proof -
  have d: "distinct (folder_ids m)" "distinct (map fst (m_folders m))"
    using assms(1) by (auto simp: meta_ok_def strict_sorted_iff)
  obtain k e k' e' where "(k, e) \<in> set (m_folders m)" "fe_id e = i" "(k', e') \<in> set (m_folders m)" "fe_id e' = j" "k = k'"
    using assms(2,3) unfolding folder_map_iff [OF d(1)] by (auto simp: storage_key_eq)
  then show ?thesis using d(2) by (metis eq_key_imp_eq_value)
qed

lemma map_sum_Inr [simp]: "map_sum f id r = Inr x \<longleftrightarrow> r = Inr x"
  by (cases r) auto

lemma meta_ok_default: "meta_ok meta_default"
  by (simp add: meta_ok_def meta_default_def folder_ids_def)

lemma folder_map_upd:
  assumes "distinct (folder_ids m')" "distinct (folder_ids m)"
    and "\<And>j x. (\<exists>k e. (k, e) \<in> set (m_folders m') \<and> fe_id e = j \<and> x = (folder_storage_key k, fe_label e)) \<longleftrightarrow>
      (if j = i then x = y
       else \<exists>k e. (k, e) \<in> set (m_folders m) \<and> fe_id e = j \<and> x = (folder_storage_key k, fe_label e))"
  shows "folder_map m' = (folder_map m)(i \<mapsto> y)"
proof
  fix j
  have "folder_map m' j = Some x \<longleftrightarrow> ((folder_map m)(i \<mapsto> y)) j = Some x" for x
    using folder_map_iff [OF assms(1), of j x] folder_map_iff [OF assms(2), of j x] assms(3) [of j x]
    by (simp add: eq_commute)
  then show "folder_map m' j = ((folder_map m)(i \<mapsto> y)) j" by (metis option.exhaust)
qed

lemma add_folder_ok:
  assumes ok: "meta_ok m" and new: "\<not> has_folder m i" and add: "add_folder i l m = Inr (key, m')"
  shows "meta_ok m'" "folder_map m' = (folder_map m)(i \<mapsto> (folder_storage_key key, l))"
    "to_base32 (m_next_folder_key m) = Inr key" "m_next_folder_key m' = m_next_folder_key m + 1"
    "key \<notin> fst ` set (m_folders m)"
proof -
  let ?e = "\<lparr>fe_id = i, fe_label = l\<rparr>"
  show key: "to_base32 (m_next_folder_key m) = Inr key" and nxt: "m_next_folder_key m' = m_next_folder_key m + 1"
    using add by (auto simp: add_folder_def folder_key_def rbind_Inr)
  have m': "m_folders m' = btree_insert key ?e (m_folders m)"
    using add key by (auto simp: add_folder_def folder_key_def)
  show fresh: "key \<notin> fst ` set (m_folders m)"
    using ok key to_base32_inj unfolding meta_ok_def by blast
  have less: "j < m_next_folder_key m + 1" if "j < m_next_folder_key m \<or> j = m_next_folder_key m" for j
  proof -
    have "unat (m_next_folder_key m) < 32 ^ 8"
      using to_base32_InrD [OF key] by auto
    with that show ?thesis by (auto simp: word_less_nat_alt unat_word_ariths)
  qed
  have ids: "distinct (folder_ids m)" "distinct (folder_ids m')"
    using ok new fresh distinct_btree_insert [OF fresh, of "\<lambda>(_, e). fe_id e" ?e]
    by (auto simp: meta_ok_def folder_ids_def m' has_folder_def list_ex_iff)
  have "\<exists>j. to_base32 j = Inr k \<and> j < m_next_folder_key m + 1" if "k = key \<or> k \<in> fst ` set (m_folders m)" for k
    using that ok key less unfolding meta_ok_def by blast
  then show "meta_ok m'"
    using ok ids(2) sorted_btree_insert [of "m_folders m" key ?e]
    unfolding meta_ok_def m' nxt keys_btree_insert by simp
  show "folder_map m' = (folder_map m)(i \<mapsto> (folder_storage_key key, l))"
  proof (rule folder_map_upd [OF ids(2,1)])
    fix j x
    have old: "fe_id e \<noteq> i" if "(k, e) \<in> set (m_folders m)" for k e
      using new that by (auto simp: has_folder_def list_ex_iff)
    show "(\<exists>k e. (k, e) \<in> set (m_folders m') \<and> fe_id e = j \<and> x = (folder_storage_key k, fe_label e)) \<longleftrightarrow>
      (if j = i then x = (folder_storage_key key, l)
       else \<exists>k e. (k, e) \<in> set (m_folders m) \<and> fe_id e = j \<and> x = (folder_storage_key k, fe_label e))"
    proof -
      have "(\<exists>k e. (k, e) \<in> insert (key, ?e) S \<and> P k e) \<longleftrightarrow> P key ?e \<or> (\<exists>k e. (k, e) \<in> S \<and> P k e)"
        for S and P :: "bytes \<Rightarrow> folder_entry \<Rightarrow> bool" by blast
      moreover have "\<not> (\<exists>k e. (k, e) \<in> set (m_folders m) \<and> fe_id e = j \<and> x = (folder_storage_key k, fe_label e))" if "j = i"
        using that old by blast
      ultimately show ?thesis unfolding m' set_btree_insert [OF fresh] by auto
    qed
  qed
qed

text \<open>A new label changes nothing else.\<close>

lemma set_label_keys [simp]: "map fst (set_label i l kvs) = map fst kvs"
  by (induction kvs) auto

lemma set_label_ids [simp]: "map (\<lambda>(_, e). fe_id e) (set_label i l kvs) = map (\<lambda>(_, e). fe_id e) kvs"
  by (induction kvs) auto

lemma set_label_lookup:
  "map_of (map (\<lambda>(k, e). (fe_id e, folder_storage_key k, fe_label e)) (set_label i l kvs)) =
   (map_of (map (\<lambda>(k, e). (fe_id e, folder_storage_key k, fe_label e)) kvs))
     (i := map_option (\<lambda>x. (fst x, l)) (map_of (map (\<lambda>(k, e). (fe_id e, folder_storage_key k, fe_label e)) kvs) i))"
  by (induction i l kvs rule: set_label.induct) (auto simp: fun_eq_iff)

lemma relabel_ok:
  assumes ok: "meta_ok m" and i: "folder_map m i = Some (sk, l0)"
  shows "meta_ok (m\<lparr>m_folders := set_label i l (m_folders m)\<rparr>)"
    "folder_map (m\<lparr>m_folders := set_label i l (m_folders m)\<rparr>) = (folder_map m)(i \<mapsto> (sk, l))"
proof -
  have "fst ` set (set_label i l (m_folders m)) = fst ` set (m_folders m)" by (metis set_label_keys set_map)
  with ok show "meta_ok (m\<lparr>m_folders := set_label i l (m_folders m)\<rparr>)"
    by (simp add: meta_ok_def folder_ids_def)
  show "folder_map (m\<lparr>m_folders := set_label i l (m_folders m)\<rparr>) = (folder_map m)(i \<mapsto> (sk, l))"
    using i by (simp add: folder_map_def set_label_lookup)
qed

text \<open>What \<open>ensure_in_meta\<close> does to the folders of the metadata.\<close>

definition ensured ::
  "(bytes \<times> bytes) list \<Rightarrow> (bytes \<rightharpoonup> bytes \<times> bytes) \<Rightarrow> bool list \<Rightarrow> (bytes \<rightharpoonup> bytes \<times> bytes) \<Rightarrow> bool" where
  "ensured fs F created F' \<longleftrightarrow>
    length created = length fs \<and>
    (\<forall>n < length fs. created ! n \<longleftrightarrow> F (fst (fs ! n)) = None \<and> fst (fs ! n) \<notin> fst ` set (take n fs)) \<and>
    (\<forall>i. map_option snd (F' i) = (case map_of (rev fs) i of Some l \<Rightarrow> Some l | None \<Rightarrow> map_option snd (F i))) \<and>
    (\<forall>i sk l. F i = Some (sk, l) \<longrightarrow> map_option fst (F' i) = Some sk)"

lemma ensured_step:
  assumes IH: "ensured fs (F(i \<mapsto> (sk, l))) cs F'" and b: "b \<longleftrightarrow> F i = None"
    and same: "\<And>sk0 l0. F i = Some (sk0, l0) \<Longrightarrow> sk0 = sk"
  shows "ensured ((i, l) # fs) F (b # cs) F'"
  unfolding ensured_def
proof (intro conjI allI impI)
  fix n assume n: "n < length ((i, l) # fs)"
  show "(b # cs) ! n \<longleftrightarrow> F (fst (((i, l) # fs) ! n)) = None \<and>
      fst (((i, l) # fs) ! n) \<notin> fst ` set (take n ((i, l) # fs))"
  proof (cases n)
    case (Suc k)
    then have "cs ! k \<longleftrightarrow> (F(i \<mapsto> (sk, l))) (fst (fs ! k)) = None \<and> fst (fs ! k) \<notin> fst ` set (take k fs)"
      using IH n by (simp add: ensured_def)
    with Suc show ?thesis by (auto split: if_splits)
  qed (simp add: b)
next
  fix j
  have "map_option snd (F' j) = (case map_of (rev fs) j of Some l \<Rightarrow> Some l | None \<Rightarrow> map_option snd ((F(i \<mapsto> (sk, l))) j))"
    using IH by (simp add: ensured_def)
  then show "map_option snd (F' j) =
      (case map_of (rev ((i, l) # fs)) j of Some l \<Rightarrow> Some l | None \<Rightarrow> map_option snd (F j))"
    by (cases "map_of (rev fs) j") (auto simp: map_add_def)
next
  fix j sk0 l0 assume "F j = Some (sk0, l0)"
  with same IH show "map_option fst (F' j) = Some sk0" by (cases "j = i") (auto simp: ensured_def)
qed (use IH in \<open>simp add: ensured_def\<close>)

lemma ensure_in_meta_ok:
  assumes "ensure_in_meta fs m = Inr (created, m')" "meta_ok m"
  shows "meta_ok m' \<and> m_next_folder_key m \<le> m_next_folder_key m' \<and>
    ensured fs (folder_map m) created (folder_map m')"
  using assms
proof (induction fs m arbitrary: created m' rule: ensure_in_meta.induct)
  case (2 i l fs m)
  show ?case
  proof (cases "has_folder m i")
    case True
    let ?m = "m\<lparr>m_folders := set_label i l (m_folders m)\<rparr>"
    obtain sk l0 where sk: "folder_map m i = Some (sk, l0)" using True by (auto simp: has_folder_map)
    obtain cs where cs: "ensure_in_meta fs ?m = Inr (cs, m')" "created = False # cs"
      using "2.prems"(1) True by (auto simp: rbind_Inr)
    note rel = relabel_ok [OF "2.prems"(2) sk, of l]
    note IH = "2.IH"(1) [OF True cs(1) rel(1)]
    have "ensured ((i, l) # fs) (folder_map m) (False # cs) (folder_map m')"
      by (rule ensured_step [where sk = sk]) (use IH sk in \<open>simp_all only: rel(2), simp_all\<close>)
    with IH cs(2) show ?thesis by simp
  next
    case False
    obtain key m1 cs where cs: "add_folder i l m = Inr (key, m1)" "ensure_in_meta fs m1 = Inr (cs, m')" "created = True # cs"
      using "2.prems"(1) False by (auto simp: rbind_Inr)
    note add = add_folder_ok [OF "2.prems"(2) False cs(1)]
    have none: "folder_map m i = None" using False has_folder_map [of m i] by blast
    note IH = "2.IH"(2) [OF False cs(2) add(1)]
    have "ensured ((i, l) # fs) (folder_map m) (True # cs) (folder_map m')"
      by (rule ensured_step [where sk = "folder_storage_key key"])
        (use IH none in \<open>simp_all only: add(2), simp_all\<close>)
    moreover have "m_next_folder_key m \<le> m_next_folder_key m1"
      using to_base32_InrD(1) [OF add(3)] add(4) by (simp add: word_le_nat_alt unat_word_ariths)
    ultimately show ?thesis using IH cs(3) by (auto intro: order.trans)
  qed
qed (auto simp: ensured_def split: option.splits)

end
