(* ===== verification/Storage.thy ===== *)
theory Storage
  imports FolderApi Meta Lock
begin

text \<open>
  The storage of a repository: \<open>SlateStorage\<close> and \<open>Activated\<close> of
  \<open>bepository-storage/src/api.rs\<close>.  The state is the object store, and after the activation the
  epoch, the in-memory metadata and the open folder stores.  The object store, the TOML encoding,
  the opening and closing of a database and the decoding of an identity are parameters
  (\<open>storage_env\<close>).  Object paths are texts; a root object is one without a slash.  A listing under a
  prefix is the objects it yields and the error it may end with.
\<close>

section \<open>State\<close>

record ('o, 'v) root_store =
  ro_list :: "('o, os_error, bytes list) op"
  ro_under :: "bytes \<Rightarrow> 'o \<Rightarrow> (bytes list \<times> os_error option) \<times> 'o"
  ro_get :: "bytes \<Rightarrow> ('o, os_error, 'v) op"
  ro_put :: "bytes \<Rightarrow> 'v \<Rightarrow> ('o, os_error, unit) op"
  ro_delete :: "bytes \<Rightarrow> ('o, os_error, unit) op"

record ('o, 'v, 'd) storage_env =
  se_root :: "('o, 'v) root_store"
  se_enc :: "meta \<Rightarrow> 'v option"
  se_dec :: "'v \<Rightarrow> meta option"
  se_open :: "bytes \<Rightarrow> ('o, slate_error, 'd) op"
  se_close :: "('d, slate_error, unit) op"
  se_cache :: bool
  se_identity :: "meta_identity \<Rightarrow> string option"

record ('d, 'b) activated =
  ac_epoch :: epoch
  ac_stores :: "(bytes \<times> ('d, 'b) folder_store) list"
  ac_state :: meta_state
  ac_cache :: bool

record ('o, 'd, 'b) slate_storage =
  ss_objects :: 'o
  ss_activated :: "('d, 'b) activated option"

text \<open>A call of the object store, its error made transient.\<close>

definition on_root ::
  "string \<Rightarrow> ('o, os_error, 'a) op \<Rightarrow> (('o, 'd, 'b) slate_storage, storage_error, 'a) op" where
  "on_root what m s =
     (case m (ss_objects s) of (r, u) \<Rightarrow> (map_sum (\<lambda>_. TransientIo what) id r, s\<lparr>ss_objects := u\<rparr>))"

definition the_activated :: "(('o, 'd, 'b) slate_storage, storage_error, ('d, 'b) activated) op" where
  "the_activated s =
     (case ss_activated s of
        None \<Rightarrow> (Inl (Standby ''epoch not set: call activate() before this operation''), s)
      | Some act \<Rightarrow> (Inr act, s))"

definition set_activated ::
  "(('d, 'b) activated \<Rightarrow> ('d, 'b) activated) \<Rightarrow> (('o, 'd, 'b) slate_storage, storage_error, unit) op" where
  "set_activated f = mod_st (\<lambda>s. s\<lparr>ss_activated := map_option f (ss_activated s)\<rparr>)"

section \<open>The metadata file\<close>

definition meta_path :: "epoch \<Rightarrow> bytes" where
  "meta_path e = META_PREFIX @ as_base32 e @ META_SUFFIX"

definition is_meta_file :: "bytes \<Rightarrow> bool" where
  "is_meta_file name \<longleftrightarrow> prefix META_PREFIX name \<and> suffix META_SUFFIX name"

definition read_meta_at ::
  "('o, 'v, 'd) storage_env \<Rightarrow> bytes \<Rightarrow> (('o, 'd, 'b) slate_storage, storage_error, meta) op" where
  "read_meta_at env path s =
     (case ro_get (se_root env) path (ss_objects s) of
        (Inr v, u) \<Rightarrow> (case se_dec env v of
            None \<Rightarrow> Inl (Corruption ''parse meta TOML'') | Some m \<Rightarrow> Inr m, s\<lparr>ss_objects := u\<rparr>)
      | (Inl OsNotFound, u) \<Rightarrow> (Inr meta_default, s\<lparr>ss_objects := u\<rparr>)
      | (Inl _, u) \<Rightarrow> (Inl (TransientIo ''read meta''), s\<lparr>ss_objects := u\<rparr>))"

text \<open>The loop over the listing: the greatest path of a metadata file.\<close>

definition last_meta :: "bytes list \<Rightarrow> bytes option" where
  "last_meta paths =
     foldl (\<lambda>last p. if is_meta_file p
        then Some (case last of Some prev \<Rightarrow> if prev > p then prev else p | None \<Rightarrow> p)
        else last) None paths"

definition read_meta_unlocked ::
  "('o, 'v, 'd) storage_env \<Rightarrow> (('o, 'd, 'b) slate_storage, storage_error, meta) op" where
  "read_meta_unlocked env =
     bnd (on_root ''list meta files'' (ro_list (se_root env))) (\<lambda>paths.
       case last_meta paths of
         Some p \<Rightarrow> read_meta_at env p
       | None \<Rightarrow> ok meta_default)"

definition write_meta_to_disk ::
  "('o, 'v, 'd) storage_env \<Rightarrow> epoch \<Rightarrow> meta \<Rightarrow> (('o, 'd, 'b) slate_storage, storage_error, unit) op" where
  "write_meta_to_disk env e m =
     (case se_enc env (m\<lparr>m_format_version := SUPPORTED_FORMAT_VERSION\<rparr>) of
        None \<Rightarrow> err (Internal ''serialize meta'')
      | Some content \<Rightarrow> on_root ''write meta'' (ro_put (se_root env) (meta_path e) content))"

fun delete_metas ::
  "('o, 'v, 'd) storage_env \<Rightarrow> bytes \<Rightarrow> bytes list \<Rightarrow> (('o, 'd, 'b) slate_storage, storage_error, unit) op" where
  "delete_metas env current [] = ok ()"
| "delete_metas env current (p # ps) =
     (if p \<noteq> current \<and> is_meta_file p
      then bnd (on_root ''delete old meta'' (ro_delete (se_root env) p)) (\<lambda>_. delete_metas env current ps)
      else delete_metas env current ps)"

definition clean_meta ::
  "('o, 'v, 'd) storage_env \<Rightarrow> epoch \<Rightarrow> (('o, 'd, 'b) slate_storage, storage_error, unit) op" where
  "clean_meta env e =
     bnd (on_root ''list meta files'' (ro_list (se_root env))) (delete_metas env (meta_path e))"

definition modify_meta ::
  "('o, 'v, 'd) storage_env \<Rightarrow> (meta \<Rightarrow> storage_error + 'a \<times> meta) \<Rightarrow>
   (('o, 'd, 'b) slate_storage, storage_error, 'a) op" where
  "modify_meta env f =
     bnd the_activated (\<lambda>act.
     bnd (lift_res (f (mt_meta (ac_state act)))) (\<lambda>(result, new_meta).
     bnd (write_meta_to_disk env (ac_epoch act) new_meta) (\<lambda>_.
     bnd (set_activated (\<lambda>act. act\<lparr>ac_state := meta_state_from new_meta\<rparr>)) (\<lambda>_. ok result))))"

definition activate ::
  "('o, 'v, 'd) storage_env \<Rightarrow> epoch \<Rightarrow> (('o, 'd, 'b) slate_storage, storage_error, unit) op" where
  "activate env e =
     bnd (read_meta_unlocked env) (\<lambda>m.
       if m_format_version m > SUPPORTED_FORMAT_VERSION
       then err (UnsupportedVersion (m_format_version m) SUPPORTED_FORMAT_VERSION)
       else
         bnd (get_st ss_activated) (\<lambda>before.
           if before \<noteq> None then err (Internal ''activate() called more than once'')
           else
             bnd (mod_st (\<lambda>s. s\<lparr>ss_activated := Some \<lparr>ac_epoch = e, ac_stores = [],
                    ac_state = meta_state_from m, ac_cache = False\<rparr>\<rparr>)) (\<lambda>_.
             bnd (write_meta_to_disk env e m) (\<lambda>_. clean_meta env e))))"

section \<open>Identity and schedules\<close>

definition extract_identity ::
  "('o, 'v, 'd) storage_env \<Rightarrow> meta \<Rightarrow> storage_error + meta_identity option" where
  "extract_identity env m =
     (case m_identity m of
        None \<Rightarrow> Inr None
      | Some i \<Rightarrow> (case se_identity env i of Some msg \<Rightarrow> Inl (Corruption msg) | None \<Rightarrow> Inr (Some i)))"

definition get_identity ::
  "('o, 'v, 'd) storage_env \<Rightarrow> (('o, 'd, 'b) slate_storage, storage_error, meta_identity option) op" where
  "get_identity env = bnd the_activated (\<lambda>act. lift_res (extract_identity env (mt_meta (ac_state act))))"

definition get_identity_unlocked ::
  "('o, 'v, 'd) storage_env \<Rightarrow> (('o, 'd, 'b) slate_storage, storage_error, meta_identity option) op" where
  "get_identity_unlocked env = bnd (read_meta_unlocked env) (\<lambda>m. lift_res (extract_identity env m))"

definition put_identity ::
  "('o, 'v, 'd) storage_env \<Rightarrow> meta_identity \<Rightarrow> (('o, 'd, 'b) slate_storage, storage_error, unit) op" where
  "put_identity env i = modify_meta env (\<lambda>m. Inr ((), m\<lparr>m_identity := Some i\<rparr>))"

definition set_default_checkpoints ::
  "('o, 'v, 'd) storage_env \<Rightarrow> (('o, 'd, 'b) slate_storage, storage_error, unit) op" where
  "set_default_checkpoints env = modify_meta env (\<lambda>m. Inr ((), default_checkpoints_in_meta m))"

definition update_checkpoint_schedule ::
  "('o, 'v, 'd) storage_env \<Rightarrow> nat \<Rightarrow> checkpoint_schedule option \<Rightarrow>
   (('o, 'd, 'b) slate_storage, storage_error, unit) op" where
  "update_checkpoint_schedule env interval schedule =
     modify_meta env (\<lambda>m. Inr ((), schedule_in_meta interval schedule m))"

section \<open>Folder stores\<close>

text \<open>The shared cache is made once; with a cache provider it needs the identity.\<close>

definition get_shared_db_cache ::
  "('o, 'v, 'd) storage_env \<Rightarrow> (('o, 'd, 'b) slate_storage, storage_error, unit) op" where
  "get_shared_db_cache env =
     bnd the_activated (\<lambda>act.
       if ac_cache act then ok ()
       else
         bnd (if se_cache env
              then bnd (get_identity env) (\<lambda>i. case i of
                     None \<Rightarrow> err (Internal ''No identity found in storage'') | Some _ \<Rightarrow> ok ())
              else ok ()) (\<lambda>_.
         set_activated (\<lambda>act. act\<lparr>ac_cache := True\<rparr>)))"

definition open_folder_store ::
  "('o, 'v, 'd) storage_env \<Rightarrow> ('d, 'w) slate \<Rightarrow> ('w, 'b) lib \<Rightarrow> bytes \<Rightarrow>
   (('o, 'd, 'b) slate_storage, storage_error, ('d, 'b) folder_store) op" where
  "open_folder_store env db lib folder_sk =
     bnd (get_shared_db_cache env) (\<lambda>_ s.
       case se_open env folder_sk (ss_objects s) of
         (Inl _, u) \<Rightarrow> (Inl (TransientIo ''open slatedb''), s\<lparr>ss_objects := u\<rparr>)
       | (Inr d, u) \<Rightarrow> (folder_store_new db lib d compaction_state_new, s\<lparr>ss_objects := u\<rparr>))"

definition store_for_folder ::
  "('o, 'v, 'd) storage_env \<Rightarrow> ('d, 'w) slate \<Rightarrow> ('w, 'b) lib \<Rightarrow> bytes \<Rightarrow>
   (('o, 'd, 'b) slate_storage, storage_error, unit) op" where
  "store_for_folder env db lib folder_sk =
     bnd the_activated (\<lambda>act.
       case map_of (ac_stores act) folder_sk of
         Some _ \<Rightarrow> ok ()
       | None \<Rightarrow>
           bnd (open_folder_store env db lib folder_sk) (\<lambda>store.
             set_activated (\<lambda>act. act\<lparr>ac_stores := (folder_sk, store) # ac_stores act\<rparr>)))"

text \<open>An operation on the store a handle shares.  A store that has been closed and evicted
  answers as a closed database.\<close>

definition on_store ::
  "bytes \<Rightarrow> (('d, 'b) folder_store, storage_error, 'a) op \<Rightarrow> (('o, 'd, 'b) slate_storage, storage_error, 'a) op" where
  "on_store folder_sk m s =
     (case Option.bind (ss_activated s) (\<lambda>act. map_of (ac_stores act) folder_sk) of
        None \<Rightarrow> (Inl (TransientIo ''slatedb''), s)
      | Some fs \<Rightarrow>
          (case m fs of (r, fs') \<Rightarrow>
             (r, s\<lparr>ss_activated := map_option (\<lambda>act. act\<lparr>ac_stores :=
                map (\<lambda>(k, x). if k = folder_sk then (k, fs') else (k, x)) (ac_stores act)\<rparr>) (ss_activated s)\<rparr>)))"

definition list_folders ::
  "(('o, 'd, 'b) slate_storage, storage_error, (bytes \<times> bytes \<times> bytes) list) op" where
  "list_folders = bnd the_activated (\<lambda>act. ok (list_in (ac_state act)))"

definition list_folders_unlocked ::
  "('o, 'v, 'd) storage_env \<Rightarrow> (('o, 'd, 'b) slate_storage, storage_error, (bytes \<times> bytes \<times> bytes) list) op" where
  "list_folders_unlocked env = bnd (read_meta_unlocked env) (\<lambda>m. ok (folder_triples_from_meta m))"

definition resolve_folder :: "bytes \<Rightarrow> (('o, 'd, 'b) slate_storage, storage_error, bytes \<times> bytes) op" where
  "resolve_folder i = bnd the_activated (\<lambda>act. lift_res (resolve_in (ac_state act) i))"

definition register_folder ::
  "('o, 'v, 'd) storage_env \<Rightarrow> ('d, 'w) slate \<Rightarrow> ('w, 'b) lib \<Rightarrow> bytes \<Rightarrow> bytes \<Rightarrow>
   (('o, 'd, 'b) slate_storage, storage_error, bytes) op" where
  "register_folder env db lib i label =
     bnd (modify_meta env (register_in_meta i label)) (\<lambda>sk.
     bnd (store_for_folder env db lib sk) (\<lambda>_. ok sk))"

fun open_created ::
  "('o, 'v, 'd) storage_env \<Rightarrow> ('d, 'w) slate \<Rightarrow> ('w, 'b) lib \<Rightarrow> ((bytes \<times> bytes) \<times> bool) list \<Rightarrow>
   (('o, 'd, 'b) slate_storage, storage_error, unit) op" where
  "open_created env db lib [] = ok ()"
| "open_created env db lib (((i, label), created) # fs) =
     (if created
      then bnd (resolve_folder i) (\<lambda>(sk, _).
           bnd (store_for_folder env db lib sk) (\<lambda>_. open_created env db lib fs))
      else open_created env db lib fs)"

definition ensure_folders ::
  "('o, 'v, 'd) storage_env \<Rightarrow> ('d, 'w) slate \<Rightarrow> ('w, 'b) lib \<Rightarrow> (bytes \<times> bytes) list \<Rightarrow>
   (('o, 'd, 'b) slate_storage, storage_error, bool list) op" where
  "ensure_folders env db lib folders =
     (if folders = [] then ok []
      else
        bnd (modify_meta env (ensure_in_meta folders)) (\<lambda>created.
        bnd (open_created env db lib (zip folders created)) (\<lambda>_. ok created)))"

text \<open>The handle of a folder and the key of the store it shares.\<close>

definition folder ::
  "('o, 'v, 'd) storage_env \<Rightarrow> ('d, 'w) slate \<Rightarrow> ('w, 'b) lib \<Rightarrow> bytes \<Rightarrow>
   (('o, 'd, 'b) slate_storage, storage_error, slate_folder \<times> bytes) op" where
  "folder env db lib i =
     bnd the_activated (\<lambda>act.
     bnd (resolve_folder i) (\<lambda>(sk, label).
     bnd (store_for_folder env db lib sk) (\<lambda>_.
       ok (\<lparr>sfo_id = i, sfo_label = label, sfo_epoch = Some (ac_epoch act)\<rparr>, sk))))"

section \<open>Removal, inbox clean-up and shutdown\<close>

fun delete_objects ::
  "('o, 'v, 'd) storage_env \<Rightarrow> bytes list \<Rightarrow> (('o, 'd, 'b) slate_storage, storage_error, unit) op" where
  "delete_objects env [] = ok ()"
| "delete_objects env (p # ps) =
     bnd (on_root ''delete object'' (ro_delete (se_root env) p)) (\<lambda>_. delete_objects env ps)"

definition objects_under ::
  "('o, 'v, 'd) storage_env \<Rightarrow> bytes \<Rightarrow> (('o, 'd, 'b) slate_storage, storage_error, bytes list \<times> os_error option) op" where
  "objects_under env sk s = (case ro_under (se_root env) sk (ss_objects s) of (l, u) \<Rightarrow> (Inr l, s\<lparr>ss_objects := u\<rparr>))"

definition close_store ::
  "('o, 'v, 'd) storage_env \<Rightarrow> ('d, 'b) folder_store \<Rightarrow> storage_error + unit" where
  "close_store env fs = map_sum slate_err id (fst (se_close env (fs_db fs)))"

definition remove_folder ::
  "('o, 'v, 'd) storage_env \<Rightarrow> bytes \<Rightarrow> (('o, 'd, 'b) slate_storage, storage_error, unit) op" where
  "remove_folder env i =
     bnd the_activated (\<lambda>act.
     bnd (resolve_folder i) (\<lambda>(sk, _).
     bnd (case map_of (ac_stores act) sk of
            None \<Rightarrow> ok ()
          | Some fs \<Rightarrow>
              bnd (set_activated (\<lambda>act. act\<lparr>ac_stores := filter (\<lambda>x. fst x \<noteq> sk) (ac_stores act)\<rparr>)) (\<lambda>_.
                lift_res (close_store env fs))) (\<lambda>_.
     bnd (objects_under env sk) (\<lambda>(paths, failed).
     bnd (delete_objects env paths) (\<lambda>_.
       if failed \<noteq> None then err (TransientIo ''list objects for deletion'')
       else modify_meta env (\<lambda>m. Inr ((), remove_from_meta i m)))))))"

fun gc_inboxes ::
  "('o, 'v, 'd) storage_env \<Rightarrow> ('d, 'w) slate \<Rightarrow> ('w, 'b) lib \<Rightarrow> epoch \<Rightarrow> (bytes \<times> bytes \<times> bytes) list \<Rightarrow>
   (('o, 'd, 'b) slate_storage, storage_error, unit) op" where
  "gc_inboxes env db lib e [] = ok ()"
| "gc_inboxes env db lib e ((i, label, sk) # fs) =
     bnd (store_for_folder env db lib sk) (\<lambda>_.
     bnd (on_store sk (gc_inbox db e)) (\<lambda>n. gc_inboxes env db lib e fs))"

definition storage_gc_inbox ::
  "('o, 'v, 'd) storage_env \<Rightarrow> ('d, 'w) slate \<Rightarrow> ('w, 'b) lib \<Rightarrow>
   (('o, 'd, 'b) slate_storage, storage_error, unit) op" where
  "storage_gc_inbox env db lib =
     bnd the_activated (\<lambda>act.
     bnd list_folders (\<lambda>folders. gc_inboxes env db lib (ac_epoch act) folders))"

definition storage_close ::
  "('o, 'v, 'd) storage_env \<Rightarrow> (('o, 'd, 'b) slate_storage, storage_error, unit) op" where
  "storage_close env s =
     (case ss_activated s of
        None \<Rightarrow> (Inr (), s)
      | Some act \<Rightarrow>
          (case List.map_filter (\<lambda>(_, fs). case close_store env fs of Inl e \<Rightarrow> Some e | Inr _ \<Rightarrow> None) (ac_stores act) of
             [] \<Rightarrow> Inr () | e # _ \<Rightarrow> Inl e,
           s\<lparr>ss_activated := Some (act\<lparr>ac_stores := []\<rparr>)\<rparr>))"

end
