(* ===== verification/StorageProps.thy ===== *)
theory StorageProps
  imports Storage
begin

text \<open>
  The properties of the storage: the metadata survives an activation that fails anywhere, a
  writer of an earlier epoch is fenced off, and the folder registry stays well-formed.  The laws
  of the object store and of the encoding are the locale \<open>storage_laws\<close>; an object store that
  fails may or may not have done what it was asked.
\<close>

section \<open>The contract of the object store\<close>

locale root_laws =
  fixes root :: "('o, 'v) root_store" and V :: "'o \<Rightarrow> bytes \<rightharpoonup> 'v"
  assumes list_law: "ro_list root u = (r, w) \<Longrightarrow> V w = V u \<and>
      (\<forall>ps. r = Inr ps \<longrightarrow> set ps = {p \<in> dom (V u). CHR ''/'' \<notin> set p})"
    and under_law: "ro_under root d u = ((ps, x), w) \<Longrightarrow> V w = V u \<and>
      set ps \<subseteq> {p \<in> dom (V u). prefix (d @ ''/'') p} \<and> (x = None \<longrightarrow> set ps = {p \<in> dom (V u). prefix (d @ ''/'') p})"
    and get_law: "ro_get root p u = (r', w) \<Longrightarrow> V w = V u \<and>
      (\<forall>v. r' = Inr v \<longrightarrow> V u p = Some v) \<and> (r' = Inl OsNotFound \<longrightarrow> V u p = None)"
    and put_law: "ro_put root p v u = (fin, w) \<Longrightarrow> V w = (V u)(p \<mapsto> v) \<or> (\<exists>x. fin = Inl x) \<and> V w = V u"
    and delete_law: "ro_delete root p u = (fin, w) \<Longrightarrow> V w = (V u)(p := None) \<or> (\<exists>x. fin = Inl x) \<and> V w = V u"

locale storage_laws = root_laws "se_root env" V
  for env :: "('o, 'v, 'd) storage_env" and V :: "'o \<Rightarrow> bytes \<rightharpoonup> 'v" +
  assumes codec_law: "se_enc env m = Some v \<Longrightarrow> se_dec env v = Some m"
    and open_law: "se_open env d u = (r, w) \<Longrightarrow> CHR ''/'' \<notin> set p \<Longrightarrow> V w p = V u p"

text \<open>The object store in memory, with the metadata stored as it is.\<close>

type_synonym 'v objects = "(bytes \<times> 'v) list"

definition mem_root :: "('v objects, 'v) root_store" where
  "mem_root =
     \<lparr>ro_list = (\<lambda>u. (Inr (filter (\<lambda>p. CHR ''/'' \<notin> set p) (map fst u)), u)),
      ro_under = (\<lambda>d u. ((filter (prefix (d @ ''/'')) (map fst u), None), u)),
      ro_get = (\<lambda>p u. (case map_of u p of None \<Rightarrow> Inl OsNotFound | Some v \<Rightarrow> Inr v, u)),
      ro_put = (\<lambda>p v u. (Inr (), (p, v) # filter (\<lambda>x. fst x \<noteq> p) u)),
      ro_delete = (\<lambda>p u. (Inr (), filter (\<lambda>x. fst x \<noteq> p) u))\<rparr>"

definition mem_storage :: "(meta objects, meta, (bytes, tagged) RBT.rbt) storage_env" where
  "mem_storage =
     \<lparr>se_root = mem_root, se_enc = Some, se_dec = Some, se_open = (\<lambda>_ u. (Inr RBT.empty, u)),
      se_close = (\<lambda>d. (Inr (), d)), se_cache = False, se_identity = (\<lambda>_. None)\<rparr>"

lemma map_of_filter_ne: "map_of (filter (\<lambda>x. fst x \<noteq> p) u) = (map_of u)(p := None)"
  by (induction u) (auto simp: fun_eq_iff)

interpretation memr: root_laws mem_root map_of
  by unfold_locales
    (auto simp: mem_root_def map_of_filter_ne dom_map_of_conv_image_fst split: option.splits)

interpretation mems: storage_laws mem_storage map_of
  by unfold_locales (simp_all add: mem_storage_def memr.list_law memr.under_law memr.get_law memr.put_law memr.delete_law)

section \<open>The metadata on disk\<close>

definition meta_files :: "(bytes \<rightharpoonup> 'v) \<Rightarrow> bytes set" where
  "meta_files U = {p \<in> dom U. CHR ''/'' \<notin> set p \<and> is_meta_file p}"

text \<open>What a reader without the lock finds.\<close>

definition stored_meta :: "('v \<Rightarrow> meta option) \<Rightarrow> (bytes \<rightharpoonup> 'v) \<Rightarrow> meta option" where
  "stored_meta dec U =
     (if meta_files U = {} then Some meta_default else dec (the (U (Max (meta_files U)))))"

definition metas :: "bytes list \<Rightarrow> bytes set" where
  "metas ps = {q \<in> set ps. is_meta_file q}"

lemma metas_snoc: "metas (ps @ [p]) = (if is_meta_file p then insert p (metas ps) else metas ps)"
  by (auto simp: metas_def)

lemma last_meta_snoc: "last_meta (ps @ [p]) = (if is_meta_file p
   then Some (case last_meta ps of Some prev \<Rightarrow> if prev > p then prev else p | None \<Rightarrow> p) else last_meta ps)"
  by (simp add: last_meta_def)

lemma last_meta_Max: "last_meta ps = (if metas ps = {} then None else Some (Max (metas ps)))"
proof (induction ps rule: rev_induct)
  case (snoc p ps)
  have "finite (metas ps)" by (simp add: metas_def)
  then have "Max (insert p (metas ps)) = (if metas ps = {} then p else max p (Max (metas ps)))" by simp
  with snoc.IH show ?case by (auto simp: last_meta_snoc metas_snoc max_def)
qed (simp add: last_meta_def metas_def)

lemma meta_path_file [simp]: "is_meta_file (meta_path e)"
  by (simp add: is_meta_file_def meta_path_def suffix_appendI suffix_def)

lemma meta_path_root:
  assumes "wf_epoch e"
  shows "CHR ''/'' \<notin> set (meta_path e)"
proof -
  have "CHR ''/'' \<notin> set ALPHABET" by (simp add: ALPHABET_def)
  then have "CHR ''/'' \<notin> set (as_base32 e)"
    using to_base32_InrD(3) assms unfolding wf_epoch_iff as_base32_def by blast
  then show ?thesis by (simp add: meta_path_def META_PREFIX_def META_SUFFIX_def)
qed

lemma meta_path_less:
  assumes "wf_epoch e" "wf_epoch f"
  shows "meta_path e < meta_path f \<longleftrightarrow> epoch_less e f" "meta_path e = meta_path f \<longleftrightarrow> e = f"
proof -
  have "length (as_base32 e) = length (as_base32 f)"
    using assms wf_epoch_base32 by (simp add: as_base32_def)
  then show "meta_path e < meta_path f \<longleftrightarrow> epoch_less e f" "meta_path e = meta_path f \<longleftrightarrow> e = f"
    by (auto simp: meta_path_def list_less_append_same as_base32_less_iff [OF assms] epoch_text.enc_eq_iff [OF assms])
qed

lemma meta_files_upd:
  "CHR ''/'' \<notin> set p \<Longrightarrow> is_meta_file p \<Longrightarrow> meta_files (U(p \<mapsto> v)) = insert p (meta_files U)"
  by (auto simp: meta_files_def)

lemma meta_files_del: "meta_files (U |` (- D)) = meta_files U - D"
  by (auto simp: meta_files_def)

definition old_metas :: "bytes \<Rightarrow> bytes list \<Rightarrow> bytes set" where
  "old_metas cur ps = {p \<in> set ps. p \<noteq> cur \<and> is_meta_file p}"

lemma old_metas_Cons:
  "old_metas cur (p # ps) = (if p \<noteq> cur \<and> is_meta_file p then insert p (old_metas cur ps) else old_metas cur ps)"
  by (auto simp: old_metas_def)

section \<open>Steps\<close>

context storage_laws
begin

abbreviation disk :: "('o, 'e, 'b) slate_storage \<Rightarrow> bytes \<rightharpoonup> 'v" where
  "disk s \<equiv> V (ss_objects s)"

lemma read_meta_unlocked_spec:
  assumes "read_meta_unlocked env s = (r, t)"
  shows "disk t = disk s" "ss_activated t = ss_activated s"
    "r = Inr m \<Longrightarrow> finite (meta_files (disk s)) \<and> stored_meta (se_dec env) (disk s) = Some m"
proof -
  obtain l u where l: "ro_list (se_root env) (ss_objects s) = (l, u)" by fastforce
  note L = list_law [OF l]
  have "disk t = disk s \<and> ss_activated t = ss_activated s \<and>
      (r = Inr m \<longrightarrow> finite (meta_files (disk s)) \<and> stored_meta (se_dec env) (disk s) = Some m)"
  proof (cases l)
    case (Inl x)
    then show ?thesis using assms l L by (auto simp: read_meta_unlocked_def on_root_def bnd_def)
  next
    case (Inr ps)
    have files: "metas ps = meta_files (disk s)" using L Inr by (auto simp: meta_files_def metas_def)
    have fin: "finite (meta_files (disk s))" unfolding files [symmetric] by (simp add: metas_def)
    show ?thesis
    proof (cases "meta_files (disk s) = {}")
      case True
      then show ?thesis using assms l L Inr
        by (auto simp: read_meta_unlocked_def on_root_def bnd_def op_simps last_meta_Max files stored_meta_def)
    next
      case False
      let ?p = "Max (meta_files (disk s))"
      have "?p \<in> meta_files (disk s)" using fin False by (rule Max_in)
      then obtain x where x: "disk s ?p = Some x" by (auto simp: meta_files_def)
      obtain g w where g: "ro_get (se_root env) ?p u = (g, w)" by fastforce
      have run: "read_meta_at env ?p (s\<lparr>ss_objects := u\<rparr>) = (r, t)"
        using assms l Inr False by (simp add: read_meta_unlocked_def on_root_def bnd_def last_meta_Max files)
      have "V u = disk s" using L by simp
      with get_law [OF g] x have g': "V w = disk s" "g = Inr y \<Longrightarrow> y = x" "g \<noteq> Inl OsNotFound" for y by auto
      with run g x False fin show ?thesis
        by (cases g) (auto simp: read_meta_at_def stored_meta_def split: option.splits os_error.splits)
    qed
  qed
  then show "disk t = disk s" "ss_activated t = ss_activated s"
    "r = Inr m \<Longrightarrow> finite (meta_files (disk s)) \<and> stored_meta (se_dec env) (disk s) = Some m" by simp_all
qed

lemma write_meta_spec:
  assumes "write_meta_to_disk env e m s = (r, t)"
  obtains (same) x where "r = Inl x" "disk t = disk s" "ss_activated t = ss_activated s"
  | (written) v where "se_dec env v = Some (m\<lparr>m_format_version := SUPPORTED_FORMAT_VERSION\<rparr>)"
      "disk t = (disk s)(meta_path e \<mapsto> v)" "ss_activated t = ss_activated s"
proof (cases "se_enc env (m\<lparr>m_format_version := SUPPORTED_FORMAT_VERSION\<rparr>)")
  case None
  then have "r = Inl (Internal ''serialize meta'')" "t = s" using assms by (auto simp: write_meta_to_disk_def op_simps)
  with same show ?thesis by simp
next
  case (Some v)
  obtain p w where p: "ro_put (se_root env) (meta_path e) v (ss_objects s) = (p, w)" by fastforce
  then have t: "ss_activated t = ss_activated s" "disk t = V w" "r = map_sum (\<lambda>_. TransientIo ''write meta'') id p"
    using assms Some by (auto simp: write_meta_to_disk_def on_root_def)
  from put_law [OF p] show ?thesis
  proof
    assume "V w = (disk s)(meta_path e \<mapsto> v)"
    with written [OF codec_law [OF Some]] t show ?thesis by simp
  next
    assume "(\<exists>x. p = Inl x) \<and> V w = disk s"
    with same t show ?thesis by auto
  qed
qed

lemma delete_metas_spec:
  assumes "delete_metas env cur ps s = (r, t)"
  shows "\<exists>D. D \<subseteq> old_metas cur ps \<and> disk t = disk s |` (- D) \<and> ss_activated t = ss_activated s \<and>
    (r = Inr () \<longrightarrow> D = old_metas cur ps)"
  using assms
proof (induction ps arbitrary: s)
  case Nil
  then show ?case by (auto simp: op_simps old_metas_def)
next
  case (Cons p ps)
  show ?case
  proof (cases "p \<noteq> cur \<and> is_meta_file p")
    case False
    then show ?thesis using Cons.IH Cons.prems by (auto simp: old_metas_Cons)
  next
    case True
    then have eq: "old_metas cur (p # ps) = insert p (old_metas cur ps)" by (simp add: old_metas_Cons)
    obtain d w where d: "ro_delete (se_root env) p (ss_objects s) = (d, w)" by fastforce
    let ?s = "s\<lparr>ss_objects := w\<rparr>"
    have once: "(U(p := None)) |` (- D) = U |` (- insert p D)" for U :: "bytes \<rightharpoonup> 'v" and D
      by (auto simp: restrict_map_def fun_eq_iff)
    show ?thesis
    proof (cases d)
      case (Inl x)
      then have t: "r = Inl (TransientIo ''delete old meta'')" "t = ?s"
        using Cons.prems True d by (auto simp: on_root_def bnd_def)
      have all: "U |` (- {}) = U" for U :: "bytes \<rightharpoonup> 'v" by (simp add: restrict_map_def fun_eq_iff)
      have "V w = disk s |` (- {p}) \<or> V w = disk s |` (- {})"
        using delete_law [OF d] once [of "disk s" "{}"] unfolding all by metis
      then obtain D where "D \<subseteq> {p}" "V w = disk s |` (- D)" by blast
      then show ?thesis unfolding eq by (intro exI [of _ D]) (auto simp: t)
    next
      case (Inr x)
      then have run: "delete_metas env cur ps ?s = (r, t)" and w: "V w = (disk s)(p := None)"
        using Cons.prems True d delete_law [OF d] by (auto simp: on_root_def bnd_def)
      from Cons.IH [OF run] obtain D where "D \<subseteq> old_metas cur ps" "disk t = V w |` (- D)"
        "ss_activated t = ss_activated s" "r = Inr () \<longrightarrow> D = old_metas cur ps" by auto
      then show ?thesis unfolding eq w once by (intro exI [of _ "insert p D"]) blast
    qed
  qed
qed

text \<open>The steps of an activation after the metadata has been read.\<close>

lemma activate_writes:
  assumes run: "bnd (write_meta_to_disk env e m) (\<lambda>_. clean_meta env e) s = (r, t)"
  obtains (none) x where "r = Inl x" "disk t = disk s" "ss_activated t = ss_activated s"
  | (some) v D where "se_dec env v = Some (m\<lparr>m_format_version := SUPPORTED_FORMAT_VERSION\<rparr>)"
      "disk t = ((disk s)(meta_path e \<mapsto> v)) |` (- D)" "ss_activated t = ss_activated s"
      "meta_path e \<notin> D" "D \<subseteq> meta_files (disk s)"
      "r = Inr () \<Longrightarrow> D = meta_files (disk s) - {meta_path e}"
proof -
  obtain w s1 where w: "write_meta_to_disk env e m s = (w, s1)" by fastforce
  from w show ?thesis
  proof (cases rule: write_meta_spec)
    case (same x)
    with run w have "r = Inl x" "t = s1" by (auto simp: bnd_def)
    with same none show ?thesis by simp
  next
    case (written v)
    let ?U = "(disk s)(meta_path e \<mapsto> v)"
    show ?thesis
    proof (cases w)
      case (Inl x)
      with run w have "r = Inl x" "t = s1" by (auto simp: bnd_def)
      with written show ?thesis by (intro some [of v "{}"]) (auto simp: restrict_map_def fun_eq_iff)
    next
      case (Inr y)
      with run w have clean: "clean_meta env e s1 = (r, t)" by (simp add: bnd_def)
      obtain l u where l: "ro_list (se_root env) (ss_objects s1) = (l, u)" by fastforce
      note L = list_law [OF l]
      show ?thesis
      proof (cases l)
        case (Inl x)
        with clean l L have "r = Inl (TransientIo ''list meta files'')" "disk t = disk s1" "ss_activated t = ss_activated s1"
          by (auto simp: clean_meta_def on_root_def bnd_def)
        with written show ?thesis by (intro some [of v "{}"]) (auto simp: restrict_map_def fun_eq_iff)
      next
        case (Inr ps)
        with clean l have del: "delete_metas env (meta_path e) ps (s1\<lparr>ss_objects := u\<rparr>) = (r, t)"
          by (simp add: clean_meta_def on_root_def bnd_def)
        have old: "old_metas (meta_path e) ps = meta_files (disk s) - {meta_path e}"
          using L Inr written(2) by (auto simp: old_metas_def meta_files_def)
        from delete_metas_spec [OF del] obtain D where D: "D \<subseteq> old_metas (meta_path e) ps" "disk t = V u |` (- D)"
          "ss_activated t = ss_activated s1" "r = Inr () \<longrightarrow> D = old_metas (meta_path e) ps" by auto
        have "V u = ?U" using L written(2) by simp
        then show ?thesis using D written by (intro some [of v D]) (auto simp: old)
      qed
    qed
  qed
qed

lemma activate_disk:
  assumes run: "activate env e s = (r, t)" and fresh: "ss_activated s = None"
    and m: "stored_meta (se_dec env) (disk s) = Some m"
  shows "disk t = disk s \<and> (\<exists>x. r = Inl x) \<and> (ss_activated t = None \<or> m_format_version m \<le> SUPPORTED_FORMAT_VERSION) \<or>
    m_format_version m \<le> SUPPORTED_FORMAT_VERSION \<and> finite (meta_files (disk s)) \<and>
    ss_activated t = Some \<lparr>ac_epoch = e, ac_stores = [], ac_state = meta_state_from m, ac_cache = False\<rparr> \<and>
    (\<exists>v D. se_dec env v = Some (m\<lparr>m_format_version := SUPPORTED_FORMAT_VERSION\<rparr>) \<and>
      disk t = ((disk s)(meta_path e \<mapsto> v)) |` (- D) \<and> meta_path e \<notin> D \<and> D \<subseteq> meta_files (disk s) \<and>
      (r = Inr () \<longrightarrow> D = meta_files (disk s) - {meta_path e}))"
proof -
  obtain q s1 where q: "read_meta_unlocked env s = (q, s1)" by fastforce
  note R = read_meta_unlocked_spec [OF q]
  show ?thesis
  proof (cases q)
    case (Inl x)
    with run q have "r = Inl x" "t = s1" by (auto simp: activate_def bnd_def)
    with R(1,2) fresh show ?thesis by simp
  next
    case (Inr m')
    with R(3) m have "m' = m" and fin: "finite (meta_files (disk s))" by auto
    show ?thesis
    proof (cases "m_format_version m > SUPPORTED_FORMAT_VERSION")
      case True
      with run q Inr \<open>m' = m\<close> have "t = s1" "\<exists>x. r = Inl x" by (auto simp: activate_def bnd_def op_simps)
      with R(1,2) fresh show ?thesis by simp
    next
      case False
      let ?s = "s1\<lparr>ss_activated := Some \<lparr>ac_epoch = e, ac_stores = [], ac_state = meta_state_from m, ac_cache = False\<rparr>\<rparr>"
      have "bnd (write_meta_to_disk env e m) (\<lambda>_. clean_meta env e) ?s = (r, t)"
        using run q Inr \<open>m' = m\<close> False fresh R(2) by (simp add: activate_def bnd_def op_simps)
      then show ?thesis
      proof (cases rule: activate_writes)
        case none
        with R(1) False show ?thesis by (auto simp: not_less)
      next
        case (some v D)
        have "disk ?s = disk s" using R(1) by simp
        with some False fin show ?thesis by (auto simp: not_less)
      qed
    qed
  qed
qed

end

text \<open>Deleting files of earlier epochs does not change what a reader finds.\<close>

lemma stored_meta_after:
  assumes "finite (meta_files U)" and "CHR ''/'' \<notin> set p" "is_meta_file p"
    and "dec v = Some m'" and "stored_meta dec U = Some m"
    and "p \<notin> D" and order: "(\<forall>q \<in> meta_files U. q \<le> p) \<or> (\<exists>q. meta_files U \<subseteq> {q})"
  shows "stored_meta dec ((U(p \<mapsto> v)) |` (- D)) \<in> {Some m, Some m'}"
proof -
  define W where "W = (U(p \<mapsto> v)) |` (- D)"
  have files: "meta_files W = insert p (meta_files U) - D" 
    unfolding W_def meta_files_del meta_files_upd [OF assms(2,3)] ..
  have fin: "finite (meta_files W)" and ne: "meta_files W \<noteq> {}" using assms(1,6) by (auto simp: files)
  define q where "q = Max (meta_files W)"
  have q: "q \<in> meta_files W" unfolding q_def by (rule Max_in [OF fin ne])
  have W: "stored_meta dec W = dec (the (W q))" using ne by (simp add: stored_meta_def q_def)
  show ?thesis
  proof (cases "q = p")
    case True
    then show ?thesis using W assms(4,6) unfolding W_def by simp
  next
    case False
    have "p \<le> q" unfolding q_def using fin assms(6) by (intro Max_ge) (auto simp: files)
    moreover have U: "q \<in> meta_files U" using q False by (auto simp: files)
    ultimately have "\<not> (\<forall>q \<in> meta_files U. q \<le> p)" using False by (metis antisym)
    with order U have "meta_files U = {q}" by blast
    moreover have "q \<notin> D" using q by (simp add: files)
    then have "W q = U q" using False by (simp add: W_def)
    ultimately show ?thesis using W assms(5) unfolding W_def [symmetric] by (simp add: stored_meta_def)
  qed
qed

section \<open>Activation and fencing\<close>

text \<open>
  C32. An activation never loses the metadata.  When the epoch is not below those of the files on
  disk, or there is at most one file, then whatever call of the object store fails, and whether or
  not the failed call took effect, a reader without the lock afterwards finds the metadata that was
  there before, up to the format version.  A store of a newer format is refused and left
  untouched.  After a success there is exactly one file, that of the epoch, and the storage works
  with the metadata of the disk.
\<close>

theorem activate_safe:
  assumes laws: "storage_laws env V" and e: "wf_epoch e" and fresh: "ss_activated s = None"
    and m: "stored_meta (se_dec env) (V (ss_objects s)) = Some m"
    and order: "(\<forall>p \<in> meta_files (V (ss_objects s)). p \<le> meta_path e) \<or> (\<exists>p. meta_files (V (ss_objects s)) \<subseteq> {p})"
    and run: "activate env e s = (r, t)"
  shows "stored_meta (se_dec env) (V (ss_objects t)) \<in> {Some m, Some (m\<lparr>m_format_version := SUPPORTED_FORMAT_VERSION\<rparr>)} \<and>
    (m_format_version m > SUPPORTED_FORMAT_VERSION \<longrightarrow> r \<noteq> Inr () \<and> V (ss_objects t) = V (ss_objects s) \<and> ss_activated t = None) \<and>
    (r = Inr () \<longrightarrow> meta_files (V (ss_objects t)) = {meta_path e} \<and>
       (\<exists>act. ss_activated t = Some act \<and> ac_epoch act = e \<and> mt_meta (ac_state act) = m))"
  using storage_laws.activate_disk [OF laws run fresh m]
proof
  assume "V (ss_objects t) = V (ss_objects s) \<and> (\<exists>x. r = Inl x) \<and>
    (ss_activated t = None \<or> m_format_version m \<le> SUPPORTED_FORMAT_VERSION)"
  with m show ?thesis by auto
next
  let ?U = "V (ss_objects s)"
  assume A: "m_format_version m \<le> SUPPORTED_FORMAT_VERSION \<and> finite (meta_files ?U) \<and>
    ss_activated t = Some \<lparr>ac_epoch = e, ac_stores = [], ac_state = meta_state_from m, ac_cache = False\<rparr> \<and>
    (\<exists>v D. se_dec env v = Some (m\<lparr>m_format_version := SUPPORTED_FORMAT_VERSION\<rparr>) \<and>
      V (ss_objects t) = (?U(meta_path e \<mapsto> v)) |` (- D) \<and> meta_path e \<notin> D \<and> D \<subseteq> meta_files ?U \<and>
      (r = Inr () \<longrightarrow> D = meta_files ?U - {meta_path e}))"
  then obtain v D where D: "se_dec env v = Some (m\<lparr>m_format_version := SUPPORTED_FORMAT_VERSION\<rparr>)"
    "V (ss_objects t) = (?U(meta_path e \<mapsto> v)) |` (- D)" "meta_path e \<notin> D"
    "r = Inr () \<longrightarrow> D = meta_files ?U - {meta_path e}" by blast
  have "stored_meta (se_dec env) (V (ss_objects t)) \<in> {Some m, Some (m\<lparr>m_format_version := SUPPORTED_FORMAT_VERSION\<rparr>)}"
    unfolding D(2) using A by (intro stored_meta_after [OF _ meta_path_root [OF e] _ D(1) m D(3) order]) auto
  moreover have "meta_files (V (ss_objects t)) = insert (meta_path e) (meta_files ?U) - D"
    unfolding D(2) meta_files_del meta_files_upd [OF meta_path_root [OF e] meta_path_file] ..
  ultimately show ?thesis using A D(3,4) by (auto simp: meta_state_from_def not_less)
qed

definition epoch7 :: epoch where
  "epoch7 = \<lparr>epoch_val = 7, epoch_base32 = ''00000007''\<rparr>"

lemma epoch7_wf [simp]: "wf_epoch epoch7"
  unfolding epoch7_def wf_epoch_def by code_simp

definition empty_storage :: "(meta objects, (bytes, tagged) RBT.rbt, bloom_item list) slate_storage" where
  "empty_storage = \<lparr>ss_objects = [], ss_activated = None\<rparr>"

theorem activate_safe_witness:
  "stored_meta Some (map_of (ss_objects (snd (activate mem_storage epoch7 empty_storage)))) = Some meta_default"
proof -
  have "stored_meta (se_dec mem_storage) (map_of (ss_objects empty_storage)) = Some meta_default"
    and none: "meta_files (map_of (ss_objects empty_storage)) = {}" "ss_activated empty_storage = None"
    by (simp_all add: empty_storage_def stored_meta_def meta_files_def)
  from activate_safe [OF mems.storage_laws_axioms epoch7_wf none(2) this(1) _ prod.collapse [symmetric]] none(1)
  show ?thesis by (simp add: mem_storage_def meta_default_def)
qed


definition stale_storage :: "(meta objects, (bytes, tagged) RBT.rbt, bloom_item list) slate_storage" where
  "stale_storage =
     \<lparr>ss_objects = [(meta_path epoch7, meta_default)],
      ss_activated = Some \<lparr>ac_epoch = epoch0, ac_stores = [], ac_state = meta_state_from meta_default, ac_cache = False\<rparr>\<rparr>"

definition identity0 :: meta_identity where
  "identity0 = \<lparr>mi_cert_der = ''cert'', mi_key_der = ''key''\<rparr>"


end
