(* ===== verification/StorageReg.thy ===== *)
theory StorageReg
  imports StorageProps
begin

text \<open>
  The folder registry of the storage: it stays well-formed under every sequence of operations,
  whatever fails, and making sure that folders exist registers all of them or none.
\<close>

section \<open>The operations as commands\<close>

datatype storage_cmd =
    Activate epoch
  | PutIdentity meta_identity
  | SetDefaultCheckpoints
  | UpdateSchedule nat "checkpoint_schedule option"
  | RegisterFolder bytes bytes
  | EnsureFolders "(bytes \<times> bytes) list"
  | OpenFolder bytes
  | RemoveFolder bytes
  | GcInbox
  | CloseStorage

definition quietly :: "('s, 'e, 'a) op \<Rightarrow> ('s, 'e, unit) op" where
  "quietly m = bnd m (\<lambda>_. ok ())"

fun storage_exec ::
  "('o, 'v, 'd) storage_env \<Rightarrow> ('d, 'w) slate \<Rightarrow> ('w, 'b) lib \<Rightarrow> storage_cmd \<Rightarrow>
   (('o, 'd, 'b) slate_storage, storage_error, unit) op" where
  "storage_exec env db lib (Activate e) = activate env e"
| "storage_exec env db lib (PutIdentity i) = put_identity env i"
| "storage_exec env db lib SetDefaultCheckpoints = set_default_checkpoints env"
| "storage_exec env db lib (UpdateSchedule n c) = update_checkpoint_schedule env n c"
| "storage_exec env db lib (RegisterFolder i l) = quietly (register_folder env db lib i l)"
| "storage_exec env db lib (EnsureFolders fs) = quietly (ensure_folders env db lib fs)"
| "storage_exec env db lib (OpenFolder i) = quietly (folder env db lib i)"
| "storage_exec env db lib (RemoveFolder i) = remove_folder env i"
| "storage_exec env db lib GcInbox = storage_gc_inbox env db lib"
| "storage_exec env db lib CloseStorage = storage_close env"

text \<open>A session: each command runs on the state the last one left, whether it failed or not.\<close>

definition storage_runs ::
  "('o, 'v, 'd) storage_env \<Rightarrow> ('d, 'w) slate \<Rightarrow> ('w, 'b) lib \<Rightarrow> storage_cmd list \<Rightarrow>
   ('o, 'd, 'b) slate_storage \<Rightarrow> ('o, 'd, 'b) slate_storage" where
  "storage_runs env db lib cmds s = fold (\<lambda>c s. snd (storage_exec env db lib c s)) cmds s"

section \<open>The invariant\<close>

definition registered :: "meta \<Rightarrow> bytes \<Rightarrow> bool" where
  "registered m sk \<longleftrightarrow> (\<exists>i l. folder_map m i = Some (sk, l))"

definition disk_ok :: "('v \<Rightarrow> meta option) \<Rightarrow> (bytes \<rightharpoonup> 'v) \<Rightarrow> bool" where
  "disk_ok dec U \<longleftrightarrow> (\<forall>p v m. p \<in> meta_files U \<longrightarrow> U p = Some v \<longrightarrow> dec v = Some m \<longrightarrow> meta_ok m)"

text \<open>The metadata in memory is well-formed, the registry is built from it, and every open store
  belongs to a registered folder and is open once.\<close>

definition act_ok :: "('d, 'b) activated \<Rightarrow> bool" where
  "act_ok act \<longleftrightarrow> wf_epoch (ac_epoch act) \<and> meta_ok (mt_meta (ac_state act)) \<and>
     ac_state act = meta_state_from (mt_meta (ac_state act)) \<and>
     distinct (map fst (ac_stores act)) \<and>
     (\<forall>sk \<in> fst ` set (ac_stores act). registered (mt_meta (ac_state act)) sk)"

definition storage_ok :: "('v \<Rightarrow> meta option) \<Rightarrow> ('o \<Rightarrow> bytes \<rightharpoonup> 'v) \<Rightarrow> ('o, 'd, 'b) slate_storage \<Rightarrow> bool" where
  "storage_ok dec V s \<longleftrightarrow> disk_ok dec (V (ss_objects s)) \<and> (\<forall>act. ss_activated s = Some act \<longrightarrow> act_ok act)"

lemma map_of_linear_insert: "map_of (linear_insert k v kvs) = (map_of kvs)(k \<mapsto> v)"
  by (induction kvs) (auto simp: fun_eq_iff)

lemma registry_fold:
  "distinct (map (\<lambda>(_, e). fe_id e) kvs) \<Longrightarrow>
   map_of (foldl (\<lambda>reg (key, e). linear_insert (fe_id e) (folder_storage_key key, fe_label e) reg) acc kvs) =
   map_of acc ++ map_of (map (\<lambda>(k, e). (fe_id e, folder_storage_key k, fe_label e)) kvs)"
proof (induction kvs arbitrary: acc)
  case (Cons kv kvs)
  obtain k e where kv: "kv = (k, e)" by fastforce
  have "fe_id e \<notin> dom (map_of (map (\<lambda>(k, e). (fe_id e, folder_storage_key k, fe_label e)) kvs))"
    using Cons.prems kv by (simp add: dom_map_of_conv_image_fst image_image case_prod_beta)
  with Cons kv show ?case by (intro ext) (simp add: map_of_linear_insert map_add_def domIff split: option.splits)
qed simp

lemma registry_lookup:
  "meta_ok m \<Longrightarrow> map_of (mt_registry (meta_state_from m)) = folder_map m"
  by (simp add: meta_state_from_def registry_fold folder_map_def meta_ok_def folder_ids_def)

lemma keys_linear_insert: "fst ` set (linear_insert k v kvs) = insert k (fst ` set kvs)"
  by (induction k v kvs rule: linear_insert.induct) (simp_all add: insert_commute)

lemma distinct_linear_insert: "distinct (map fst kvs) \<Longrightarrow> distinct (map fst (linear_insert k v kvs))"
  by (induction k v kvs rule: linear_insert.induct) (simp_all add: keys_linear_insert, metis)

lemma registry_distinct:
  "distinct (map fst (foldl (\<lambda>reg (key, e). linear_insert (fe_id e) (folder_storage_key key, fe_label e) reg) [] kvs))"
  by (induction kvs rule: rev_induct) (auto simp: distinct_linear_insert split: prod.splits)

lemma resolve_in_iff:
  "meta_ok m \<Longrightarrow> resolve_in (meta_state_from m) i = Inr (sk, l) \<longleftrightarrow> folder_map m i = Some (sk, l)"
  by (auto simp: resolve_in_def registry_lookup split: option.splits)

lemma mt_meta_from [simp]: "mt_meta (meta_state_from m) = m"
  by (simp add: meta_state_from_def)

text \<open>Fields the folders do not depend on.\<close>

lemma meta_ok_cong:
  assumes "m_folders m' = m_folders m" and "m_next_folder_key m' = m_next_folder_key m"
  shows "meta_ok m' \<longleftrightarrow> meta_ok m" "folder_map m' = folder_map m" "registered m' sk \<longleftrightarrow> registered m sk"
  using assms by (simp_all add: meta_ok_def folder_map_def folder_ids_def registered_def)

lemma disk_ok_write:
  "disk_ok dec U \<Longrightarrow> dec v = Some m \<Longrightarrow> meta_ok m \<Longrightarrow> disk_ok dec (U(p \<mapsto> v))"
  unfolding disk_ok_def meta_files_def by auto

lemma disk_ok_restrict: "disk_ok dec U \<Longrightarrow> disk_ok dec (U |` D)"
  unfolding disk_ok_def meta_files_def by (auto simp: restrict_map_def split: if_splits)

lemma disk_ok_root:
  "disk_ok dec U \<Longrightarrow> (\<And>p. CHR ''/'' \<notin> set p \<Longrightarrow> W p = U p \<or> W p = None) \<Longrightarrow> disk_ok dec W"
  unfolding disk_ok_def meta_files_def by (metis (no_types, lifting) domIff mem_Collect_eq option.distinct(1))

lemma remove_from_meta_ok:
  assumes ok: "meta_ok m"
  shows "meta_ok (remove_from_meta i m)" "folder_map (remove_from_meta i m) = (folder_map m)(i := None)"
proof -
  have d: "distinct (folder_ids m)" "distinct (map fst (m_folders m))" using ok by (auto simp: meta_ok_def strict_sorted_iff)
  have "meta_ok (remove_from_meta i m) \<and> folder_map (remove_from_meta i m) = (folder_map m)(i := None)"
  proof (cases "find (\<lambda>(_, e). fe_id e = i) (m_folders m)")
    case None
    then have "\<not> has_folder m i" by (auto simp: find_None_iff has_folder_def list_ex_iff)
    then have "(folder_map m)(i := None) = folder_map m" using has_folder_map [of m i] by (metis fun_upd_triv)
    with None ok show ?thesis by (simp add: remove_from_meta_def)
  next
    case (Some ke)
    obtain k e where ke: "ke = (k, e)" by fastforce
    let ?m = "remove_from_meta i m"
    have e: "(k, e) \<in> set (m_folders m)" "fe_id e = i"
      using Some ke by (auto simp: find_Some_iff) (metis nth_mem)
    have m: "?m = m\<lparr>m_folders := filter (\<lambda>kv. fst kv \<noteq> k) (m_folders m)\<rparr>"
      using Some ke by (simp add: remove_from_meta_def btree_remove_def)
    have "meta_ok ?m" using ok
      by (auto simp: m meta_ok_def folder_ids_def distinct_map_filter sorted_wrt_map intro!: sorted_wrt_filter)
    moreover have "folder_map ?m j = Some x \<longleftrightarrow> ((folder_map m)(i := None)) j = Some x" for j x
    proof -
      have ids: "k' = k" if "(k', e') \<in> set (m_folders m)" "fe_id e' = i" for k' e'
        using that e d(1) unfolding folder_ids_def distinct_map inj_on_def by fastforce
      have keys: "e' = e" if "(k, e') \<in> set (m_folders m)" for e' using that e(1) d(2) by (metis eq_key_imp_eq_value)
      have "distinct (folder_ids ?m)" using d(1) by (simp add: m folder_ids_def distinct_map_filter)
      then show ?thesis using ids keys e(2) by (auto simp: folder_map_iff d(1) m, metis)
    qed
    ultimately show ?thesis by (metis ext option.exhaust)
  qed
  then show "meta_ok (remove_from_meta i m)" "folder_map (remove_from_meta i m) = (folder_map m)(i := None)" by simp_all
qed

section \<open>The operations keep it\<close>

text \<open>The metadata in memory.\<close>

definition meta_of :: "('o, 'd, 'b) slate_storage \<Rightarrow> meta option" where
  "meta_of s = map_option (\<lambda>act. mt_meta (ac_state act)) (ss_activated s)"

lemma on_root_cases:
  assumes "on_root what m s = (r, t)"
  obtains q u where "m (ss_objects s) = (q, u)" "t = s\<lparr>ss_objects := u\<rparr>" "r = map_sum (\<lambda>_. TransientIo what) id q"
  using assms by (auto simp: on_root_def split: prod.splits)

lemma the_activated_cases:
  assumes "bnd the_activated f s = (r, t)"
  obtains (standby) msg where "ss_activated s = None" "r = Inl (Standby msg)" "t = s"
  | (active) act where "ss_activated s = Some act" "f act s = (r, t)"
  using assms by (cases "ss_activated s") (auto simp: the_activated_def bnd_def)

lemma storage_ok_meta: "storage_ok dec V s \<Longrightarrow> meta_of s = Some m \<Longrightarrow> meta_ok m"
  by (auto simp: storage_ok_def meta_of_def act_ok_def)

lemma act_ok_keys:
  assumes "map fst ks = map fst (ac_stores act)"
  shows "act_ok (act\<lparr>ac_stores := ks\<rparr>) \<longleftrightarrow> act_ok act"
proof -
  have "fst ` set ks = fst ` set (ac_stores act)" using assms by (metis set_map)
  with assms show ?thesis by (simp add: act_ok_def)
qed

context storage_laws
begin

abbreviation sok :: "('o, 'd, 'b) slate_storage \<Rightarrow> bool" where
  "sok \<equiv> storage_ok (se_dec env) V"

lemma sok_objects:
  assumes "sok s" "\<And>p. CHR ''/'' \<notin> set p \<Longrightarrow> V u p = disk s p \<or> V u p = None"
  shows "sok (s\<lparr>ss_objects := u\<rparr>)"
  using assms disk_ok_root [of "se_dec env" "disk s" "V u"] by (simp add: storage_ok_def)

lemma read_meta_ok:
  assumes "sok s" and "read_meta_unlocked env s = (r, t)"
  shows "sok t" "ss_activated t = ss_activated s" "r = Inr m \<Longrightarrow> meta_ok m"
proof -
  note R = read_meta_unlocked_spec [OF assms(2)]
  show "sok t" "ss_activated t = ss_activated s" using R(1,2) assms(1) by (simp_all add: storage_ok_def)
  show "meta_ok m" if r: "r = Inr m"
  proof (cases "meta_files (disk s) = {}")
    case True
    with R(3) [OF r] show ?thesis using meta_ok_default by (auto simp: stored_meta_def)
  next
    case False
    then have "Max (meta_files (disk s)) \<in> meta_files (disk s)" using R(3) [OF r] by (intro Max_in) auto
    moreover have "se_dec env (the (disk s (Max (meta_files (disk s))))) = Some m"
      using R(3) [OF r] False by (simp add: stored_meta_def)
    ultimately show ?thesis using assms(1)
      unfolding storage_ok_def disk_ok_def meta_files_def by fastforce
  qed
qed

lemma write_meta_ok:
  assumes "sok s" and "meta_ok m" and "write_meta_to_disk env e m s = (r, t)"
  shows "sok t" "ss_activated t = ss_activated s"
proof -
  have "meta_ok (m\<lparr>m_format_version := SUPPORTED_FORMAT_VERSION\<rparr>)"
    using assms(2) meta_ok_cong(1) [of "m\<lparr>m_format_version := SUPPORTED_FORMAT_VERSION\<rparr>" m] by simp
  then have "disk_ok (se_dec env) (disk t) \<and> ss_activated t = ss_activated s"
    using assms(1) by (cases rule: write_meta_spec [OF assms(3)]) (auto simp: storage_ok_def intro: disk_ok_write)
  with assms(1) show "sok t" "ss_activated t = ss_activated s" by (auto simp: storage_ok_def)
qed

lemma modify_meta_ok:
  assumes ok: "sok s" and run: "modify_meta env f s = (r, t)"
    and f: "\<And>act x m. ss_activated s = Some act \<Longrightarrow> f (mt_meta (ac_state act)) = Inr (x, m) \<Longrightarrow>
      meta_ok m \<and> (\<forall>sk \<in> fst ` set (ac_stores act). registered m sk)"
  obtains (failed) e where "r = Inl e" "sok t" "ss_activated t = ss_activated s"
  | (changed) act x m where "r = Inr x" "sok t" "ss_activated s = Some act"
      "f (mt_meta (ac_state act)) = Inr (x, m)" "ss_activated t = Some (act\<lparr>ac_state := meta_state_from m\<rparr>)"
  using run [unfolded modify_meta_def]
proof (cases rule: the_activated_cases)
  case standby
  with failed ok show ?thesis by simp
next
  case (active act)
  show ?thesis
  proof (cases "f (mt_meta (ac_state act))")
    case (Inl e)
    with active failed ok show ?thesis by (auto simp: bnd_def op_simps)
  next
    case (Inr y)
    obtain x m where y: "y = (x, m)" by fastforce
    obtain w s1 where w: "write_meta_to_disk env (ac_epoch act) m s = (w, s1)" by fastforce
    note W = write_meta_ok [OF ok conjunct1 [OF f [OF active(1) Inr [unfolded y]]] w]
    show ?thesis
    proof (cases w)
      case Inl': (Inl e)
      with active Inr y w have "r = Inl e" "t = s1" by (auto simp: bnd_def op_simps)
      with W failed show ?thesis by simp
    next
      case Inr': (Inr z)
      with active Inr y w W have t: "r = Inr x" "t = s1\<lparr>ss_activated := Some (act\<lparr>ac_state := meta_state_from m\<rparr>)\<rparr>"
        by (auto simp: bnd_def op_simps set_activated_def)
      moreover have "sok t" using W active(1) f [OF active(1) Inr [unfolded y]]
        unfolding t by (auto simp: storage_ok_def act_ok_def)
      ultimately show ?thesis using changed active(1) Inr y by simp
    qed
  qed
qed

text \<open>Opening the store of a registered folder.\<close>

lemma store_for_folder_ok:
  assumes ok: "sok s" and sk: "\<And>m. meta_of s = Some m \<Longrightarrow> registered m sk"
    and run: "store_for_folder env db lib sk s = (r, t)"
  shows "sok t \<and> meta_of t = meta_of s"
  using run [unfolded store_for_folder_def]
proof (cases rule: the_activated_cases)
  case (active act)
  show ?thesis
  proof (cases "map_of (ac_stores act) sk")
    case None
    obtain c s1 where c: "get_shared_db_cache env s = (c, s1)" by fastforce
    have "s1 = s \<or> s1 = s\<lparr>ss_activated := Some (act\<lparr>ac_cache := True\<rparr>)\<rparr>"
      using c active(1) by (auto simp: get_shared_db_cache_def the_activated_def bnd_def op_simps
          get_identity_def set_activated_def split: if_splits sum.splits option.splits)
    then obtain b where b: "s1 = s\<lparr>ss_activated := Some (act\<lparr>ac_cache := b\<rparr>)\<rparr>"
    proof
      assume "s1 = s"
      moreover have "s\<lparr>ss_activated := Some (act\<lparr>ac_cache := ac_cache act\<rparr>)\<rparr> = s" using active(1) by (cases s) simp
      ultimately show ?thesis by (intro that [of "ac_cache act"]) simp
    qed (rule that)
    obtain q u where q: "se_open env sk (ss_objects s1) = (q, u)" by fastforce
    let ?act = "\<lambda>ks. act\<lparr>ac_cache := b, ac_stores := ks\<rparr>"
    have s1: "ss_objects s1 = ss_objects s" "ss_activated s1 = Some (?act (ac_stores act))" by (simp_all add: b)
    have u: "disk_ok (se_dec env) (V u)"
    proof (rule disk_ok_root)
      show "disk_ok (se_dec env) (disk s)" using ok by (simp add: storage_ok_def)
      show "V u p = disk s p \<or> V u p = None" if "CHR ''/'' \<notin> set p" for p
        using open_law [OF q that] s1(1) by simp
    qed
    have "act_ok act" "registered (mt_meta (ac_state act)) sk" "sk \<notin> fst ` set (ac_stores act)"
      using ok active(1) sk None by (auto simp: storage_ok_def meta_of_def map_of_eq_None_iff)
    then have okt: "act_ok (?act (ac_stores act))" "act_ok (?act ((sk, x) # ac_stores act))" for x
      by (simp_all add: act_ok_def)
    have t: "bnd (open_folder_store env db lib sk)
        (\<lambda>store. set_activated (\<lambda>act. act\<lparr>ac_stores := (sk, store) # ac_stores act\<rparr>)) s = (r, t)"
      using active(2) None by simp
    have "(ss_objects t = ss_objects s \<or> ss_objects t = u) \<and> (ss_activated t = ss_activated s1 \<or>
        (\<exists>x. ss_activated t = Some (?act ((sk, x) # ac_stores act))))"
    proof (cases "\<exists>y d. c = Inr y \<and> q = Inr d")
      case True
      then obtain y d where cq: "c = Inr y" "q = Inr d" by blast
      show ?thesis using t c q s1
        by (cases "folder_store_new db lib d compaction_state_new")
          (simp_all add: cq open_folder_store_def bnd_def set_activated_def op_simps, auto)
    next
      case False
      then show ?thesis using t c q s1
        by (cases c; cases q) (auto simp: open_folder_store_def bnd_def)
    qed
    then show ?thesis using okt u ok s1 active(1) by (auto simp: meta_of_def storage_ok_def)
  qed (use active ok in \<open>auto simp: op_simps\<close>)
qed (use ok in simp)

lemma resolve_folder_ok:
  assumes "sok s" and "resolve_folder i s = (Inr (sk, l), t)"
  shows "t = s" "meta_of s = Some m \<Longrightarrow> folder_map m i = Some (sk, l)"
  using assms by (auto simp: resolve_folder_def the_activated_def bnd_def op_simps meta_of_def storage_ok_def act_ok_def
      split: option.splits, metis resolve_in_iff)

lemma resolve_folder_state: "resolve_folder i s = (r, t) \<Longrightarrow> t = s"
  by (auto simp: resolve_folder_def the_activated_def bnd_def op_simps split: option.splits)

lemma open_created_ok:
  "sok s \<Longrightarrow> open_created env db lib fs s = (r, t) \<Longrightarrow> sok t \<and> meta_of t = meta_of s"
proof (induction fs arbitrary: s)
  case (Cons f fs)
  obtain i l c where f: "f = ((i, l), c)" by (metis prod.exhaust)
  obtain q s1 where q: "resolve_folder i s = (q, s1)" by fastforce
  show ?case
  proof (cases "c \<and> (\<exists>x. q = Inr x)")
    case True
    then obtain sk l' where sk: "q = Inr (sk, l')" by fastforce
    note res = resolve_folder_ok [OF Cons.prems(1) q [unfolded sk]]
    obtain w s2 where w: "store_for_folder env db lib sk s = (w, s2)" by fastforce
    have ok2: "sok s2 \<and> meta_of s2 = meta_of s"
      by (rule store_for_folder_ok [OF Cons.prems(1) _ w]) (use res(2) in \<open>auto simp: registered_def\<close>)
    have "t = s2 \<or> open_created env db lib fs s2 = (r, t)"
      using Cons.prems(2) True f q sk res(1) w by (cases w) (auto simp: bnd_def)
    with ok2 Cons.IH show ?thesis by auto
  next
    case False
    then have "t = s \<or> open_created env db lib fs s = (r, t)"
      using Cons.prems(2) f q resolve_folder_state [OF q] by (cases q) (auto simp: bnd_def split: if_splits)
    with Cons show ?thesis by auto
  qed
qed (simp add: op_simps)

lemma on_store_ok:
  assumes "sok s" and "on_store sk m s = (r, t)"
  shows "sok t \<and> meta_of t = meta_of s"
proof (cases "Option.bind (ss_activated s) (\<lambda>act. map_of (ac_stores act) sk)")
  case (Some fs)
  then obtain act where act: "ss_activated s = Some act" by (auto simp: bind_eq_Some_conv)
  have keys: "map fst (map (\<lambda>(k, x). if k = sk then (k, fs') else (k, x)) kvs) = map fst kvs" for fs' kvs
    by (induction kvs) auto
  let ?kvs = "\<lambda>fs'. map (\<lambda>(k, x). if k = sk then (k, fs') else (k, x)) (ac_stores act)"
  have "act_ok (act\<lparr>ac_stores := ?kvs fs'\<rparr>) \<longleftrightarrow> act_ok act" for fs'
    by (rule act_ok_keys [OF keys])
  moreover obtain fs' where "t = s\<lparr>ss_activated := Some (act\<lparr>ac_stores := ?kvs fs'\<rparr>)\<rparr>"
    using assms(2) Some act by (auto simp: on_store_def split: prod.splits)
  ultimately show ?thesis using assms(1) act by (simp add: storage_ok_def meta_of_def)
qed (use assms in \<open>auto simp: on_store_def\<close>)

lemma gc_inboxes_ok:
  "sok s \<Longrightarrow> (\<And>m x. meta_of s = Some m \<Longrightarrow> x \<in> set fs \<Longrightarrow> registered m (snd (snd x))) \<Longrightarrow>
   gc_inboxes env db lib e fs s = (r, t) \<Longrightarrow> sok t \<and> meta_of t = meta_of s"
proof (induction fs arbitrary: s)
  case (Cons f fs)
  obtain i l sk where f: "f = (i, l, sk)" by (metis prod.exhaust)
  obtain o1 s1 where o1: "store_for_folder env db lib sk s = (o1, s1)" by fastforce
  have s1: "sok s1 \<and> meta_of s1 = meta_of s"
    by (rule store_for_folder_ok [OF Cons.prems(1) _ o1]) (use Cons.prems(2) [of _ f] f in auto)
  obtain o2 s2 where o2: "on_store sk (gc_inbox db e) s1 = (o2, s2)" by fastforce
  have s2: "sok s2 \<and> meta_of s2 = meta_of s1" using on_store_ok [OF _ o2] s1 by simp
  have "t = s1 \<or> t = s2 \<or> gc_inboxes env db lib e fs s2 = (r, t)"
    using Cons.prems(3) f o1 o2 by (cases o1; cases o2) (auto simp: bnd_def)
  with s1 s2 Cons.IH [of s2] Cons.prems(2) show ?case by (metis list.set_intros(2))
qed (simp add: op_simps)

lemma delete_objects_ok:
  "sok s \<Longrightarrow> delete_objects env ps s = (r, t) \<Longrightarrow> sok t \<and> ss_activated t = ss_activated s"
proof (induction ps arbitrary: s)
  case (Cons p ps)
  obtain q u where q: "ro_delete (se_root env) p (ss_objects s) = (q, u)" by fastforce
  have "V u p' = disk s p' \<or> V u p' = None" for p' using delete_law [OF q] by (cases "p' = p") auto
  then have "sok (s\<lparr>ss_objects := u\<rparr>)" by (intro sok_objects [OF Cons.prems(1)])
  moreover have "t = s\<lparr>ss_objects := u\<rparr> \<or> delete_objects env ps (s\<lparr>ss_objects := u\<rparr>) = (r, t)"
    using Cons.prems(2) q by (cases q) (auto simp: on_root_def bnd_def)
  ultimately show ?case using Cons.IH [of "s\<lparr>ss_objects := u\<rparr>"] by auto
qed (simp add: op_simps)

lemma clean_meta_ok:
  assumes "sok s" and "clean_meta env e s = (r, t)"
  shows "sok t"
proof -
  obtain q u where q: "ro_list (se_root env) (ss_objects s) = (q, u)" by fastforce
  let ?s = "s\<lparr>ss_objects := u\<rparr>"
  have u: "sok ?s" using list_law [OF q] assms(1) by (intro sok_objects) auto
  show ?thesis
  proof (cases q)
    case (Inl x)
    with assms(2) q have "t = ?s" by (auto simp: clean_meta_def on_root_def bnd_def)
    with u show ?thesis by simp
  next
    case (Inr ps)
    with assms(2) q have "delete_metas env (meta_path e) ps ?s = (r, t)" by (auto simp: clean_meta_def on_root_def bnd_def)
    from delete_metas_spec [OF this] obtain D where "disk t = disk ?s |` (- D)" "ss_activated t = ss_activated ?s" by blast
    with u show ?thesis by (auto simp: storage_ok_def intro: disk_ok_restrict)
  qed
qed

lemma activate_ok:
  assumes ok: "sok s" and e: "wf_epoch e" and run: "activate env e s = (r, t)"
  shows "sok t"
proof -
  obtain q s1 where q: "read_meta_unlocked env s = (q, s1)" by fastforce
  note R = read_meta_ok [OF ok q]
  consider (stop) "t = s1"
    | (go) m where "q = Inr m" "ss_activated s = None" "bnd (write_meta_to_disk env e m) (\<lambda>_. clean_meta env e)
        (s1\<lparr>ss_activated := Some \<lparr>ac_epoch = e, ac_stores = [], ac_state = meta_state_from m, ac_cache = False\<rparr>\<rparr>) = (r, t)"
    using run q R(2) by (cases q; cases "ss_activated s") (auto simp: activate_def bnd_def op_simps split: if_splits)
  then show ?thesis
  proof cases
    case (go m)
    let ?s = "s1\<lparr>ss_activated := Some \<lparr>ac_epoch = e, ac_stores = [], ac_state = meta_state_from m, ac_cache = False\<rparr>\<rparr>"
    have s: "sok ?s" using R(1) R(3) [OF go(1)] e by (auto simp: storage_ok_def act_ok_def)
    obtain w s2 where w: "write_meta_to_disk env e m ?s = (w, s2)" by fastforce
    note W = write_meta_ok [OF s R(3) [OF go(1)] w]
    have "t = s2 \<or> clean_meta env e s2 = (r, t)" using go(3) w by (cases w) (auto simp: bnd_def)
    with W(1) clean_meta_ok show ?thesis by auto
  qed (use R in simp)
qed

lemma remove_folder_ok:
  assumes ok: "sok s" and run: "remove_folder env i s = (r, t)"
  shows "sok t"
  using run [unfolded remove_folder_def]
proof (cases rule: the_activated_cases)
  case (active act)
  obtain q s1 where q: "resolve_folder i s = (q, s1)" by fastforce
  show ?thesis
  proof (cases q)
    case (Inl x)
    with active q resolve_folder_state [OF q] ok show ?thesis by (auto simp: bnd_def)
  next
    case (Inr y)
    obtain sk l where sk: "q = Inr (sk, l)" using Inr by (cases y) auto
    note res = resolve_folder_ok [OF ok q [unfolded sk]]
    let ?act = "act\<lparr>ac_stores := filter (\<lambda>x. fst x \<noteq> sk) (ac_stores act)\<rparr>"
    have evict: "act_ok ?act" "sk \<notin> fst ` set (ac_stores ?act)"
      using ok active(1) by (auto simp: storage_ok_def act_ok_def distinct_map_filter)
    obtain c s2 where c: "(case map_of (ac_stores act) sk of None \<Rightarrow> ok ()
          | Some fs \<Rightarrow> bnd (set_activated (\<lambda>act. act\<lparr>ac_stores := filter (\<lambda>x. fst x \<noteq> sk) (ac_stores act)\<rparr>)) (\<lambda>_.
                lift_res (close_store env fs))) s = (c, s2)" by fastforce
    have s2: "sok s2 \<and> (\<exists>act2. ss_activated s2 = Some act2 \<and> sk \<notin> fst ` set (ac_stores act2) \<and> ac_state act2 = ac_state act)"
      using c evict ok active(1)
      by (cases "map_of (ac_stores act) sk") (auto simp: op_simps bnd_def set_activated_def storage_ok_def map_of_eq_None_iff)
    obtain ps x u where l: "ro_under (se_root env) sk (ss_objects s2) = ((ps, x), u)" by (metis prod.exhaust)
    let ?s3 = "s2\<lparr>ss_objects := u\<rparr>"
    have s3: "sok ?s3" using s2 under_law [OF l] by (intro sok_objects) auto
    obtain d s4 where d: "delete_objects env ps ?s3 = (d, s4)" by fastforce
    have s4: "sok s4" "ss_activated s4 = ss_activated s2" using delete_objects_ok [OF s3 d] by simp_all
    have "t = s2 \<or> t = s4 \<or> modify_meta env (\<lambda>m. Inr ((), remove_from_meta i m)) s4 = (r, t)"
      using active(2) q sk res(1) c l d by (cases c; cases d) (auto simp: bnd_def objects_under_def op_simps split: if_splits)
    moreover have "sok t" if m: "modify_meta env (\<lambda>m. Inr ((), remove_from_meta i m)) s4 = (r, t)"
    proof (rule modify_meta_ok [OF s4(1) m])
      fix act2 x m assume a: "ss_activated s4 = Some act2" "Inr ((), remove_from_meta i (mt_meta (ac_state act2))) = Inr (x, m)"
      let ?m = "mt_meta (ac_state act)"
      have act2: "act_ok act2" "ac_state act2 = ac_state act" "sk \<notin> fst ` set (ac_stores act2)"
        using s4 s2 a(1) by (auto simp: storage_ok_def)
      have m: "meta_ok ?m" "folder_map ?m i = Some (sk, l)"
        using act2(1,2) res(2) active(1) by (auto simp: act_ok_def meta_of_def)
      have "registered m sk'" if sk': "sk' \<in> fst ` set (ac_stores act2)" for sk'
      proof -
        obtain j l'' where j: "folder_map ?m j = Some (sk', l'')" using act2 sk' by (auto simp: act_ok_def registered_def)
        have "sk' \<noteq> sk" using act2(3) sk' by metis
        then have "j \<noteq> i" using j m(2) by auto
        with j a(2) act2(2) have "folder_map m j = Some (sk', l'')" by (auto simp: remove_from_meta_ok(2) [OF m(1)])
        then show ?thesis unfolding registered_def by blast
      qed
      with a(2) act2(2) remove_from_meta_ok(1) [OF m(1)] show "meta_ok m \<and> (\<forall>sk \<in> fst ` set (ac_stores act2). registered m sk)"
        by auto
    qed
    ultimately show ?thesis using s2 s3 s4(1) by auto
  qed
qed (use ok in simp)

lemma ensured_registered:
  assumes "ensured fs (folder_map m) created (folder_map m')" and "registered m sk"
  shows "registered m' sk"
  using assms unfolding ensured_def registered_def by (metis (no_types, lifting) map_option_eq_Some prod.collapse)

text \<open>What \<open>ensure_folders\<close> does to the metadata in memory: all of the folders or none.\<close>

lemma ensure_folders_meta:
  assumes ok: "sok s" and act: "meta_of s = Some m" and run: "ensure_folders env db lib fs s = (r, t)"
  obtains (none) e where "r = Inl e" "sok t" "meta_of t = Some m"
  | (all) created m' where "sok t" "meta_of t = Some m'" "ensured fs (folder_map m) created (folder_map m')"
      "\<And>x. r = Inr x \<Longrightarrow> x = created"
proof (cases "fs = []")
  case True
  have "ensured [] (folder_map m) [] (folder_map m)" by (auto simp: ensured_def)
  with all [of m "[]"] True run ok act show ?thesis by (auto simp: ensure_folders_def op_simps)
next
  case False
  obtain q s1 where q: "modify_meta env (ensure_in_meta fs) s = (q, s1)" by fastforce
  have m: "meta_ok m" using storage_ok_meta [OF ok act] .
  show ?thesis
  proof (rule modify_meta_ok [OF ok q])
    fix act x m' assume "ss_activated s = Some act" "ensure_in_meta fs (mt_meta (ac_state act)) = Inr (x, m')"
    then have a: "act_ok act" "ensure_in_meta fs m = Inr (x, m')" "mt_meta (ac_state act) = m"
      using ok \<open>meta_of s = Some m\<close> by (auto simp: storage_ok_def meta_of_def)
    with ensure_in_meta_ok [OF a(2) m] ensured_registered [of fs m x m']
    show "meta_ok m' \<and> (\<forall>sk \<in> fst ` set (ac_stores act). registered m' sk)" by (auto simp: act_ok_def)
  next
    fix e assume "q = Inl e" "sok s1" "ss_activated s1 = ss_activated s"
    with none act q run False show ?thesis by (auto simp: ensure_folders_def bnd_def meta_of_def)
  next
    fix ac x m' assume c: "q = Inr x" "sok s1" "ss_activated s = Some ac"
      "ensure_in_meta fs (mt_meta (ac_state ac)) = Inr (x, m')" "ss_activated s1 = Some (ac\<lparr>ac_state := meta_state_from m'\<rparr>)"
    have s1: "meta_of s1 = Some m'" "mt_meta (ac_state ac) = m" using c(3,5) act by (auto simp: meta_of_def)
    obtain o1 s2 where o1: "open_created env db lib (zip fs x) s1 = (o1, s2)" by fastforce
    have "sok s2" "meta_of s2 = Some m'" using open_created_ok [OF c(2) o1] s1 by simp_all
    moreover have "t = s2" "r = Inr y \<Longrightarrow> y = x" for y
      using run False q c(1) o1 by (cases o1; auto simp: ensure_folders_def bnd_def op_simps)+
    ultimately show ?thesis
      using ensure_in_meta_ok [OF c(4)] m s1(2) by (intro all [of m' x]) auto
  qed
qed

lemma quietly_state: "quietly f s = (r, t) \<Longrightarrow> \<exists>q. f s = (q, t)"
  by (auto simp: quietly_def bnd_def op_simps split: prod.splits sum.splits)

lemma modify_other_ok:
  assumes "sok s" and "modify_meta env (\<lambda>m. Inr ((), g m)) s = (r, t)"
    and "\<And>m. m_folders (g m) = m_folders m" "\<And>m. m_next_folder_key (g m) = m_next_folder_key m"
  shows "sok t"
proof (rule modify_meta_ok [OF assms(1,2)])
  fix act x m assume "ss_activated s = Some act" "Inr ((), g (mt_meta (ac_state act))) = Inr (x, m)"
  then show "meta_ok m \<and> (\<forall>sk \<in> fst ` set (ac_stores act). registered m sk)"
    using assms(1,3,4) meta_ok_cong [of m "mt_meta (ac_state act)"] by (auto simp: storage_ok_def act_ok_def)
qed

lemma register_folder_ok:
  assumes ok: "sok s" and run: "register_folder env db lib i l s = (r, t)"
  shows "sok t"
proof -
  obtain q s1 where q: "modify_meta env (register_in_meta i l) s = (q, s1)" by fastforce
  show ?thesis
  proof (rule modify_meta_ok [OF ok q])
    fix act x m' assume a: "ss_activated s = Some act" "register_in_meta i l (mt_meta (ac_state act)) = Inr (x, m')"
    let ?m = "mt_meta (ac_state act)"
    obtain key where key: "\<not> has_folder ?m i" "add_folder i l ?m = Inr (key, m')"
      using a(2) by (auto simp: register_in_meta_def rbind_Inr split: if_splits)
    have act: "act_ok act" using ok a(1) by (auto simp: storage_ok_def)
    then have m: "meta_ok ?m" by (simp add: act_ok_def)
    note add = add_folder_ok [OF m key]
    have new: "folder_map ?m i = None" using key(1) has_folder_map [of ?m i] by blast
    have "registered m' sk" if reg: "registered ?m sk" for sk
    proof -
      obtain j l' where j: "folder_map ?m j = Some (sk, l')" using reg by (auto simp: registered_def)
      with new have "j \<noteq> i" by auto
      with j have "folder_map m' j = Some (sk, l')" by (simp add: add(2))
      then show ?thesis unfolding registered_def by blast
    qed
    with add(1) act show "meta_ok m' \<and> (\<forall>sk \<in> fst ` set (ac_stores act). registered m' sk)" by (auto simp: act_ok_def)
  next
    fix e assume "q = Inl e" "sok s1"
    with q run show ?thesis by (auto simp: register_folder_def bnd_def)
  next
    fix act sk m' assume c: "q = Inr sk" "sok s1" "ss_activated s = Some act"
      "register_in_meta i l (mt_meta (ac_state act)) = Inr (sk, m')" "ss_activated s1 = Some (act\<lparr>ac_state := meta_state_from m'\<rparr>)"
    obtain key where key: "\<not> has_folder (mt_meta (ac_state act)) i" "add_folder i l (mt_meta (ac_state act)) = Inr (key, m')"
      "sk = folder_storage_key key"
      using c(4) by (auto simp: register_in_meta_def rbind_Inr split: if_splits)
    have "meta_ok (mt_meta (ac_state act))" using ok c(3) by (auto simp: storage_ok_def act_ok_def)
    from add_folder_ok(2) [OF this key(1,2)] have reg: "registered m' sk" using key(3) unfolding registered_def by auto
    obtain o1 s2 where o1: "store_for_folder env db lib sk s1 = (o1, s2)" by fastforce
    have "sok s2" using store_for_folder_ok [OF c(2) _ o1] reg c(5) by (auto simp: meta_of_def)
    moreover have "t = s2" using run q c(1) o1 by (cases o1) (auto simp: register_folder_def bnd_def op_simps)
    ultimately show ?thesis by simp
  qed
qed

lemma folder_ok:
  assumes ok: "sok s" and run: "folder env db lib i s = (r, t)"
  shows "sok t"
  using run [unfolded folder_def]
proof (cases rule: the_activated_cases)
  case (active act)
  obtain q s1 where q: "resolve_folder i s = (q, s1)" by fastforce
  show ?thesis
  proof (cases q)
    case (Inl x)
    with active q resolve_folder_state [OF q] ok show ?thesis by (auto simp: bnd_def)
  next
    case (Inr y)
    obtain sk l where sk: "q = Inr (sk, l)" using Inr by (cases y) auto
    note res = resolve_folder_ok [OF ok q [unfolded sk]]
    obtain o1 s2 where o1: "store_for_folder env db lib sk s = (o1, s2)" by fastforce
    have "sok s2" using store_for_folder_ok [OF ok _ o1] res(2) by (auto simp: registered_def)
    moreover have "t = s2" using active(2) q sk res(1) o1 by (cases o1) (auto simp: bnd_def op_simps)
    ultimately show ?thesis by simp
  qed
qed (use ok in simp)

lemma list_in_registered:
  assumes "act_ok act" and "x \<in> set (list_in (ac_state act))"
  shows "registered (mt_meta (ac_state act)) (snd (snd x))"
proof -
  let ?m = "mt_meta (ac_state act)"
  have m: "meta_ok ?m" "ac_state act = meta_state_from ?m" using assms(1) by (simp_all add: act_ok_def)
  obtain i l sk where x: "x = (i, l, sk)" by (metis prod.exhaust)
  have "(i, sk, l) \<in> set (mt_registry (ac_state act))" using assms(2) x by (auto simp: list_in_def)
  moreover have "distinct (map fst (mt_registry (meta_state_from ?m)))"
    by (simp add: meta_state_from_def registry_distinct)
  ultimately have "folder_map ?m i = Some (sk, l)"
    using m registry_lookup [OF m(1)] by (metis map_of_is_SomeI)
  with x show ?thesis unfolding registered_def by auto
qed

lemma storage_gc_inbox_ok:
  assumes ok: "sok s" and run: "storage_gc_inbox env db lib s = (r, t)"
  shows "sok t"
  using run [unfolded storage_gc_inbox_def]
proof (cases rule: the_activated_cases)
  case (active act)
  then have gc: "gc_inboxes env db lib (ac_epoch act) (list_in (ac_state act)) s = (r, t)"
    by (simp add: list_folders_def the_activated_def bnd_def op_simps)
  have "act_ok act" using ok active(1) by (simp add: storage_ok_def)
  then show ?thesis
    using gc_inboxes_ok [OF ok _ gc] list_in_registered active(1) by (auto simp: meta_of_def)
qed (use ok in simp)

lemma storage_close_ok: "sok s \<Longrightarrow> storage_close env s = (r, t) \<Longrightarrow> sok t"
  by (auto simp: storage_close_def storage_ok_def act_ok_def split: option.splits)

lemma ensure_folders_ok:
  assumes "sok s" and "ensure_folders env db lib fs s = (r, t)"
  shows "sok t"
proof (cases "meta_of s")
  case None
  then have "t = s" using assms(2)
    by (auto simp: ensure_folders_def modify_meta_def the_activated_def bnd_def op_simps meta_of_def split: if_splits)
  with assms(1) show ?thesis by simp
next
  case (Some m)
  from ensure_folders_meta [OF assms(1) this assms(2)] show ?thesis by cases
qed

lemma storage_exec_ok:
  assumes ok: "sok s" and e: "\<And>e. c = Activate e \<Longrightarrow> wf_epoch e" and run: "storage_exec env db lib c s = (r, t)"
  shows "sok t"
  using run
proof (cases c)
  case (Activate e)
  with run e activate_ok [OF ok] show ?thesis by auto
next
  case (PutIdentity i)
  with run modify_other_ok [OF ok] show ?thesis by (force simp: put_identity_def)
next
  case SetDefaultCheckpoints
  with run modify_other_ok [OF ok, of default_checkpoints_in_meta] show ?thesis
    by (auto simp: set_default_checkpoints_def default_checkpoints_in_meta_def)
next
  case (UpdateSchedule n d)
  with run modify_other_ok [OF ok, of "schedule_in_meta n d"] show ?thesis
    by (auto simp: update_checkpoint_schedule_def schedule_in_meta_def)
qed (use ok in \<open>auto dest!: quietly_state intro: register_folder_ok ensure_folders_ok folder_ok
  remove_folder_ok storage_gc_inbox_ok storage_close_ok\<close>)

end

lemma storage_runs_inv:
  assumes laws: "storage_laws env V" and "storage_ok (se_dec env) V s" and "\<And>e. Activate e \<in> set cmds \<Longrightarrow> wf_epoch e"
  shows "storage_ok (se_dec env) V (storage_runs env db lib cmds s)"
  using assms(2,3)
proof (induction cmds arbitrary: s)
  case (Cons c cmds)
  have "storage_ok (se_dec env) V (snd (storage_exec env db lib c s))"
    by (rule storage_laws.storage_exec_ok [OF laws Cons.prems(1) _ prod.collapse [symmetric]])
      (use Cons.prems(2) in simp)
  with Cons show ?case by (simp add: storage_runs_def)
qed (simp add: storage_runs_def)

text \<open>
  C34. The folder registry is well-formed in every state a session reaches, whatever calls of the
  object store and of the databases fail.  Folder keys are in order, below the next key and the
  encodings of numbers; no folder id occurs twice; the table in memory is the one built from the
  metadata; each open store belongs to a registered folder and is open once; every metadata file
  that decodes is well-formed in the same sense.  So two folder ids never share the directory of
  a database.
\<close>

theorem registry_well_formed:
  assumes "storage_laws env V" and "storage_ok (se_dec env) V s" and "\<And>e. Activate e \<in> set cmds \<Longrightarrow> wf_epoch e"
    and t: "t = storage_runs env db lib cmds s"
  shows "storage_ok (se_dec env) V t \<and>
    (\<forall>i j sk l l'. fst (resolve_folder i t) = Inr (sk, l) \<longrightarrow> fst (resolve_folder j t) = Inr (sk, l') \<longrightarrow> i = j)"
proof (intro conjI allI impI)
  show ok: "storage_ok (se_dec env) V t" unfolding t by (rule storage_runs_inv [OF assms(1-3)])
  fix i j sk l l' assume r: "fst (resolve_folder i t) = Inr (sk, l)" "fst (resolve_folder j t) = Inr (sk, l')"
  then obtain m where m: "meta_of t = Some m"
    by (cases "ss_activated t") (auto simp: resolve_folder_def the_activated_def bnd_def meta_of_def)
  have "folder_map m i = Some (sk, l)" "folder_map m j = Some (sk, l')"
    using storage_laws.resolve_folder_ok(2) [OF assms(1) ok _ m] r by (metis prod.collapse)+
  then show "i = j" by (rule storage_keys_distinct [OF storage_ok_meta [OF ok m]])
qed

theorem registry_well_formed_witness:
  "storage_ok Some map_of (storage_runs mem_storage rbt_slate tagged_lib
     [Activate epoch7, EnsureFolders [(''a'', ''first''), (''b'', ''second'')], RemoveFolder ''a'', CloseStorage] empty_storage)"
proof -
  have dec: "se_dec mem_storage = Some" by (simp add: mem_storage_def)
  have "storage_ok (se_dec mem_storage) map_of empty_storage"
    by (simp add: empty_storage_def storage_ok_def disk_ok_def)
  from registry_well_formed [OF mems.storage_laws_axioms this _ refl, where db = rbt_slate and lib = tagged_lib and
      cmds = "[Activate epoch7, EnsureFolders [(''a'', ''first''), (''b'', ''second'')], RemoveFolder ''a'', CloseStorage]"]
  show ?thesis unfolding dec by simp
qed

text \<open>
  C35. Making sure that folders exist registers all of them or none.  If writing the metadata fails
  the registry is as before.  Otherwise, even if a database cannot be opened then, every folder of
  the request resolves with the last label the request gives for it, the folders that were there
  keep the directory of their database, other folders are as before, and the flags that are
  returned say for each entry whether it was the one that created its folder.
\<close>

theorem ensure_folders_all_or_none:
  assumes laws: "storage_laws env V" and ok: "storage_ok (se_dec env) V s" and m: "meta_of s = Some m"
    and run: "ensure_folders env db lib fs s = (r, t)"
  shows "(\<exists>e. r = Inl e) \<and> meta_of t = Some m \<or>
    (\<exists>created m'. meta_of t = Some m' \<and> ensured fs (folder_map m) created (folder_map m') \<and>
       (\<forall>x. r = Inr x \<longrightarrow> x = created) \<and>
       (\<forall>i l. map_of (rev fs) i = Some l \<longrightarrow> (\<exists>sk. resolve_folder i t = (Inr (sk, l), t))))"
proof (cases rule: storage_laws.ensure_folders_meta [OF laws ok m run, case_names none all])
  case (all created m')
  have "\<exists>sk. resolve_folder i t = (Inr (sk, l), t)" if i: "map_of (rev fs) i = Some l" for i l
  proof -
    obtain sk where "folder_map m' i = Some (sk, l)"
      using all(3) i unfolding ensured_def by (metis (no_types, lifting) map_option_eq_Some option.simps(5) prod.collapse)
    moreover obtain act where "ss_activated t = Some act" "act_ok act" "mt_meta (ac_state act) = m'"
      using all(1,2) by (auto simp: storage_ok_def meta_of_def)
    ultimately have "resolve_in (ac_state act) i = Inr (sk, l)"
      using resolve_in_iff [of m' i sk l] unfolding act_ok_def by auto
    with \<open>ss_activated t = Some act\<close> show ?thesis by (auto simp: resolve_folder_def the_activated_def bnd_def op_simps)
  qed
  with all(2,3,4) show ?thesis by blast
qed simp

theorem ensure_folders_all_or_none_witness:
  "\<exists>sk. resolve_folder ''a'' (snd (ensure_folders mem_storage rbt_slate tagged_lib
       [(''a'', ''old''), (''b'', ''second''), (''a'', ''new'')] stale_storage)) =
     (Inr (sk, ''new''), snd (ensure_folders mem_storage rbt_slate tagged_lib
       [(''a'', ''old''), (''b'', ''second''), (''a'', ''new'')] stale_storage)) \<or>
   (\<exists>e. fst (ensure_folders mem_storage rbt_slate tagged_lib
       [(''a'', ''old''), (''b'', ''second''), (''a'', ''new'')] stale_storage) = Inl e)"
proof -
  have "storage_ok (se_dec mem_storage) map_of stale_storage" "meta_of stale_storage = Some meta_default"
    using epoch0_wf by (auto simp: stale_storage_def storage_ok_def disk_ok_def act_ok_def meta_of_def
        mem_storage_def meta_ok_default split: if_splits)
  from ensure_folders_all_or_none [OF mems.storage_laws_axioms this prod.collapse [symmetric], of
      rbt_slate tagged_lib "[(''a'', ''old''), (''b'', ''second''), (''a'', ''new'')]"]
  show ?thesis by auto
qed

end
