(* ===== verification/Connection.thy ===== *)
theory Connection
  imports FolderApi Retry
begin

text \<open>
  The connection to a peer: \<open>bepository-bep/src/connection.rs\<close>.  The storage is a record of the
  operations of the traits \<open>Storage\<close> and \<open>StorageFolder\<close> of \<open>bepository-bep/src/storage.rs\<close> on a
  state of its own.  Beside the fields of \<open>ConnectionInner\<close> the state has the messages handed to
  the writer task, the queue of the index task and a clock.  The clock counts the points at which
  the environment can interfere: the shutdown token, the writer task and the index task are
  functions of it.  Each handler runs without interruption.
\<close>

section \<open>Messages\<close>

record device =
  dv_id :: bytes
  dv_max_sequence :: i64
  dv_index_id :: u64

record cc_folder =
  cf_id :: bytes
  cf_label :: bytes
  cf_devices :: "device list"

record cluster_config =
  cc_folders :: "cc_folder list"
  cc_secondary :: bool

record index =
  ix_folder :: bytes
  ix_files :: "file_info list"
  ix_last_sequence :: i64

record index_update =
  iu_folder :: bytes
  iu_files :: "file_info list"
  iu_last_sequence :: i64
  iu_prev_sequence :: i64

record request =
  rq_id :: i32
  rq_folder :: bytes
  rq_name :: bytes
  rq_offset :: i64
  rq_size :: i32
  rq_hash :: bytes
  rq_from_temporary :: bool
  rq_block_no :: i32

record response =
  rp_id :: i32
  rp_data :: bytes
  rp_code :: i32

definition NoError :: i32 where "NoError = 0"
definition Generic :: i32 where "Generic = 1"
definition NoSuchFile :: i32 where "NoSuchFile = 2"

text \<open>The messages by type; an unknown type carries its number.\<close>

datatype message =
    ClusterConfigMsg cluster_config
  | IndexMsg index
  | IndexUpdateMsg index_update
  | RequestMsg request
  | ResponseMsg response
  | DownloadProgressMsg
  | PingMsg
  | CloseMsg bytes
  | UnknownMsg i32

section \<open>The storage traits\<close>

record ('s, 'f) storage_ops =
  op_folder :: "bytes \<Rightarrow> ('s, storage_error, 'f) op"
  op_list_folders :: "('s, storage_error, (bytes \<times> bytes \<times> bytes) list) op"
  op_ensure_folders :: "(bytes \<times> bytes) list \<Rightarrow> ('s, storage_error, bool list) op"
  op_id :: "'f \<Rightarrow> bytes"
  op_label :: "'f \<Rightarrow> bytes"
  op_index :: "'f \<Rightarrow> i64 \<Rightarrow> ('s, storage_error, (storage_error + file_info) list) op"
  op_read_block :: "'f \<Rightarrow> bytes \<Rightarrow> i64 \<Rightarrow> i32 \<Rightarrow> bytes \<Rightarrow> ('s, storage_error, bytes) op"
  op_apply_update :: "'f \<Rightarrow> file_info \<Rightarrow> device_id \<Rightarrow> ('s, storage_error, update_result) op"
  op_local_sequence :: "'f \<Rightarrow> ('s, storage_error, i64) op"
  op_remote_state :: "'f \<Rightarrow> device_id \<Rightarrow> ('s, storage_error, bep_remote_state) op"
  op_set_remote_state :: "'f \<Rightarrow> device_id \<Rightarrow> bep_remote_state \<Rightarrow> ('s, storage_error, unit) op"
  op_resolve_conflict :: "'f \<Rightarrow> file_info \<Rightarrow> file_info \<Rightarrow> bytes option \<Rightarrow> ('s, storage_error, unit) op"
  op_store_block :: "'f \<Rightarrow> bytes \<Rightarrow> i64 \<Rightarrow> bytes \<Rightarrow> bytes \<Rightarrow> ('s, storage_error, unit) op"
  op_complete_file :: "'f \<Rightarrow> bytes \<Rightarrow> vector option \<Rightarrow> ('s, storage_error, file_info option) op"
  op_reuse_block :: "'f \<Rightarrow> bytes \<Rightarrow> i64 \<Rightarrow> bytes \<Rightarrow> i32 \<Rightarrow> ('s, storage_error, bool) op"

section \<open>State\<close>

definition clamp_max_pending_requests :: "nat \<Rightarrow> nat" where
  "clamp_max_pending_requests v = max v 1"

datatype close_reason = CloseLocal | CloseRemote bytes | CloseError bep_error

record 'f file_block =
  fb_folder :: 'f
  fb_name :: bytes
  fb_offset :: i64
  fb_hash :: bytes
  fb_version :: "vector option"

record 'f deferred_request =
  dq_block :: "'f file_block"
  dq_size :: i32
  dq_block_no :: i32

record ('s, 'f) connection =
  cn_storage :: 's
  cn_mutual_folders :: "(bytes \<times> u64) list"
  cn_our_cc_folders :: "bytes list"
  cn_pending_requests :: "(i32 \<times> 'f file_block) list"
  cn_next_request_id :: i32
  cn_max_pending_requests :: nat
  cn_deferred_blocks :: "'f deferred_request list"
  cn_out :: "message list"
  cn_index_queue :: "message list"
  cn_clock :: nat

text \<open>The context of a connection.  The policy allows at most \<open>cx_limit\<close> retries; the other
  functions are the environment at a value of the clock.\<close>

record connection_context =
  cx_remote_device :: device_id
  cx_local_device :: device_id
  cx_resolver :: resolver
  cx_policy :: retry_policy
  cx_limit :: u32
  cx_cancelled :: "nat \<Rightarrow> bool"
  cx_interrupted :: "nat \<Rightarrow> u32 \<Rightarrow> bool"
  cx_writer_open :: "nat \<Rightarrow> bool"
  cx_index_open :: "nat \<Rightarrow> bool"

type_synonym ('s, 'f, 'a) conn_op = "(('s, 'f) connection, bep_error, 'a) op"

text \<open>The wrapping counter of request ids, which skips the ids in flight.  The fuel is the number
  of ids that are tried; \<open>next_request_id_fresh\<close> shows that it is enough.\<close>

definition i32_wrapping_succ :: "i32 \<Rightarrow> i32" where
  "i32_wrapping_succ i = (if i = 2 ^ 31 - 1 then - (2 ^ 31) else i + 1)"

fun next_id_loop :: "nat \<Rightarrow> i32 set \<Rightarrow> i32 \<Rightarrow> (i32 \<times> i32) option" where
  "next_id_loop 0 used i = None"
| "next_id_loop (Suc fuel) used i =
     (if i \<notin> used then Some (i, i32_wrapping_succ i) else next_id_loop fuel used (i32_wrapping_succ i))"

definition next_request_id :: "('s, 'f) connection \<Rightarrow> (i32 \<times> i32) option" where
  "next_request_id c =
     next_id_loop (Suc (length (cn_pending_requests c))) (fst ` set (cn_pending_requests c)) (cn_next_request_id c)"

text \<open>\<open>ConnectionContext::retry\<close> on the storage, and a call without retries.\<close>

definition ctx_retry :: "connection_context \<Rightarrow> ('s, storage_error, 'a) op \<Rightarrow> ('s, 'f, 'a) conn_op" where
  "ctx_retry ctx m c =
     (case retry_storage_op (Suc (unat (cx_limit ctx))) (cx_policy ctx) (cx_interrupted ctx (cn_clock c)) m (cn_storage c) of
        None \<Rightarrow> (Inl (BepInternal ''out of fuel''), c)
      | Some (r, s) \<Rightarrow> (r, c\<lparr>cn_storage := s, cn_clock := Suc (cn_clock c)\<rparr>))"

definition on_storage :: "('s, storage_error, 'a) op \<Rightarrow> ('s, 'f, storage_error + 'a) conn_op" where
  "on_storage m c = (case m (cn_storage c) of (r, s) \<Rightarrow> (Inr r, c\<lparr>cn_storage := s\<rparr>))"

definition is_cancelled :: "connection_context \<Rightarrow> ('s, 'f, bool) conn_op" where
  "is_cancelled ctx c = (Inr (cx_cancelled ctx (cn_clock c)), c\<lparr>cn_clock := Suc (cn_clock c)\<rparr>)"

text \<open>\<open>MessageWriter::send\<close>: the message is queued for the writer task, unless that has ended.\<close>

definition send_message :: "connection_context \<Rightarrow> message \<Rightarrow> ('s, 'f, unit) conn_op" where
  "send_message ctx msg c =
     (if cx_writer_open ctx (cn_clock c)
      then (Inr (), c\<lparr>cn_out := cn_out c @ [msg], cn_clock := Suc (cn_clock c)\<rparr>)
      else (Inl WriterClosed, c\<lparr>cn_clock := Suc (cn_clock c)\<rparr>))"

text \<open>The permits a message takes of the byte budget.\<close>

definition budget_permits :: "nat \<Rightarrow> nat \<Rightarrow> nat" where
  "budget_permits max_budget n = min (max (min n (2 ^ 32 - 1)) 1) max_budget"

section \<open>The supervisor\<close>

fun priority :: "bep_error \<Rightarrow> nat" where
  "priority (BepUnsupportedVersion _ _) = 110"
| "priority (BepCorruption _) = 100"
| "priority (BepInternal _) = 90"
| "priority (PeerBadHello _) = 70"
| "priority (PeerBadMessage _) = 70"
| "priority (PeerError _ _) = 60"
| "priority DeviceRejected = 60"
| "priority (BepStandby _) = 50"
| "priority (NetworkError _) = 20"
| "priority (BepTransientIo _) = 15"
| "priority WriterClosed = 5"
| "priority (PeerClosed _) = 1"

text \<open>The results of the worker tasks in the order in which they end; a task that does not end in
  time is abandoned.\<close>

datatype task_result =
    TaskDone "close_reason option"
  | TaskFailed bep_error
  | TaskCancelled
  | TaskPanicked string

text \<open>\<open>Iterator::max\<close>: the last of the greatest.\<close>

fun max_error :: "bep_error list \<Rightarrow> bep_error option" where
  "max_error [] = None"
| "max_error (e # es) =
     (case max_error es of None \<Rightarrow> Some e | Some e' \<Rightarrow> Some (if priority e' \<ge> priority e then e' else e))"

fun task_errors :: "task_result list \<Rightarrow> bep_error list" where
  "task_errors [] = []"
| "task_errors (TaskFailed e # rs) = e # task_errors rs"
| "task_errors (TaskPanicked msg # rs) = BepInternal ''task panicked'' # task_errors rs"
| "task_errors (_ # rs) = task_errors rs"

fun task_reason :: "task_result list \<Rightarrow> close_reason option" where
  "task_reason [] = None"
| "task_reason (TaskDone (Some r) # rs) = Some r"
| "task_reason (_ # rs) = task_reason rs"

definition supervise :: "task_result list \<Rightarrow> bep_error + close_reason" where
  "supervise rs =
     (case max_error (task_errors rs) of
        Some e \<Rightarrow> Inl e
      | None \<Rightarrow> Inr (case task_reason rs of Some r \<Rightarrow> r | None \<Rightarrow> CloseLocal))"

definition run_connection_reason :: "bep_error + close_reason \<Rightarrow> close_reason" where
  "run_connection_reason result = (case result of Inr reason \<Rightarrow> reason | Inl e \<Rightarrow> CloseError e)"

section \<open>Cluster configuration\<close>

fun build_folders ::
  "('s, 'f) storage_ops \<Rightarrow> connection_context \<Rightarrow> device_id \<Rightarrow> device_id \<Rightarrow> bytes list \<Rightarrow> ('s, 'f, cc_folder list) conn_op" where
  "build_folders ops ctx local_device remote_device [] = ok []"
| "build_folders ops ctx local_device remote_device (folder_id # folders) =
     bnd (ctx_retry ctx (op_folder ops folder_id)) (\<lambda>f.
     bnd (ctx_retry ctx (op_local_sequence ops f)) (\<lambda>seq.
     bnd (build_folders ops ctx local_device remote_device folders) (\<lambda>rest.
       ok (\<lparr>cf_id = folder_id, cf_label = op_label ops f,
            cf_devices = [\<lparr>dv_id = local_device, dv_max_sequence = seq, dv_index_id = 0\<rparr>,
              \<lparr>dv_id = remote_device, dv_max_sequence = 0, dv_index_id = 0\<rparr>]\<rparr> # rest))))"

definition build_cluster_config ::
  "('s, 'f) storage_ops \<Rightarrow> connection_context \<Rightarrow> device_id \<Rightarrow> device_id \<Rightarrow> bytes list \<Rightarrow> ('s, 'f, cluster_config) conn_op" where
  "build_cluster_config ops ctx local_device remote_device folders =
     bnd (build_folders ops ctx local_device remote_device folders) (\<lambda>fs.
       ok \<lparr>cc_folders = fs, cc_secondary = False\<rparr>)"

text \<open>The stream of the index: an error in it ends the loop.\<close>

fun collect_index :: "(storage_error + file_info) list \<Rightarrow> file_info list \<Rightarrow> i64 \<Rightarrow> bep_error + file_info list \<times> i64" where
  "collect_index [] files last_seq = Inr (files, last_seq)"
| "collect_index (Inl e # rs) files last_seq = Inl (standard_map_error e)"
| "collect_index (Inr fi # rs) files last_seq =
     collect_index rs (files @ [fi]) (if fi_sequence fi > last_seq then fi_sequence fi else last_seq)"

definition send_index ::
  "('s, 'f) storage_ops \<Rightarrow> connection_context \<Rightarrow> bytes \<Rightarrow> ('s, 'f, unit) conn_op" where
  "send_index ops ctx folder_id =
     bnd (ctx_retry ctx (op_folder ops folder_id)) (\<lambda>fo.
     bnd (ctx_retry ctx (op_index ops fo 0)) (\<lambda>stream.
     bnd (lift_res (collect_index stream [] 0)) (\<lambda>(files, last_seq).
       send_message ctx (IndexMsg \<lparr>ix_folder = folder_id, ix_files = files, ix_last_sequence = last_seq\<rparr>))))"

fun send_indexes ::
  "('s, 'f) storage_ops \<Rightarrow> connection_context \<Rightarrow> (bytes \<times> u64) list \<Rightarrow> ('s, 'f, unit) conn_op" where
  "send_indexes ops ctx [] = ok ()"
| "send_indexes ops ctx ((folder_id, _) # fs) =
     bnd (send_index ops ctx folder_id) (\<lambda>_. send_indexes ops ctx fs)"

fun parse_cc_folders ::
  "device_id \<Rightarrow> cc_folder list \<Rightarrow> bep_error + (bytes \<times> bytes) list \<times> (bytes \<times> u64) list" where
  "parse_cc_folders remote_device [] = Inr ([], [])"
| "parse_cc_folders remote_device (f # fs) =
     (case find (\<lambda>d. dv_id d = remote_device) (cf_devices f) of
        None \<Rightarrow> Inl (PeerBadMessage ''peer omitted themselves from folder in ClusterConfig'')
      | Some dev \<Rightarrow>
          rbind (parse_cc_folders remote_device fs) (\<lambda>(refs, parsed).
            Inr ((cf_id f, cf_label f) # refs, (cf_id f, dv_index_id dev) # parsed)))"

definition process_peer_cc ::
  "('s, 'f) storage_ops \<Rightarrow> connection_context \<Rightarrow> cluster_config \<Rightarrow> (bytes \<times> u64) list \<Rightarrow> bytes list \<Rightarrow>
   ('s, 'f, (bytes \<times> u64) list \<times> bytes list) conn_op" where
  "process_peer_cc ops ctx peer_cc current_mutual our_cc =
     bnd (lift_res (parse_cc_folders (cx_remote_device ctx) (cc_folders peer_cc))) (\<lambda>(folder_refs, parsed_folders).
     bnd (ctx_retry ctx (op_ensure_folders ops folder_refs)) (\<lambda>created.
       let new_mutual = filter (\<lambda>(i, _). map_of current_mutual i = None) parsed_folders;
           new_for_our_cc = map fst (filter (\<lambda>(i, _). i \<notin> set our_cc) new_mutual)
       in bnd (if new_for_our_cc = [] then ok ()
               else bnd (build_cluster_config ops ctx (cx_local_device ctx) (cx_remote_device ctx) (our_cc @ new_for_our_cc))
                 (\<lambda>updated_cc. send_message ctx (ClusterConfigMsg updated_cc))) (\<lambda>_.
          bnd (send_indexes ops ctx new_mutual) (\<lambda>_. ok (new_mutual, new_for_our_cc)))))"

text \<open>\<open>HashMap::insert\<close> and \<open>HashSet::insert\<close>, one after the other.\<close>

definition map_insert :: "'k \<Rightarrow> 'v \<Rightarrow> ('k \<times> 'v) list \<Rightarrow> ('k \<times> 'v) list" where
  "map_insert k v kvs = (k, v) # filter (\<lambda>kv. fst kv \<noteq> k) kvs"

definition map_insert_all :: "('k \<times> 'v) list \<Rightarrow> ('k \<times> 'v) list \<Rightarrow> ('k \<times> 'v) list" where
  "map_insert_all new kvs = foldl (\<lambda>kvs (k, v). map_insert k v kvs) kvs new"

definition set_insert_all :: "'k list \<Rightarrow> 'k list \<Rightarrow> 'k list" where
  "set_insert_all new ks = foldl (\<lambda>ks k. if k \<in> set ks then ks else ks @ [k]) ks new"

text \<open>The handshake: our configuration goes out first; \<open>peer\<close> is the first message of the peer.
  The state of the connection is made from the result.\<close>

definition exchange_initial_cluster_config ::
  "('s, 'f) storage_ops \<Rightarrow> connection_context \<Rightarrow> bytes list \<Rightarrow> bep_error + message \<Rightarrow> ('s, 'f, (bytes \<times> u64) list \<times> bytes list) conn_op" where
  "exchange_initial_cluster_config ops ctx shared_folders peer =
     bnd (ctx_retry ctx (op_list_folders ops)) (\<lambda>folders.
       let initial_folders = foldl (\<lambda>acc (i, _, _). if i \<in> set acc then acc else acc @ [i]) shared_folders folders in
       bnd (build_cluster_config ops ctx (cx_local_device ctx) (cx_remote_device ctx) initial_folders) (\<lambda>cluster_config.
       bnd (send_message ctx (ClusterConfigMsg cluster_config)) (\<lambda>_.
       bnd (lift_res peer) (\<lambda>msg. case msg of
         ClusterConfigMsg peer_cc \<Rightarrow>
           bnd (process_peer_cc ops ctx peer_cc [] (remdups initial_folders)) (\<lambda>(mutual_folders, new_for_our_cc).
             ok (map_insert_all mutual_folders [], set_insert_all new_for_our_cc (remdups initial_folders)))
       | _ \<Rightarrow> err (PeerBadMessage ''unexpected message type in state cluster_config'')))))"

definition connection_new ::
  "'s \<Rightarrow> (bytes \<times> u64) list \<Rightarrow> bytes list \<Rightarrow> nat \<Rightarrow> message list \<Rightarrow> nat \<Rightarrow> ('s, 'f) connection" where
  "connection_new storage mutual_folders our_cc_folders max_pending_requests sent clock =
     \<lparr>cn_storage = storage, cn_mutual_folders = mutual_folders, cn_our_cc_folders = our_cc_folders,
      cn_pending_requests = [], cn_next_request_id = 0,
      cn_max_pending_requests = clamp_max_pending_requests max_pending_requests,
      cn_deferred_blocks = [], cn_out = sent, cn_index_queue = [], cn_clock = clock\<rparr>"

definition handle_cluster_config_update ::
  "('s, 'f) storage_ops \<Rightarrow> connection_context \<Rightarrow> cluster_config \<Rightarrow> ('s, 'f, unit) conn_op" where
  "handle_cluster_config_update ops ctx cc =
     bnd (get_st (\<lambda>c. (cn_mutual_folders c, cn_our_cc_folders c))) (\<lambda>(current_mutual, our_cc_snap).
     bnd (process_peer_cc ops ctx cc current_mutual our_cc_snap) (\<lambda>(new_mutual, new_for_our_cc).
       mod_st (\<lambda>c. c\<lparr>cn_mutual_folders := map_insert_all new_mutual (cn_mutual_folders c),
         cn_our_cc_folders := set_insert_all new_for_our_cc (cn_our_cc_folders c)\<rparr>)))"

section \<open>Blocks\<close>

text \<open>Submit a request, or defer it when the pipeline is full.\<close>

definition submit_or_defer_block ::
  "('s, 'f) storage_ops \<Rightarrow> connection_context \<Rightarrow> 'f file_block \<Rightarrow> i32 \<Rightarrow> i32 \<Rightarrow> ('s, 'f, unit) conn_op" where
  "submit_or_defer_block ops ctx block sz block_no c =
     (if length (cn_pending_requests c) \<ge> cn_max_pending_requests c
      then (Inr (), c\<lparr>cn_deferred_blocks := cn_deferred_blocks c @
             [\<lparr>dq_block = block, dq_size = sz, dq_block_no = block_no\<rparr>]\<rparr>)
      else
        (case next_request_id c of
           None \<Rightarrow> (Inl (BepInternal ''out of fuel''), c)
         | Some (i, nxt) \<Rightarrow>
             send_message ctx
               (RequestMsg \<lparr>rq_id = i, rq_folder = op_id ops (fb_folder block), rq_name = fb_name block,
                  rq_offset = fb_offset block, rq_size = sz, rq_hash = fb_hash block,
                  rq_from_temporary = False, rq_block_no = block_no\<rparr>)
               (c\<lparr>cn_next_request_id := nxt,
                  cn_pending_requests := (i, block) # cn_pending_requests c\<rparr>)))"

text \<open>No request of the file is pending or deferred.\<close>

definition should_complete :: "('s, 'f) storage_ops \<Rightarrow> 'f \<Rightarrow> bytes \<Rightarrow> ('s, 'f) connection \<Rightarrow> bool" where
  "should_complete ops fo name c \<longleftrightarrow>
     \<not> list_ex (\<lambda>(_, p). op_id ops (fb_folder p) = op_id ops fo \<and> fb_name p = name) (cn_pending_requests c) \<and>
     \<not> list_ex (\<lambda>d. op_id ops (fb_folder (dq_block d)) = op_id ops fo \<and> fb_name (dq_block d) = name) (cn_deferred_blocks c)"

definition maybe_complete_file ::
  "('s, 'f) storage_ops \<Rightarrow> connection_context \<Rightarrow> 'f \<Rightarrow> bytes \<Rightarrow> vector option \<Rightarrow> ('s, 'f, file_info option) conn_op" where
  "maybe_complete_file ops ctx fo name version =
     bnd (get_st (should_complete ops fo name)) (\<lambda>b.
       if \<not> b then ok None else ctx_retry ctx (op_complete_file ops fo name version))"

definition send_index_update ::
  "connection_context \<Rightarrow> file_info \<Rightarrow> bytes \<Rightarrow> ('s, 'f, unit) conn_op" where
  "send_index_update ctx fi folder_id =
     send_message ctx (IndexUpdateMsg \<lparr>iu_folder = folder_id, iu_files = [fi],
       iu_last_sequence = fi_sequence fi, iu_prev_sequence = 0\<rparr>)"

definition complete_and_notify ::
  "('s, 'f) storage_ops \<Rightarrow> connection_context \<Rightarrow> 'f \<Rightarrow> bytes \<Rightarrow> vector option \<Rightarrow> ('s, 'f, unit) conn_op" where
  "complete_and_notify ops ctx fo name version =
     bnd (maybe_complete_file ops ctx fo name version) (\<lambda>res. case res of
       None \<Rightarrow> ok ()
     | Some fi \<Rightarrow>
         send_message ctx (IndexUpdateMsg \<lparr>iu_folder = op_id ops fo, iu_files = [fi],
           iu_last_sequence = fi_sequence fi, iu_prev_sequence = 0\<rparr>))"

text \<open>The loop over the deferred blocks.  Every round takes one block off the queue, and with no
  other task in between none comes back, so the length of the queue bounds the rounds.\<close>

fun drain_loop ::
  "nat \<Rightarrow> ('s, 'f) storage_ops \<Rightarrow> connection_context \<Rightarrow> ('s, 'f, unit) conn_op" where
  "drain_loop 0 ops ctx = err (BepInternal ''out of fuel'')"
| "drain_loop (Suc fuel) ops ctx =
     bnd (is_cancelled ctx) (\<lambda>stop.
       if stop then ok ()
       else
         bnd (get_st (\<lambda>c. (length (cn_pending_requests c) \<ge> cn_max_pending_requests c, cn_deferred_blocks c))) (\<lambda>(full, queue).
           if full then ok ()
           else case queue of
             [] \<Rightarrow> ok ()
           | d # ds \<Rightarrow>
               bnd (mod_st (\<lambda>c. c\<lparr>cn_deferred_blocks := ds\<rparr>)) (\<lambda>_.
               bnd (ctx_retry ctx (op_reuse_block ops (fb_folder (dq_block d)) (fb_name (dq_block d))
                      (fb_offset (dq_block d)) (fb_hash (dq_block d)) (dq_size d))) (\<lambda>reused.
                 if reused then
                   bnd (complete_and_notify ops ctx (fb_folder (dq_block d)) (fb_name (dq_block d)) (fb_version (dq_block d)))
                     (\<lambda>_. drain_loop fuel ops ctx)
                 else
                   bnd (submit_or_defer_block ops ctx (dq_block d) (dq_size d) (dq_block_no d))
                     (\<lambda>_. drain_loop fuel ops ctx)))))"

definition drain_deferred :: "('s, 'f) storage_ops \<Rightarrow> connection_context \<Rightarrow> ('s, 'f, unit) conn_op" where
  "drain_deferred ops ctx c = drain_loop (Suc (length (cn_deferred_blocks c))) ops ctx c"

fun request_loop ::
  "('s, 'f) storage_ops \<Rightarrow> connection_context \<Rightarrow> 'f \<Rightarrow> file_info \<Rightarrow> nat \<Rightarrow> block_info list \<Rightarrow> ('s, 'f, unit) conn_op" where
  "request_loop ops ctx fo fi i [] = ok ()"
| "request_loop ops ctx fo fi i (block # blocks) =
     bnd (is_cancelled ctx) (\<lambda>stop.
       if stop then ok ()
       else
         bnd (ctx_retry ctx (op_reuse_block ops fo (fi_name fi) (bi_offset block) (bi_hash block) (bi_size block))) (\<lambda>reused.
           if reused then request_loop ops ctx fo fi (Suc i) blocks
           else if i \<ge> 2 ^ 31 then err (BepInternal ''block index exceeds i32'')
           else
             bnd (submit_or_defer_block ops ctx \<lparr>fb_folder = fo, fb_name = fi_name fi, fb_offset = bi_offset block,
                    fb_hash = bi_hash block, fb_version = fi_version fi\<rparr> (bi_size block) (int i))
               (\<lambda>_. request_loop ops ctx fo fi (Suc i) blocks)))"

definition request_blocks ::
  "('s, 'f) storage_ops \<Rightarrow> connection_context \<Rightarrow> 'f \<Rightarrow> file_info \<Rightarrow> ('s, 'f, unit) conn_op" where
  "request_blocks ops ctx fo fi = request_loop ops ctx fo fi 0 (fi_blocks fi)"

section \<open>Indexes\<close>

fun apply_files ::
  "('s, 'f) storage_ops \<Rightarrow> connection_context \<Rightarrow> 'f \<Rightarrow> file_info list \<Rightarrow> ('s, 'f, file_info list) conn_op" where
  "apply_files ops ctx fo [] = ok []"
| "apply_files ops ctx fo (file # files) =
     bnd (lift_res (validate_file_info file)) (\<lambda>_.
     bnd (ctx_retry ctx (op_apply_update ops fo file (cx_remote_device ctx))) (\<lambda>result.
     bnd (case result of
            NeedBlocks fi \<Rightarrow> ok [fi]
          | NoAction \<Rightarrow> ok []
          | Applied fi \<Rightarrow> bnd (send_index_update ctx fi (op_id ops fo)) (\<lambda>_. ok [])
          | ConcurrentEdit local remote \<Rightarrow>
              bnd (lift_res (cx_resolver ctx local (cx_local_device ctx) remote (cx_remote_device ctx))) (\<lambda>resolution.
              bnd (ctx_retry ctx (op_resolve_conflict ops fo (winner resolution) (loser resolution) (loser_path resolution))) (\<lambda>_.
                ok (if fi_deleted (winner resolution) then [] else [winner resolution])))) (\<lambda>here.
     bnd (apply_files ops ctx fo files) (\<lambda>needed. ok (here @ needed)))))"

fun request_needed ::
  "('s, 'f) storage_ops \<Rightarrow> connection_context \<Rightarrow> 'f \<Rightarrow> file_info list \<Rightarrow> ('s, 'f, unit) conn_op" where
  "request_needed ops ctx fo [] = ok ()"
| "request_needed ops ctx fo (fi # needed) =
     bnd (request_blocks ops ctx fo fi) (\<lambda>_.
     bnd (complete_and_notify ops ctx fo (fi_name fi) (fi_version fi)) (\<lambda>_.
       request_needed ops ctx fo needed))"

definition apply_remote_index ::
  "('s, 'f) storage_ops \<Rightarrow> connection_context \<Rightarrow> bytes \<Rightarrow> file_info list \<Rightarrow> i64 \<Rightarrow> ('s, 'f, unit) conn_op" where
  "apply_remote_index ops ctx folder_id files last_sequence =
     bnd (get_st (\<lambda>c. map_of (cn_mutual_folders c) folder_id)) (\<lambda>peer_index_id.
     bnd (case peer_index_id of
            None \<Rightarrow> err (PeerBadMessage ''Index for non-mutual folder'')
          | Some index_id \<Rightarrow> ok index_id) (\<lambda>index_id.
     bnd (ctx_retry ctx (op_folder ops folder_id)) (\<lambda>fo.
     bnd (apply_files ops ctx fo files) (\<lambda>needed.
     bnd (request_needed ops ctx fo needed) (\<lambda>_.
       ctx_retry ctx (op_set_remote_state ops fo (cx_remote_device ctx)
         \<lparr>rs_index_id = index_id, rs_max_sequence = last_sequence\<rparr>))))))"

definition handle_index :: "('s, 'f) storage_ops \<Rightarrow> connection_context \<Rightarrow> index \<Rightarrow> ('s, 'f, unit) conn_op" where
  "handle_index ops ctx ix = apply_remote_index ops ctx (ix_folder ix) (ix_files ix) (ix_last_sequence ix)"

definition handle_index_update :: "('s, 'f) storage_ops \<Rightarrow> connection_context \<Rightarrow> index_update \<Rightarrow> ('s, 'f, unit) conn_op" where
  "handle_index_update ops ctx u = apply_remote_index ops ctx (iu_folder u) (iu_files u) (iu_last_sequence u)"

section \<open>Requests and responses\<close>

definition request_code :: "storage_error \<Rightarrow> i32" where
  "request_code e = (case e of NotFound _ \<Rightarrow> NoSuchFile | _ \<Rightarrow> Generic)"

definition handle_request :: "('s, 'f) storage_ops \<Rightarrow> connection_context \<Rightarrow> request \<Rightarrow> ('s, 'f, unit) conn_op" where
  "handle_request ops ctx request =
     bnd (ctx_retry ctx (op_folder ops (rq_folder request))) (\<lambda>fo.
     bnd (if rq_offset request < 0 \<or> rq_size request < 0
          then ok (Inl (InvalidInput ''negative offset or size''))
          else on_storage (op_read_block ops fo (rq_name request) (rq_offset request) (rq_size request) (rq_hash request))) (\<lambda>result.
       send_message ctx (ResponseMsg (case result of
         Inr data \<Rightarrow> \<lparr>rp_id = rq_id request, rp_data = data, rp_code = NoError\<rparr>
       | Inl e \<Rightarrow> \<lparr>rp_id = rq_id request, rp_data = [], rp_code = request_code e\<rparr>))))"

definition take_pending :: "i32 \<Rightarrow> ('s, 'f, 'f file_block option) conn_op" where
  "take_pending i c =
     (Inr (map_of (cn_pending_requests c) i),
      c\<lparr>cn_pending_requests := filter (\<lambda>p. fst p \<noteq> i) (cn_pending_requests c)\<rparr>)"

definition handle_response :: "('s, 'f) storage_ops \<Rightarrow> connection_context \<Rightarrow> response \<Rightarrow> ('s, 'f, unit) conn_op" where
  "handle_response ops ctx response =
     bnd (take_pending (rp_id response)) (\<lambda>pending.
     bnd (case pending of
            None \<Rightarrow> ok None
          | Some block \<Rightarrow>
              if rp_code response \<noteq> NoError
              then err (PeerError (rp_code response) (op_id ops (fb_folder block) @ ''/'' @ fb_name block))
              else
                bnd (ctx_retry ctx (op_store_block ops (fb_folder block) (fb_name block) (fb_offset block)
                       (fb_hash block) (rp_data response))) (\<lambda>_.
                  ok (Some (fb_folder block, fb_name block, fb_version block)))) (\<lambda>completed_file.
     bnd (drain_deferred ops ctx) (\<lambda>_.
       case completed_file of
         None \<Rightarrow> ok ()
       | Some (fo, name, version) \<Rightarrow> complete_and_notify ops ctx fo name version)))"

section \<open>The tasks\<close>

text \<open>The events of the message loop.  An inbound message is the result of reading a frame and
  decoding its body.\<close>

datatype event =
    Cancelled
  | PingTick
  | Inbound "bep_error + message"

definition send_to_index_task :: "connection_context \<Rightarrow> message \<Rightarrow> ('s, 'f, unit) conn_op" where
  "send_to_index_task ctx msg c =
     (if cx_index_open ctx (cn_clock c)
      then (Inr (), c\<lparr>cn_index_queue := cn_index_queue c @ [msg], cn_clock := Suc (cn_clock c)\<rparr>)
      else (Inl (BepInternal ''index task closed''), c\<lparr>cn_clock := Suc (cn_clock c)\<rparr>))"

text \<open>One message; a reason ends the loop.\<close>

definition dispatch_message ::
  "('s, 'f) storage_ops \<Rightarrow> connection_context \<Rightarrow> message \<Rightarrow> ('s, 'f, close_reason option) conn_op" where
  "dispatch_message ops ctx msg =
     (let go = (\<lambda>m. bnd m (\<lambda>_. ok None)) in
      case msg of
        IndexMsg ix \<Rightarrow> go (send_to_index_task ctx msg)
      | IndexUpdateMsg u \<Rightarrow> go (send_to_index_task ctx msg)
      | RequestMsg request \<Rightarrow> go (handle_request ops ctx request)
      | ResponseMsg response \<Rightarrow> go (handle_response ops ctx response)
      | PingMsg \<Rightarrow> ok None
      | CloseMsg reason \<Rightarrow> ok (Some (CloseRemote reason))
      | ClusterConfigMsg cc \<Rightarrow> go (handle_cluster_config_update ops ctx cc)
      | DownloadProgressMsg \<Rightarrow> ok None
      | UnknownMsg n \<Rightarrow> ok None)"

text \<open>The result of the last send is ignored.\<close>

definition send_close :: "connection_context \<Rightarrow> ('s, 'f, unit) conn_op" where
  "send_close ctx c = (Inr (), snd (send_message ctx (CloseMsg ''shutdown requested'') c))"

definition loop_event ::
  "('s, 'f) storage_ops \<Rightarrow> connection_context \<Rightarrow> event \<Rightarrow> ('s, 'f, close_reason option) conn_op" where
  "loop_event ops ctx ev =
     (case ev of
        Cancelled \<Rightarrow> bnd (send_close ctx) (\<lambda>_. ok (Some CloseLocal))
      | PingTick \<Rightarrow> bnd (send_message ctx PingMsg) (\<lambda>_. ok None)
      | Inbound msg \<Rightarrow> bnd (lift_res msg) (dispatch_message ops ctx))"

text \<open>The loop on the events that have happened; with no reason it is still waiting.\<close>

fun run_message_loop ::
  "('s, 'f) storage_ops \<Rightarrow> connection_context \<Rightarrow> event list \<Rightarrow> ('s, 'f, close_reason option) conn_op" where
  "run_message_loop ops ctx [] = ok None"
| "run_message_loop ops ctx (ev # evs) =
     bnd (loop_event ops ctx ev) (\<lambda>reason. case reason of
       Some r \<Rightarrow> ok (Some r)
     | None \<Rightarrow> run_message_loop ops ctx evs)"

definition dispatch_index :: "('s, 'f) storage_ops \<Rightarrow> connection_context \<Rightarrow> message \<Rightarrow> ('s, 'f, unit) conn_op" where
  "dispatch_index ops ctx msg =
     (case msg of
        IndexMsg ix \<Rightarrow> handle_index ops ctx ix
      | IndexUpdateMsg u \<Rightarrow> handle_index_update ops ctx u
      | _ \<Rightarrow> ok ())"

text \<open>The index task takes the messages off its queue until it is empty or the connection is shut
  down.\<close>

fun index_loop ::
  "nat \<Rightarrow> ('s, 'f) storage_ops \<Rightarrow> connection_context \<Rightarrow> ('s, 'f, unit) conn_op" where
  "index_loop 0 ops ctx = ok ()"
| "index_loop (Suc n) ops ctx =
     bnd (is_cancelled ctx) (\<lambda>stop.
       if stop then ok ()
       else
         bnd (get_st cn_index_queue) (\<lambda>queue. case queue of
           [] \<Rightarrow> ok ()
         | msg # rest \<Rightarrow>
             bnd (mod_st (\<lambda>c. c\<lparr>cn_index_queue := rest\<rparr>)) (\<lambda>_.
             bnd (dispatch_index ops ctx msg) (\<lambda>_. index_loop n ops ctx))))"

definition run_index_loop :: "('s, 'f) storage_ops \<Rightarrow> connection_context \<Rightarrow> ('s, 'f, unit) conn_op" where
  "run_index_loop ops ctx c = index_loop (length (cn_index_queue c)) ops ctx c"

end
