(* ===== verification/ConnInv.thy ===== *)
theory ConnInv
  imports Connection
begin

text \<open>
  The bookkeeping of a connection: request ids are fresh, the pipeline never holds more than its
  limit, and blocks are deferred only while it is full.  These facts hold for every storage.
\<close>

section \<open>Request ids\<close>

definition i32_ok :: "i32 \<Rightarrow> bool" where
  "i32_ok i \<longleftrightarrow> - (2 ^ 31) \<le> i \<and> i < 2 ^ 31"

definition id_at :: "i32 \<Rightarrow> nat \<Rightarrow> i32" where
  "id_at i k = (i + 2 ^ 31 + int k) mod 2 ^ 32 - 2 ^ 31"

lemma id_at_0: "i32_ok i \<Longrightarrow> id_at i 0 = i"
  by (simp add: id_at_def i32_ok_def)

lemma id_at_ok: "i32_ok (id_at i k)"
  using pos_mod_bound [of "2 ^ 32 :: int" "i + 2 ^ 31 + int k"] by (simp add: id_at_def i32_ok_def)

lemma id_at_succ:
  assumes "i32_ok i"
  shows "id_at (i32_wrapping_succ i) k = id_at i (Suc k)"
proof (cases "i = 2 ^ 31 - 1")
  case True
  have "(int k) mod 2 ^ 32 = (2 ^ 32 + int k) mod 2 ^ 32" by simp
  with True show ?thesis by (simp add: id_at_def i32_wrapping_succ_def add.commute)
qed (simp add: id_at_def i32_wrapping_succ_def algebra_simps)

lemma succ_ok: "i32_ok i \<Longrightarrow> i32_ok (i32_wrapping_succ i)"
  by (auto simp: i32_ok_def i32_wrapping_succ_def)

lemma id_at_inj: "inj_on (id_at i) {..< 2 ^ 32}"
proof (rule inj_onI)
  fix j k assume "j \<in> {..< 2 ^ 32 :: nat}" "k \<in> {..< 2 ^ 32 :: nat}" "id_at i j = id_at i k"
  then have "int j mod 2 ^ 32 = int k mod 2 ^ 32" "int j < 2 ^ 32" "int k < 2 ^ 32"
    by (auto simp: id_at_def mod_add_left_eq dest: mod_diff_cong [where b = "i + 2 ^ 31" and b' = "i + 2 ^ 31"])
  then show "j = k" by simp
qed

lemma next_id_loop_None:
  "next_id_loop n used i = None \<Longrightarrow> i32_ok i \<Longrightarrow> k < n \<Longrightarrow> id_at i k \<in> used"
proof (induction n arbitrary: i k)
  case (Suc n)
  then have i: "i \<in> used" "next_id_loop n used (i32_wrapping_succ i) = None" by (auto split: if_splits)
  show ?case
  proof (cases k)
    case (Suc k')
    with Suc.IH [OF i(2) succ_ok [OF Suc.prems(2)], of k'] Suc.prems(2,3) show ?thesis by (simp add: id_at_succ)
  qed (use i Suc.prems(2) in \<open>simp add: id_at_0\<close>)
qed simp

lemma next_id_loop_Some:
  "next_id_loop n used i = Some (j, nxt) \<Longrightarrow> i32_ok i \<Longrightarrow> j \<notin> used \<and> i32_ok j \<and> i32_ok nxt"
  by (induction n arbitrary: i) (auto simp: succ_ok split: if_splits)

text \<open>With fewer than \<open>2 ^ 32\<close> requests in flight there is always a free id.\<close>

lemma next_request_id_fresh:
  assumes "i32_ok (cn_next_request_id c)" and "length (cn_pending_requests c) < 2 ^ 32"
  obtains i nxt where "next_request_id c = Some (i, nxt)" "i \<notin> fst ` set (cn_pending_requests c)" "i32_ok nxt"
proof (cases "next_request_id c")
  case None
  let ?n = "Suc (length (cn_pending_requests c))" and ?used = "fst ` set (cn_pending_requests c)"
  have "id_at (cn_next_request_id c) ` {..< ?n} \<subseteq> ?used"
    using next_id_loop_None [OF None [unfolded next_request_id_def] assms(1)] by auto
  then have "card (id_at (cn_next_request_id c) ` {..< ?n}) \<le> card ?used" by (intro card_mono) auto
  also have "\<dots> \<le> length (cn_pending_requests c)"
    by (metis card_length length_map set_map)
  finally have "card (id_at (cn_next_request_id c) ` {..< ?n}) < ?n" by simp
  moreover have "inj_on (id_at (cn_next_request_id c)) {..< ?n}"
    by (rule inj_on_subset [OF id_at_inj]) (use assms(2) in auto)
  ultimately have False by (simp add: card_image)
  then show ?thesis ..
next
  case (Some x)
  obtain i nxt where x: "x = (i, nxt)" by fastforce
  with next_id_loop_Some [OF Some [unfolded next_request_id_def x] assms(1)] Some that show ?thesis by auto
qed

section \<open>Retries and budgets\<close>

text \<open>The fuel of \<open>ctx_retry\<close> is enough for every policy within its limit.\<close>

lemma ctx_retry_fuel:
  assumes "bounded_policy (cx_policy ctx) (cx_limit ctx)"
  shows "retry_storage_op (Suc (unat (cx_limit ctx))) (cx_policy ctx) sh m s \<noteq> None"
  using bounded_policy.retry_loop_spec [OF assms, of 0 "Suc (unat (cx_limit ctx))" sh m s]
  by (auto simp: retry_storage_op_def)

text \<open>A message never asks for more of the byte budget than there is, so that it is sent in the end.\<close>

lemma budget_permits_bounds: "1 \<le> b \<Longrightarrow> 1 \<le> budget_permits b n \<and> budget_permits b n \<le> b"
  by (simp add: budget_permits_def)

section \<open>Operations that leave the pipeline alone\<close>

definition pipe :: "('s, 'f) connection \<Rightarrow> (i32 \<times> 'f file_block) list \<times> i32 \<times> nat \<times> 'f deferred_request list" where
  "pipe c = (cn_pending_requests c, cn_next_request_id c, cn_max_pending_requests c, cn_deferred_blocks c)"

definition stays :: "('s, 'f, 'a) conn_op \<Rightarrow> bool" where
  "stays m \<longleftrightarrow> (\<forall>c. pipe (snd (m c)) = pipe c)"

named_theorems stays_rules \<open>operations that leave the pipeline alone\<close>

lemma staysD: "stays m \<Longrightarrow> m c = (r, d) \<Longrightarrow> pipe d = pipe c"
  unfolding stays_def by (metis snd_conv)

lemma stays_basic [stays_rules]:
  "stays (ok x)" "stays (err e)" "stays (lift_res r)" "stays (get_st f)"
  "stays (ctx_retry ctx m)" "stays (on_storage m')" "stays (is_cancelled ctx)"
  "stays (send_message ctx msg)" "stays (send_to_index_task ctx msg)"
  by (auto simp: stays_def pipe_def op_simps ctx_retry_def on_storage_def is_cancelled_def send_message_def
      send_to_index_task_def split: option.splits prod.splits)

lemma stays_bnd [stays_rules]:
  assumes "stays m" and "\<And>x. stays (f x)"
  shows "stays (bnd m f)"
  unfolding stays_def
proof
  fix c
  obtain r d where "m c = (r, d)" by fastforce
  then show "pipe (snd (bnd m f c)) = pipe c"
    using staysD [OF assms(1)] assms(2) by (cases r) (auto simp: bnd_def stays_def)
qed

lemma stays_if [stays_rules]: "stays m \<Longrightarrow> stays n \<Longrightarrow> stays (if b then m else n)"
  by simp

lemma stays_case_option [stays_rules]:
  "stays m \<Longrightarrow> (\<And>x. stays (f x)) \<Longrightarrow> stays (case v of None \<Rightarrow> m | Some x \<Rightarrow> f x)"
  by (cases v) auto

lemma stays_case_prod [stays_rules]: "(\<And>a b. stays (f a b)) \<Longrightarrow> stays (case p of (a, b) \<Rightarrow> f a b)"
  by (cases p) auto

lemma stays_complete [stays_rules]: "stays (complete_and_notify ops ctx fo n v)"
  unfolding complete_and_notify_def maybe_complete_file_def by (intro stays_rules)

lemma stays_build [stays_rules]: "stays (build_folders ops ctx l r fs)"
  by (induction fs) (auto intro!: stays_rules)

lemma stays_send_indexes [stays_rules]: "stays (send_indexes ops ctx fs)"
  by (induction fs) (auto simp: send_index_def intro!: stays_rules)

lemma stays_process_peer_cc [stays_rules]: "stays (process_peer_cc ops ctx cc m o')"
  unfolding process_peer_cc_def build_cluster_config_def Let_def by (intro stays_rules)

lemma stays_handle_request [stays_rules]: "stays (handle_request ops ctx r)"
  unfolding handle_request_def by (intro stays_rules)

lemma stays_apply_files [stays_rules]: "stays (apply_files ops ctx fo fs)"
  by (induction fs) (auto simp: send_index_update_def intro!: stays_rules split: update_result.splits)

section \<open>The pipeline\<close>

definition pipe_ok :: "('s, 'f) connection \<Rightarrow> bool" where
  "pipe_ok c \<longleftrightarrow> 1 \<le> cn_max_pending_requests c \<and> cn_max_pending_requests c < 2 ^ 32 \<and>
     length (cn_pending_requests c) \<le> cn_max_pending_requests c \<and>
     distinct (map fst (cn_pending_requests c)) \<and> i32_ok (cn_next_request_id c)"

text \<open>Blocks are deferred only while the pipeline is full.\<close>

definition no_stall :: "nat \<Rightarrow> ('s, 'f) connection \<Rightarrow> bool" where
  "no_stall k c \<longleftrightarrow> pipe_ok c \<and> cn_max_pending_requests c = k \<and>
     (cn_deferred_blocks c \<noteq> [] \<longrightarrow> length (cn_pending_requests c) = cn_max_pending_requests c)"

lemma pipe_eqD:
  assumes "pipe d = pipe c"
  shows "cn_pending_requests d = cn_pending_requests c" "cn_next_request_id d = cn_next_request_id c"
    "cn_max_pending_requests d = cn_max_pending_requests c" "cn_deferred_blocks d = cn_deferred_blocks c"
  using assms by (simp_all add: pipe_def)

lemma pipe_cong:
  assumes "pipe d = pipe c"
  shows "pipe_ok d = pipe_ok c" "no_stall k d = no_stall k c"
  using pipe_eqD [OF assms] by (simp_all add: pipe_ok_def no_stall_def)

text \<open>What submitting a block does to the pipeline.\<close>

lemma submit_cases:
  assumes ok: "pipe_ok c" and run: "submit_or_defer_block ops ctx b sz n c = (r, d)"
  obtains (deferred) "length (cn_pending_requests c) = cn_max_pending_requests c" "r = Inr ()"
      "d = c\<lparr>cn_deferred_blocks := cn_deferred_blocks c @ [\<lparr>dq_block = b, dq_size = sz, dq_block_no = n\<rparr>]\<rparr>"
  | (sent) i where "length (cn_pending_requests c) < cn_max_pending_requests c" "i \<notin> fst ` set (cn_pending_requests c)"
      "cn_pending_requests d = (i, b) # cn_pending_requests c" "i32_ok (cn_next_request_id d)"
      "cn_max_pending_requests d = cn_max_pending_requests c" "cn_deferred_blocks d = cn_deferred_blocks c"
      "cn_storage d = cn_storage c"
      "r = (if cx_writer_open ctx (cn_clock c) then Inr () else Inl WriterClosed)"
proof (cases "length (cn_pending_requests c) \<ge> cn_max_pending_requests c")
  case True
  with ok run deferred show ?thesis by (auto simp: submit_or_defer_block_def pipe_ok_def)
next
  case False
  have "i32_ok (cn_next_request_id c)" "length (cn_pending_requests c) < 2 ^ 32" using ok False by (auto simp: pipe_ok_def)
  then obtain i nxt where i: "next_request_id c = Some (i, nxt)" "i \<notin> fst ` set (cn_pending_requests c)" "i32_ok nxt"
    by (rule next_request_id_fresh)
  with False run sent [of i] show ?thesis
    by (auto simp: submit_or_defer_block_def send_message_def split: if_splits)
qed

lemma submit_ok:
  assumes "pipe_ok c" and "submit_or_defer_block ops ctx b sz n c = (r, d)"
  shows "pipe_ok d" "no_stall k c \<Longrightarrow> no_stall k d"
  using assms(1)
  by (cases rule: submit_cases [OF assms]; auto simp: pipe_ok_def no_stall_def)+

text \<open>One round over the deferred blocks: the loop ends here, or it goes on with a shorter queue.\<close>

lemma drain_round:
  assumes ok: "pipe_ok c"
  obtains (over) x where "\<And>n. drain_loop (Suc n) ops ctx c = x"
      "\<And>d. x = (Inr (), d) \<Longrightarrow> pipe d = pipe c \<and>
         (cx_cancelled ctx (cn_clock c) \<or> length (cn_pending_requests c) = cn_max_pending_requests c \<or> cn_deferred_blocks c = [])"
  | (further) c' where "\<And>n. drain_loop (Suc n) ops ctx c = drain_loop n ops ctx c'"
      "pipe_ok c'" "length (cn_deferred_blocks c') < length (cn_deferred_blocks c)"
      "cn_max_pending_requests c' = cn_max_pending_requests c"
proof -
  define c1 where "c1 = c\<lparr>cn_clock := Suc (cn_clock c)\<rparr>"
  have c1: "is_cancelled ctx c = (Inr (cx_cancelled ctx (cn_clock c)), c1)" "pipe c1 = pipe c"
    by (simp_all add: is_cancelled_def c1_def pipe_def)
  note p1 = pipe_eqD [OF c1(2)]
  show ?thesis
  proof (cases "cx_cancelled ctx (cn_clock c) \<or> length (cn_pending_requests c) \<ge> cn_max_pending_requests c \<or> cn_deferred_blocks c = []")
    case True
    have "length (cn_pending_requests c) \<le> cn_max_pending_requests c" using ok by (simp add: pipe_ok_def)
    with True c1 p1 show ?thesis
      by (intro over [of "(Inr (), c1)"]) (auto simp: bnd_def op_simps split: list.splits)
  next
    case False
    then obtain d ds where d: "cn_deferred_blocks c = d # ds" by (cases "cn_deferred_blocks c") auto
    let ?b = "dq_block d" and ?c2 = "c1\<lparr>cn_deferred_blocks := ds\<rparr>"
    obtain q c3 where q: "ctx_retry ctx (op_reuse_block ops (fb_folder ?b) (fb_name ?b) (fb_offset ?b) (fb_hash ?b) (dq_size d)) ?c2
        = (q, c3)" by fastforce
    have c3: "pipe c3 = pipe ?c2" by (rule staysD [OF stays_basic(5) q])
    have ok3: "pipe_ok c3" and ds: "cn_deferred_blocks c3 = ds"
      "length (cn_pending_requests c3) < cn_max_pending_requests c3" "cn_max_pending_requests c3 = cn_max_pending_requests c"
      using pipe_eqD [OF c3] p1 ok False d by (auto simp: pipe_ok_def)
    define k where "k = (if q = Inr True
      then complete_and_notify ops ctx (fb_folder ?b) (fb_name ?b) (fb_version ?b) c3
      else submit_or_defer_block ops ctx ?b (dq_size d) (dq_block_no d) c3)"
    have step: "drain_loop (Suc n) ops ctx c = (case q of Inl e \<Rightarrow> (Inl e, c3) | Inr _ \<Rightarrow>
        (case k of (Inl e, t) \<Rightarrow> (Inl e, t) | (Inr _, t) \<Rightarrow> drain_loop n ops ctx t))" for n
      using c1(1) p1 False d q by (cases q) (auto simp: bnd_def op_simps k_def)
    obtain kr c4 where k: "k = (kr, c4)" by fastforce
    show ?thesis
    proof (cases "(\<exists>e. q = Inl e) \<or> (\<exists>e. kr = Inl e)")
      case True
      then show ?thesis using step k by (cases q) (auto intro: over)
    next
      case going: False
      then obtain y where q': "q = Inr y" by (cases q) auto
      have "pipe_ok c4 \<and> cn_deferred_blocks c4 = ds \<and> cn_max_pending_requests c4 = cn_max_pending_requests c"
      proof (cases y)
        case True
        then have "complete_and_notify ops ctx (fb_folder ?b) (fb_name ?b) (fb_version ?b) c3 = (kr, c4)"
          using k q' by (simp add: k_def)
        note st = staysD [OF stays_complete this]
        show ?thesis using ok3 ds(1,3) pipe_cong(1) [OF st] pipe_eqD(3,4) [OF st] by simp
      next
        case False
        then have sub: "submit_or_defer_block ops ctx ?b (dq_size d) (dq_block_no d) c3 = (kr, c4)"
          using k q' by (simp add: k_def)
        with ds show ?thesis using submit_ok(1) [OF ok3 sub] by (cases rule: submit_cases [OF ok3 sub]) auto
      qed
      then show ?thesis using step q' k going d by (cases kr) (auto intro!: further [of c4])
    qed
  qed
qed

text \<open>The fuel of the loop is enough.\<close>

lemma drain_fuel:
  "pipe_ok c \<Longrightarrow> length (cn_deferred_blocks c) < n \<Longrightarrow> length (cn_deferred_blocks c) < m \<Longrightarrow>
   drain_loop n ops ctx c = drain_loop m ops ctx c"
proof (induction n arbitrary: c m)
  case (Suc n)
  obtain m' where m: "m = Suc m'" using Suc.prems(3) by (cases m) auto
  show ?case
  proof (cases rule: drain_round [OF Suc.prems(1), of ops ctx, case_names over further])
    case (over x)
    then show ?thesis by (simp only: m)
  next
    case (further c')
    with Suc.IH [OF further(2), of m'] Suc.prems m show ?thesis by simp
  qed
qed simp

lemma drain_no_stall:
  assumes "\<And>n. \<not> cx_cancelled ctx n"
  shows "pipe_ok c \<Longrightarrow> length (cn_deferred_blocks c) < n \<Longrightarrow> drain_loop n ops ctx c = (Inr (), d) \<Longrightarrow>
    no_stall (cn_max_pending_requests c) d"
proof (induction n arbitrary: c)
  case (Suc n)
  show ?case
  proof (cases rule: drain_round [OF Suc.prems(1), of ops ctx, case_names over further])
    case (over x)
    have x: "x = (Inr (), d)" using over(1) [of n] Suc.prems(3) by simp
    have st: "pipe d = pipe c" using over(2) [OF x] by simp
    have "no_stall (cn_max_pending_requests c) c" using over(2) [OF x] Suc.prems(1) assms by (auto simp: no_stall_def)
    then show ?thesis by (simp only: pipe_cong(2) [OF st])
  next
    case (further c')
    with Suc.IH [OF further(2)] Suc.prems show ?thesis by simp
  qed
qed simp

section \<open>The handlers\<close>

text \<open>A successful run keeps a property.\<close>

definition okeeps :: "('s \<Rightarrow> bool) \<Rightarrow> ('s, 'e, 'a) op \<Rightarrow> bool" where
  "okeeps I m \<longleftrightarrow> (\<forall>s r t. I s \<longrightarrow> m s = (Inr r, t) \<longrightarrow> I t)"

named_theorems okeeps_rules \<open>successful runs that keep a property\<close>

lemma okeepsD: "okeeps I m \<Longrightarrow> I s \<Longrightarrow> m s = (Inr r, t) \<Longrightarrow> I t"
  by (simp add: okeeps_def)

lemma okeeps_bnd [okeeps_rules]: "okeeps I m \<Longrightarrow> (\<And>x. okeeps I (f x)) \<Longrightarrow> okeeps I (bnd m f)"
  unfolding okeeps_def by (metis bnd_InrE)

lemma okeeps_if [okeeps_rules]: "okeeps I m \<Longrightarrow> okeeps I n \<Longrightarrow> okeeps I (if b then m else n)"
  by simp

lemma okeeps_case_option [okeeps_rules]:
  "okeeps I m \<Longrightarrow> (\<And>x. okeeps I (f x)) \<Longrightarrow> okeeps I (case v of None \<Rightarrow> m | Some x \<Rightarrow> f x)"
  by (cases v) auto

lemma okeeps_case_prod [okeeps_rules]: "(\<And>a b. okeeps I (f a b)) \<Longrightarrow> okeeps I (case p of (a, b) \<Rightarrow> f a b)"
  by (cases p) auto

lemma okeeps_stays: "stays m \<Longrightarrow> okeeps (no_stall k) m"
  unfolding okeeps_def using staysD pipe_cong(2) by metis

lemmas okeeps_frame [okeeps_rules] = stays_basic [THEN okeeps_stays] stays_complete [THEN okeeps_stays]
  stays_process_peer_cc [THEN okeeps_stays] stays_handle_request [THEN okeeps_stays] stays_apply_files [THEN okeeps_stays]

lemma okeeps_mod:
  assumes "\<And>c. pipe (f c) = pipe c"
  shows "okeeps (no_stall k) (mod_st f)"
  using pipe_cong(2) [OF assms] by (auto simp: okeeps_def op_simps)

lemma okeeps_submit [okeeps_rules]: "okeeps (no_stall k) (submit_or_defer_block ops ctx b sz n)"
  unfolding okeeps_def using submit_ok(2) no_stall_def by metis

lemma okeeps_request_blocks [okeeps_rules]: "okeeps (no_stall k) (request_blocks ops ctx fo fi)"
proof -
  have "okeeps (no_stall k) (request_loop ops ctx fo fi i bs)" for i bs
    by (induction bs arbitrary: i) (auto intro!: okeeps_rules)
  then show ?thesis by (simp add: request_blocks_def)
qed

lemma okeeps_request_needed [okeeps_rules]: "okeeps (no_stall k) (request_needed ops ctx fo fs)"
  by (induction fs) (auto intro!: okeeps_rules)

lemma okeeps_apply_remote_index [okeeps_rules]: "okeeps (no_stall k) (apply_remote_index ops ctx i fs l)"
  unfolding apply_remote_index_def by (intro okeeps_rules)

lemma okeeps_handle_response:
  assumes "\<And>n. \<not> cx_cancelled ctx n"
  shows "okeeps (no_stall k) (handle_response ops ctx r)"
  unfolding okeeps_def
proof (intro allI impI)
  fix c u d assume c: "no_stall k c" and run: "handle_response ops ctx r c = (Inr u, d)"
  obtain b c1 where b: "take_pending (rp_id r) c = (Inr b, c1)" by (simp add: take_pending_def)
  have "pipe_ok c" using c by (simp add: no_stall_def)
  then have c1: "pipe_ok c1" using b le_trans [OF length_filter_le]
    by (auto simp: take_pending_def pipe_ok_def distinct_map_filter)
  obtain x c2 where x: "(case b of None \<Rightarrow> ok None
          | Some block \<Rightarrow>
              if rp_code r \<noteq> NoError
              then err (PeerError (rp_code r) (op_id ops (fb_folder block) @ ''/'' @ fb_name block))
              else
                bnd (ctx_retry ctx (op_store_block ops (fb_folder block) (fb_name block) (fb_offset block)
                       (fb_hash block) (rp_data r))) (\<lambda>_.
                  ok (Some (fb_folder block, fb_name block, fb_version block)))) c1 = (Inr x, c2)"
    and run2: "bnd (drain_deferred ops ctx) (\<lambda>_. case x of None \<Rightarrow> ok ()
       | Some (fo, name, version) \<Rightarrow> complete_and_notify ops ctx fo name version) c2 = (Inr u, d)"
    using run b unfolding handle_response_def by (auto simp: bnd_Inr elim!: bnd_InrE [where m = "case_option _ _ _"])
  have "stays (case b of None \<Rightarrow> ok None
          | Some block \<Rightarrow>
              if rp_code r \<noteq> NoError
              then err (PeerError (rp_code r) (op_id ops (fb_folder block) @ ''/'' @ fb_name block))
              else
                bnd (ctx_retry ctx (op_store_block ops (fb_folder block) (fb_name block) (fb_offset block)
                       (fb_hash block) (rp_data r))) (\<lambda>_.
                  ok (Some (fb_folder block, fb_name block, fb_version block))))"
    by (intro stays_rules)
  note st1 = staysD [OF this x]
  have c2: "pipe_ok c2" "cn_max_pending_requests c2 = k"
    using pipe_cong(1) [OF st1] c1 pipe_eqD(3) [OF st1] b c by (auto simp: no_stall_def take_pending_def)
  from run2 obtain c3 y where y: "drain_deferred ops ctx c2 = (Inr y, c3)"
    and run3: "(case x of None \<Rightarrow> ok () | Some (fo, name, version) \<Rightarrow> complete_and_notify ops ctx fo name version) c3 = (Inr u, d)"
    by (rule bnd_InrE)
  have "drain_deferred ops ctx c2 = (Inr (), c3)" using y by simp
  then have "no_stall (cn_max_pending_requests c2) c3" unfolding drain_deferred_def
    by (rule drain_no_stall [OF assms c2(1) lessI])
  then have "no_stall k c3" by (simp only: c2(2))
  moreover have "stays (case x of None \<Rightarrow> ok () | Some (fo, name, version) \<Rightarrow> complete_and_notify ops ctx fo name version)"
    by (intro stays_rules)
  note pipe_cong(2) [OF staysD [OF this run3]]
  ultimately show "no_stall k d" by simp
qed

section \<open>Runs of a connection\<close>

text \<open>The two tasks take turns: the message loop handles an event, or the index task empties its
  queue.  A close reason ends the run.\<close>

datatype task_step = MessageLoop event | IndexTask

fun run_step :: "('s, 'f) storage_ops \<Rightarrow> connection_context \<Rightarrow> task_step \<Rightarrow> ('s, 'f, close_reason option) conn_op" where
  "run_step ops ctx (MessageLoop ev) = loop_event ops ctx ev"
| "run_step ops ctx IndexTask = bnd (run_index_loop ops ctx) (\<lambda>_. ok None)"

fun run_steps :: "('s, 'f) storage_ops \<Rightarrow> connection_context \<Rightarrow> task_step list \<Rightarrow> ('s, 'f, close_reason option) conn_op" where
  "run_steps ops ctx [] = ok None"
| "run_steps ops ctx (step # steps) =
     bnd (run_step ops ctx step) (\<lambda>reason. case reason of Some r \<Rightarrow> ok (Some r) | None \<Rightarrow> run_steps ops ctx steps)"

lemma okeeps_cc_update: "okeeps (no_stall k) (handle_cluster_config_update ops ctx cc)"
  unfolding handle_cluster_config_update_def by (intro okeeps_rules okeeps_mod) (simp add: pipe_def)

lemma okeeps_dispatch:
  assumes "\<And>n. \<not> cx_cancelled ctx n"
  shows "okeeps (no_stall k) (dispatch_message ops ctx msg)"
  unfolding dispatch_message_def Let_def
  by (cases msg) (auto intro!: okeeps_rules okeeps_cc_update okeeps_handle_response [OF assms])

lemma okeeps_dispatch_index: "okeeps (no_stall k) (dispatch_index ops ctx msg)"
  by (cases msg) (auto simp: dispatch_index_def handle_index_def handle_index_update_def intro!: okeeps_rules)

lemma okeeps_index_loop: "okeeps (no_stall k) (index_loop n ops ctx)"
proof (induction n)
  case (Suc n)
  have "okeeps (no_stall k) (case queue of [] \<Rightarrow> ok ()
         | msg # rest \<Rightarrow> bnd (mod_st (\<lambda>c. c\<lparr>cn_index_queue := rest\<rparr>)) (\<lambda>_.
             bnd (dispatch_index ops ctx msg) (\<lambda>_. index_loop n ops ctx)))" for queue
    by (cases queue) (auto intro!: okeeps_rules okeeps_dispatch_index Suc okeeps_mod simp: pipe_def)
  then show ?case by (auto intro!: okeeps_rules)
qed (auto intro!: okeeps_rules)

lemma okeeps_run_step:
  assumes "\<And>n. \<not> cx_cancelled ctx n"
  shows "okeeps (no_stall k) (run_step ops ctx step)"
proof (cases step)
  case (MessageLoop ev)
  have close: "okeeps (no_stall k) (send_close ctx)"
    by (rule okeeps_stays) (simp add: stays_def send_close_def send_message_def pipe_def)
  show ?thesis unfolding MessageLoop run_step.simps loop_event_def
    by (cases ev) (auto intro!: okeeps_rules okeeps_dispatch [OF assms] close)
next
  case IndexTask
  have "okeeps (no_stall k) (run_index_loop ops ctx)"
    unfolding okeeps_def run_index_loop_def using okeepsD [OF okeeps_index_loop] by blast
  then show ?thesis unfolding IndexTask by (auto intro!: okeeps_rules)
qed

lemma okeeps_run_steps:
  assumes "\<And>n. \<not> cx_cancelled ctx n"
  shows "okeeps (no_stall k) (run_steps ops ctx steps)"
  by (induction steps) (auto intro!: okeeps_rules okeeps_run_step [OF assms])

text \<open>
  C36. The pipeline of a connection never stalls.  For every storage, whatever the peer sends and in
  whatever order the handlers of the two tasks run, as long as none of them fails and the
  connection is not shut down, the requests in flight have
  different ids, there are at most as many as the limit (of which zero means one), and blocks are
  deferred only while the pipeline is full, so that while a block waits there is a request whose
  answer makes room for it.
\<close>

theorem connection_never_stalls:
  assumes "\<And>n. \<not> cx_cancelled ctx n" and "max_pending_requests < 2 ^ 32"
    and "run_steps ops ctx steps (connection_new storage mutual our_cc max_pending_requests sent clock) = (Inr reason, c)"
  shows "distinct (map fst (cn_pending_requests c)) \<and>
    length (cn_pending_requests c) \<le> max max_pending_requests 1 \<and>
    (cn_deferred_blocks c \<noteq> [] \<longrightarrow> length (cn_pending_requests c) = max max_pending_requests 1 \<and> cn_pending_requests c \<noteq> [])"
proof -
  let ?c = "connection_new storage mutual our_cc max_pending_requests sent clock"
  have "no_stall (max max_pending_requests 1) ?c"
    using assms(2) by (simp add: no_stall_def pipe_ok_def connection_new_def i32_ok_def clamp_max_pending_requests_def)
  from okeepsD [OF okeeps_run_steps [OF assms(1)] this assms(3)] have "no_stall (max max_pending_requests 1) c" .
  then show ?thesis by (auto simp: no_stall_def pipe_ok_def)
qed

text \<open>A storage in memory for an example: it has no block, and accepts every file and block.\<close>

definition idle_ops :: "(unit, bytes) storage_ops" where
  "idle_ops =
     \<lparr>op_folder = ok, op_list_folders = ok [], op_ensure_folders = (\<lambda>fs. ok (map (\<lambda>_. False) fs)),
      op_id = id, op_label = id, op_index = (\<lambda>_ _. ok []), op_read_block = (\<lambda>_ _ _ _ _. err (NotFound ''none'')),
      op_apply_update = (\<lambda>_ fi _. ok (NeedBlocks fi)), op_local_sequence = (\<lambda>_. ok 0),
      op_remote_state = (\<lambda>_ _. ok \<lparr>rs_index_id = 0, rs_max_sequence = 0\<rparr>), op_set_remote_state = (\<lambda>_ _ _. ok ()),
      op_resolve_conflict = (\<lambda>_ _ _ _. ok ()), op_store_block = (\<lambda>_ _ _ _ _. ok ()),
      op_complete_file = (\<lambda>_ _ _. ok None), op_reuse_block = (\<lambda>_ _ _ _ _. ok False)\<rparr>"

definition idle_ctx :: connection_context where
  "idle_ctx =
     \<lparr>cx_remote_device = ''remote'', cx_local_device = ''local'', cx_resolver = backup_resolver,
      cx_policy = no_retry_next_delay, cx_limit = 0, cx_cancelled = (\<lambda>_. False), cx_interrupted = (\<lambda>_ _. False),
      cx_writer_open = (\<lambda>_. True), cx_index_open = (\<lambda>_. True)\<rparr>"

definition two_blocks :: file_info where
  "two_blocks = default_file_info\<lparr>fi_name := ''f'', fi_size := 2,
     fi_blocks := [\<lparr>bi_hash = replicate 32 CHR ''x'', bi_offset = 0, bi_size = 1\<rparr>, \<lparr>bi_hash = replicate 32 CHR ''y'', bi_offset = 1, bi_size = 1\<rparr>]\<rparr>"

definition two_block_run :: "(bep_error + close_reason option) \<times> (unit, bytes) connection" where
  "two_block_run = run_steps idle_ops idle_ctx
     [MessageLoop (Inbound (Inr (IndexMsg \<lparr>ix_folder = ''d'', ix_files = [two_blocks], ix_last_sequence = 1\<rparr>))), IndexTask]
     (connection_new () [(''d'', 7)] [''d''] 0 [] 0)"

lemma two_block_result:
  "fst two_block_run = Inr None \<and> length (cn_pending_requests (snd two_block_run)) = 1 \<and>
   cn_deferred_blocks (snd two_block_run) \<noteq> []"
proof -
  have valid: "validate_file_info two_blocks = Inr ()"
    by (simp add: two_blocks_def default_file_info_def validate_file_info_def MAX_BLOCK_SIZE_def
        i64_checked_add_def in_i64_def i64_max_def i64_min_def)
  have blocks: "fi_blocks two_blocks = [\<lparr>bi_hash = replicate 32 CHR ''x'', bi_offset = 0, bi_size = 1\<rparr>,
      \<lparr>bi_hash = replicate 32 CHR ''y'', bi_offset = 1, bi_size = 1\<rparr>]" "fi_name two_blocks = ''f''"
    by (simp_all add: two_blocks_def)
  have retry: "ctx_retry idle_ctx (ok x) c = (Inr x, c\<lparr>cn_clock := Suc (cn_clock c)\<rparr>)" for x and c :: "(unit, bytes) connection"
    by (simp add: ctx_retry_def retry_storage_op_def op_simps)
  have env: "is_cancelled idle_ctx c = (Inr False, c\<lparr>cn_clock := Suc (cn_clock c)\<rparr>)"
    "send_message idle_ctx msg c = (Inr (), c\<lparr>cn_out := cn_out c @ [msg], cn_clock := Suc (cn_clock c)\<rparr>)"
    "send_to_index_task idle_ctx msg c = (Inr (), c\<lparr>cn_index_queue := cn_index_queue c @ [msg], cn_clock := Suc (cn_clock c)\<rparr>)"
    for msg and c :: "(unit, bytes) connection"
    by (simp_all add: is_cancelled_def send_message_def send_to_index_task_def idle_ctx_def)
  show ?thesis
    by (simp add: two_block_run_def connection_new_def clamp_max_pending_requests_def loop_event_def dispatch_message_def
        run_index_loop_def dispatch_index_def handle_index_def apply_remote_index_def idle_ops_def retry env valid
        request_blocks_def blocks submit_or_defer_block_def next_request_id_def complete_and_notify_def
        maybe_complete_file_def should_complete_def bnd_def op_simps i32_wrapping_succ_def)
qed

theorem connection_never_stalls_witness:
  "distinct (map fst (cn_pending_requests (snd two_block_run))) \<and>
   length (cn_pending_requests (snd two_block_run)) = 1 \<and> cn_deferred_blocks (snd two_block_run) \<noteq> []"
proof -
  obtain c where c: "two_block_run = (Inr None, c)" using two_block_result by (metis prod.collapse)
  have "\<And>n. \<not> cx_cancelled idle_ctx n" by (simp add: idle_ctx_def)
  from connection_never_stalls [OF this _ c [unfolded two_block_run_def]] two_block_result
  show ?thesis by (simp add: c)
qed

end
