(* ===== verification/ConnSlate.thy ===== *)
theory ConnSlate
  imports ConnInv StorageReg GcSafe
begin

text \<open>
  The connection on the storage of the repository: the traits of
  \<open>bepository-bep/src/storage.rs\<close> implemented by \<open>SlateStorage\<close> and \<open>SlateFolder\<close>, and what the
  handlers do to the record of how far the index of a peer has been processed.
\<close>

section \<open>The implementation of the traits\<close>

text \<open>A handle is its record with the key of the store it shares.\<close>

definition slate_ops ::
  "('o, 'v, 'd) storage_env \<Rightarrow> ('d, 'w) slate \<Rightarrow> ('w, 'b) lib \<Rightarrow>
   (('o, 'd, 'b) slate_storage, slate_folder \<times> bytes) storage_ops" where
  "slate_ops env db lib =
     \<lparr>op_folder = folder env db lib,
      op_list_folders = list_folders,
      op_ensure_folders = ensure_folders env db lib,
      op_id = (\<lambda>(fo, sk). sfo_id fo),
      op_label = (\<lambda>(fo, sk). sfo_label fo),
      op_index = (\<lambda>(fo, sk) since. bnd (on_store sk (slate_index db lib since)) (\<lambda>fs. ok (map Inr fs))),
      op_read_block = (\<lambda>(fo, sk) name offset sz hash. on_store sk (slate_read_block db lib name offset sz hash)),
      op_apply_update = (\<lambda>(fo, sk) fi dev. on_store sk (apply_update db lib fo fi dev)),
      op_local_sequence = (\<lambda>(fo, sk). on_store sk (slate_local_sequence db lib)),
      op_remote_state = (\<lambda>(fo, sk) dev. on_store sk (slate_remote_state db lib dev)),
      op_set_remote_state = (\<lambda>(fo, sk) dev st. on_store sk (slate_set_remote_state db lib dev st)),
      op_resolve_conflict = (\<lambda>(fo, sk) win lose path. on_store sk (slate_resolve_conflict db lib win lose path)),
      op_store_block = (\<lambda>(fo, sk) name offset hash data. on_store sk (slate_store_block db lib fo name offset hash data)),
      op_complete_file = (\<lambda>(fo, sk) name version. on_store sk (slate_complete_file db lib fo name version)),
      op_reuse_block = (\<lambda>(fo, sk) name offset hash sz. on_store sk (slate_reuse_block db lib fo name offset hash sz))\<rparr>"

section \<open>Entries of devices in the folder store\<close>

text \<open>A result of a successful run.\<close>

definition yields :: "('a \<Rightarrow> bool) \<Rightarrow> ('s, 'e, 'a) op \<Rightarrow> bool" where
  "yields P m \<longleftrightarrow> (\<forall>s x t. m s = (Inr x, t) \<longrightarrow> P x)"

named_theorems yields_rules \<open>what operations return\<close>

lemma yields_ok [yields_rules]: "P x \<Longrightarrow> yields P (ok x)"
  by (simp add: yields_def op_simps)

lemma yields_err [yields_rules]: "yields P (err e)"
  by (simp add: yields_def op_simps)

lemma yields_bnd [yields_rules]: "(\<And>x. yields P (f x)) \<Longrightarrow> yields P (bnd m f)"
  unfolding yields_def by (metis bnd_InrE)

lemma yields_lift_bnd: "(\<And>x. r = Inr x \<Longrightarrow> yields P (f x)) \<Longrightarrow> yields P (bnd (lift_res r) f)"
  unfolding yields_def by (cases r) (auto simp: bnd_def op_simps)

lemma yields_if [yields_rules]: "yields P m \<Longrightarrow> yields P n \<Longrightarrow> yields P (if b then m else n)"
  by simp

lemma yields_case_option [yields_rules]:
  "yields P m \<Longrightarrow> (\<And>x. yields P (f x)) \<Longrightarrow> yields P (case v of None \<Rightarrow> m | Some x \<Rightarrow> f x)"
  by (cases v) auto

lemma keeps_yields:
  assumes "keeps I m" and "yields P m" and "\<And>x. P x \<Longrightarrow> keeps I (f x)"
  shows "keeps I (bnd m f)"
proof (rule keepsI)
  fix s r t assume I: "I s" and run: "bnd m f s = (r, t)"
  obtain q u where q: "m s = (q, u)" by fastforce
  note u = keepsD [OF assms(1) I q]
  show "I t"
  proof (cases q)
    case (Inr x)
    with assms(2) q have "P x" by (auto simp: yields_def)
    then show ?thesis using keepsD [OF assms(3) u] run q Inr by (simp add: bnd_def)
  qed (use u run q in \<open>auto simp: bnd_def\<close>)
qed

text \<open>The key that an operation of a batch writes.\<close>

fun op_key :: "'v batch_op \<Rightarrow> bytes" where
  "op_key (BPut k v) = k"
| "op_key (BDelete k) = k"

definition spares :: "bytes \<Rightarrow> 'v batch \<Rightarrow> bool" where
  "spares k b \<longleftrightarrow> k \<notin> op_key ` set b"

lemma spares_simps [simp]:
  "spares k []" "spares k (x # b) \<longleftrightarrow> op_key x \<noteq> k \<and> spares k b" "spares k (b @ c) \<longleftrightarrow> spares k b \<and> spares k c"
  by (auto simp: spares_def)

lemma apply_batch_spares: "spares k b \<Longrightarrow> apply_batch b m k = m k"
proof (induction b arbitrary: m)
  case (Cons x b)
  then have "apply_op x m k = m k" by (cases x) auto
  with Cons show ?case by simp
qed simp

abbreviation at_key :: "('d \<Rightarrow> bytes \<rightharpoonup> 'v) \<Rightarrow> bytes \<Rightarrow> 'v option \<Rightarrow> ('d, 'b) folder_store \<Rightarrow> bool" where
  "at_key A k x s \<equiv> A (fs_db s) k = x"

locale lawful_db =
  fixes db :: "('d, 'v) slate" and A :: "'d \<Rightarrow> bytes \<rightharpoonup> 'v"
  assumes laws: "slate_laws db A"
begin

lemma keeps_get: "keeps (at_key A k x) (on_db (db_get db q))"
  using laws by (auto simp: keeps_def on_db_def slate_laws_def get_law_def split: prod.splits)

lemma keeps_scan: "keeps (at_key A k x) (on_db (db_scan_prefix db q))" "keeps (at_key A k x) (on_db (db_scan db lo hi))"
  using laws by (auto simp: keeps_def on_db_def slate_laws_def scan_law_def split: prod.splits)

lemma keeps_flush: "keeps (at_key A k x) (on_db (db_flush db))"
  using laws by (auto simp: keeps_def on_db_def slate_laws_def flush_law_def split: prod.splits)

lemma keeps_write: "spares k b \<Longrightarrow> keeps (at_key A k x) (on_db (db_write db b))"
  using laws apply_batch_spares [of k b]
  unfolding keeps_def on_db_def slate_laws_def write_law_def by (auto split: prod.splits) metis

lemma keeps_fields: "keeps (at_key A k x) (mod_st (\<lambda>s. s\<lparr>fs_gc := g s\<rparr>))"
  "keeps (at_key A k x) (mod_st (\<lambda>s. s\<lparr>fs_blockseq := h s\<rparr>))" "keeps (at_key A k x) take_reserved"
  by (auto simp: keeps_def op_simps take_reserved_def Let_def)

lemmas keeps_calls = keeps_get keeps_scan keeps_flush keeps_fields

abbreviation cursor :: "bytes \<Rightarrow> 'v option \<Rightarrow> ('d, 'b) folder_store \<Rightarrow> bool" where
  "cursor dev x \<equiv> at_key A (device_key dev) x"

lemma keeps_reads:
  "keeps (cursor dev x) (get_file_proto db lib n)" "keeps (cursor dev x) (get_index_meta db lib)"
  "keeps (cursor dev x) (get_file db lib n)" "keeps (cursor dev x) (find_file_entry db lib e n)"
  unfolding get_file_def get_file_proto_def get_index_meta_def find_file_entry_def Let_def
  by (intro spec_rules keeps_calls)+

lemma keeps_find_block_dir: "keeps (cursor dev x) (find_block_dir db lib h)"
proof -
  have "keeps (cursor dev x) (probe_reverse_ref db lib h kv u)" for kv u
    unfolding probe_reverse_ref_def by (cases kv) (auto intro!: spec_rules keeps_calls split: option.splits)
  then show ?thesis unfolding find_block_dir_def by (intro spec_rules keeps_calls keeps_for_iter)
qed

lemma yields_entry: "yields (\<lambda>(fi, k, b). k \<noteq> device_key dev) (find_file_entry db lib e n)"
  unfolding find_file_entry_def Let_def by (auto intro!: yields_rules split: option.splits)

lemma keeps_entry:
  "(\<And>fi k b. k \<noteq> device_key dev \<Longrightarrow> keeps (cursor dev x) (f (fi, k, b))) \<Longrightarrow>
   keeps (cursor dev x) (bnd (find_file_entry db lib e n) f)"
  by (rule keeps_yields [OF keeps_reads(4) yields_entry]) auto

lemma entry_put_spares: "op_key (entry_put lib k b fi) = k"
  by (simp add: entry_put_def)

lemma seq_key_spares: "seq_key s = Inr k \<Longrightarrow> k \<noteq> device_key dev"
  using key_neq(10) [of s dev] by (auto simp: seq_key_def seqk_def split: if_splits)

lemma keeps_lift_bnd: "(\<And>y. r = Inr y \<Longrightarrow> keeps I (f y)) \<Longrightarrow> keeps I (bnd (lift_res r) f)"
  by (cases r) (auto simp: keeps_def bnd_def op_simps)

lemma keeps_commit:
  assumes "spares (device_key dev) batch"
  shows "keeps (cursor dev x) (commit_with_new_seq db lib n stored batch)"
  unfolding commit_with_new_seq_def Let_def write_non_durable_def
proof (rule keeps_bnd, rule keeps_reads)
  fix prior :: "s_file_info option"
  let ?m = "case prior of None \<Rightarrow> ok (stored, batch)
          | Some old \<Rightarrow>
              if sf_sequence old > 0
              then bnd (lift_res (seq_key (sf_sequence old))) (\<lambda>k. ok (carry_block_pointers stored old, batch @ [BDelete k]))
              else ok (carry_block_pointers stored old, batch)"
  show "keeps (cursor dev x) (bnd ?m (\<lambda>(stored, batch).
      bnd (get_index_meta db lib) (\<lambda>meta.
        bnd (lift_res (seq_key (i64_wrap (fm_max_sequence meta + 1)))) (\<lambda>k.
        bnd (on_db (db_write db
               ((batch @ [BPut IX_KEY (enc_meta lib (meta\<lparr>fm_max_sequence := i64_wrap (fm_max_sequence meta + 1)\<rparr>)),
                 BPut (file_key n) (enc_file lib \<lparr>file_file_info = Some (stored\<lparr>sf_sequence := i64_wrap (fm_max_sequence meta + 1)\<rparr>)\<rparr>)]) @
                [BPut k (raw lib n)]))) (\<lambda>_.
        bnd (lift_res (b_of_file_info (stored\<lparr>sf_sequence := i64_wrap (fm_max_sequence meta + 1)\<rparr>))) (\<lambda>committed.
          ok (i64_wrap (fm_max_sequence meta + 1), committed)))))))"
  proof (rule keeps_yields [where P = "\<lambda>(st, b). spares (device_key dev) b"])
    show "keeps (cursor dev x) ?m" by (intro spec_rules)
    show "yields (\<lambda>(st, b). spares (device_key dev) b) ?m"
      using assms by (auto intro!: yields_rules yields_lift_bnd dest: seq_key_spares split: option.splits)
  qed (auto intro!: keeps_lift_bnd spec_rules keeps_reads keeps_write dest: seq_key_spares split: prod.splits)
qed

lemma keeps_block_write:
  assumes "spares (device_key dev) b" "k \<noteq> device_key dev"
  shows "keeps (cursor dev x) (on_db (db_write db (b @ [BPut (block_reverse_key h n) v, entry_put lib k i fi])))"
    "keeps (cursor dev x) (on_db (db_write db [entry_put lib k i fi]))"
  using assms by (auto intro!: keeps_write simp: entry_put_spares)

lemma keeps_allocate: "keeps (cursor dev x) (allocate db lib)"
  unfolding allocate_def refill_def put_non_durable_def Let_def
  by (intro spec_rules keeps_calls keeps_reads keeps_write) simp

lemma keeps_store_block_cursor: "keeps (cursor dev x) (store_block db lib e n h data)"
proof -
  have place: "yields (\<lambda>(b, q). spares (device_key dev) b)
      (case existing of Some (canonical_dir, block_ref) \<Rightarrow>
          ok (if canonical_dir \<noteq> dirname n then [BPut (block_pointer_key (dirname n) h) (enc_ref lib block_ref)] else [], seqno block_ref)
        | None \<Rightarrow> bnd (allocate db lib) (\<lambda>q. ok ([BPut (block_data_seq_key q) (raw lib data),
              BPut (block_pointer_key (dirname n) h) (enc_ref lib \<lparr>seqno = q\<rparr>)], q)))" for existing
    by (auto intro!: yields_rules split: option.splits prod.splits)
  have keep: "keeps (cursor dev x) (case existing of Some (canonical_dir, block_ref) \<Rightarrow>
          ok (if canonical_dir \<noteq> dirname n then [BPut (block_pointer_key (dirname n) h) (enc_ref lib block_ref)] else [], seqno block_ref)
        | None \<Rightarrow> bnd (allocate db lib) (\<lambda>q. ok ([BPut (block_data_seq_key q) (raw lib data),
              BPut (block_pointer_key (dirname n) h) (enc_ref lib \<lparr>seqno = q\<rparr>)], q)))" for existing
    by (intro spec_rules keeps_allocate)
  show ?thesis unfolding store_block_def write_non_durable_def
    apply (rule keeps_if, rule keeps_err, rule keeps_if)
     apply (rule keeps_entry)
     apply (simp only: prod.case)
     apply (intro spec_rules keeps_block_write(2) [where b = "[]"]; simp)
    apply (rule keeps_bnd, rule keeps_find_block_dir, rule keeps_yields [OF keep place])
    apply (simp only: split_paired_all prod.case)
    apply (rule keeps_entry)
    apply (simp only: prod.case)
    apply (intro spec_rules keeps_block_write(1) keeps_calls; simp)
    done
qed

lemma keeps_reuse_block: "keeps (cursor dev x) (reuse_block db lib e n h)"
  unfolding reuse_block_def write_non_durable_def
  apply (intro keeps_if keeps_err keeps_bnd [OF keeps_find_block_dir] keeps_case_option keeps_ok keeps_case_prod)
  apply (rule keeps_entry)
  apply (simp only: prod.case)
  apply (intro spec_rules keeps_block_write(1) keeps_calls; simp)
  done

lemma keeps_put_file: "keeps (cursor dev x) (put_file db lib f)"
  unfolding put_file_def by (intro spec_rules keeps_commit) simp

lemma keeps_put_file_with_carry: "keeps (cursor dev x) (put_file_with_carry db lib f src)"
proof -
  have "spares (device_key dev) (map (\<lambda>(hash, _). BPut (block_reverse_key hash n) v) hqs)" for hqs :: "(bytes \<times> u64) list" and n and v :: 'v
    by (induction hqs) auto
  then show ?thesis unfolding put_file_with_carry_def Let_def
    by (intro spec_rules keeps_reads) (auto intro!: spec_rules keeps_commit keeps_calls split: prod.splits)
qed

lemma keeps_stage_file: "keeps (cursor dev x) (stage_file db lib e f)"
  unfolding stage_file_def put_non_durable_def by (intro keeps_write) simp

lemma keeps_complete_file: "keeps (cursor dev x) (complete_file db lib e n v)"
  unfolding complete_file_def Let_def by (intro spec_rules keeps_calls keeps_reads keeps_commit) simp

text \<open>The operations of a handle, all but the one that sets the record of a peer.\<close>

lemma keeps_handle:
  "keeps (cursor dev x) (slate_index db lib since)" "keeps (cursor dev x) (slate_read_block db lib n o' z h)"
  "keeps (cursor dev x) (apply_update db lib fo f d)" "keeps (cursor dev x) (slate_complete_file db lib fo n v)"
  "keeps (cursor dev x) (slate_resolve_conflict db lib w l p)" "keeps (cursor dev x) (slate_local_sequence db lib)"
  "keeps (cursor dev x) (slate_remote_state db lib d)" "keeps (cursor dev x) (slate_store_block db lib fo n o' h data)"
  "keeps (cursor dev x) (slate_reuse_block db lib fo n o' h z)"
proof -
  have read: "keeps (cursor dev x) (read_block_loop db lib h bs)" for bs
    by (induction bs) (auto simp: resolve_block_data_def intro!: spec_rules keeps_calls split: option.splits)
  show "keeps (cursor dev x) (slate_read_block db lib n o' z h)"
    unfolding slate_read_block_def read_block_def by (intro spec_rules keeps_calls read)
  show "keeps (cursor dev x) (slate_index db lib since)"
    unfolding slate_index_def all_files_def files_since_def
    by (intro spec_rules keeps_calls keeps_for_iter keeps_reads) (auto intro!: spec_rules keeps_reads split: prod.splits)
  show "keeps (cursor dev x) (apply_update db lib fo f d)"
    unfolding apply_update_def stage_and_request_blocks_def by (intro spec_rules keeps_reads keeps_stage_file keeps_put_file)
  show "keeps (cursor dev x) (slate_remote_state db lib d)"
    unfolding slate_remote_state_def get_remote_state_def by (intro spec_rules keeps_calls)
  show "keeps (cursor dev x) (slate_complete_file db lib fo n v)"
    unfolding slate_complete_file_def by (intro spec_rules keeps_complete_file)
  show "keeps (cursor dev x) (slate_resolve_conflict db lib w l p)"
    unfolding slate_resolve_conflict_def by (intro spec_rules keeps_put_file keeps_put_file_with_carry)
  show "keeps (cursor dev x) (slate_local_sequence db lib)"
    unfolding slate_local_sequence_def by (intro spec_rules keeps_reads)
  show "keeps (cursor dev x) (slate_store_block db lib fo n o' h data)"
    unfolding slate_store_block_def by (rule keeps_store_block_cursor)
  show "keeps (cursor dev x) (slate_reuse_block db lib fo n o' h z)"
    unfolding slate_reuse_block_def by (intro spec_rules keeps_reuse_block)
qed

end

interpretation rbtdb: lawful_db rbt_slate RBT.lookup
  by unfold_locales (rule rbt_slate_laws)

section \<open>Records of peers in the storage\<close>

text \<open>The record of a peer in the open store of a folder.\<close>

definition open_store :: "('o, 'd, 'b) slate_storage \<Rightarrow> bytes \<Rightarrow> ('d, 'b) folder_store option" where
  "open_store s sk = Option.bind (ss_activated s) (\<lambda>act. map_of (ac_stores act) sk)"

definition peer_record ::
  "('d \<Rightarrow> bytes \<rightharpoonup> 'v) \<Rightarrow> ('o, 'd, 'b) slate_storage \<Rightarrow> bytes \<Rightarrow> device_id \<Rightarrow> 'v option option" where
  "peer_record A s sk dev = map_option (\<lambda>fs. A (fs_db fs) (device_key dev)) (open_store s sk)"

lemma on_store_open:
  assumes "on_store sk m s = (r, t)"
  obtains (closed) "open_store s sk = None" "r = Inl (TransientIo ''slatedb'')" "t = s"
  | (run) fs fs' where "open_store s sk = Some fs" "m fs = (r, fs')"
      "\<And>sk'. open_store t sk' = (if sk' = sk then Some fs' else open_store s sk')"
proof (cases "open_store s sk")
  case None
  then have "r = Inl (TransientIo ''slatedb'')" "t = s"
    using assms unfolding open_store_def on_store_def by simp_all
  with None show ?thesis by (rule closed)
next
  case (Some fs)
  obtain q fs' where m: "m fs = (q, fs')" by fastforce
  obtain act where act: "ss_activated s = Some act" "map_of (ac_stores act) sk = Some fs"
    using Some by (auto simp: open_store_def bind_eq_Some_conv)
  have look: "map_of (map (\<lambda>(k, x). if k = sk then (k, fs') else (k, x)) kvs) k =
      (if k = sk then map_option (\<lambda>_. fs') (map_of kvs k) else map_of kvs k)" for kvs k
    by (induction kvs) auto
  have "r = q" "t = s\<lparr>ss_activated := Some (act\<lparr>ac_stores :=
      map (\<lambda>(k, x). if k = sk then (k, fs') else (k, x)) (ac_stores act)\<rparr>)\<rparr>"
    using assms act m by (simp_all add: on_store_def)
  then show ?thesis using run [OF Some] m act by (simp add: open_store_def look)
qed

lemma keeps_on_store:
  assumes "\<And>x. keeps (at_key A (device_key dev) x) m"
  shows "keeps (\<lambda>s. peer_record A s sk' dev = Some x) (on_store sk m)"
proof (rule keepsI)
  fix s r t assume x: "peer_record A s sk' dev = Some x" and run: "on_store sk m s = (r, t)"
  from run show "peer_record A t sk' dev = Some x"
  proof (cases rule: on_store_open)
    case (run fs fs')
    have "A (fs_db fs') (device_key dev) = A (fs_db fs) (device_key dev)"
      using keepsD [OF assms refl run(2)] .
    with run x show ?thesis by (auto simp: peer_record_def)
  qed (use x in simp)
qed

text \<open>Operations that do not touch the open stores.\<close>

abbreviation has_record where
  "has_record A sk dev x \<equiv> \<lambda>s. peer_record A s sk dev = Some x"

lemma keeps_record_stores:
  assumes "\<And>act. \<exists>ks. ac_stores (f act) = ks @ ac_stores act \<and> (\<forall>k \<in> fst ` set ks. map_of (ac_stores act) k = None)"
  shows "keeps (has_record A sk dev x) (set_activated f)"
proof (rule keepsI)
  fix s r t assume s: "peer_record A s sk dev = Some x" and run: "set_activated f s = (r, t)"
  then obtain act fs where act: "ss_activated s = Some act" "map_of (ac_stores act) sk = Some fs" "A (fs_db fs) (device_key dev) = x"
    by (auto simp: peer_record_def open_store_def bind_eq_Some_conv)
  obtain ks where ks: "ac_stores (f act) = ks @ ac_stores act" "\<forall>k \<in> fst ` set ks. map_of (ac_stores act) k = None"
    using assms by blast
  then have "map_of ks sk = None" using act(2) by (metis map_of_eq_None_iff option.distinct(1))
  then show "peer_record A t sk dev = Some x"
    using run act ks(1) by (auto simp: set_activated_def op_simps peer_record_def open_store_def map_add_def)
qed

lemma keeps_record_basic:
  "keeps (has_record A sk dev x) the_activated" "keeps (has_record A sk dev x) (on_root w m)"
  by (auto simp: keeps_def the_activated_def on_root_def peer_record_def open_store_def split: option.splits prod.splits)

lemma keeps_record_fields:
  "keeps (has_record A sk dev x) (set_activated (\<lambda>act. act\<lparr>ac_state := ms\<rparr>))"
  "keeps (has_record A sk dev x) (set_activated (\<lambda>act. act\<lparr>ac_cache := b\<rparr>))"
  by (rule keeps_record_stores, simp)+

lemma keeps_record_meta: "keeps (has_record A sk dev x) (modify_meta env f)"
  unfolding modify_meta_def write_meta_to_disk_def by (intro spec_rules keeps_record_basic keeps_record_fields)

lemma keeps_record_resolve: "keeps (has_record A sk dev x) (resolve_folder i)" "keeps (has_record A sk dev x) list_folders"
  unfolding resolve_folder_def list_folders_def by (intro spec_rules keeps_record_basic)+

lemma keeps_record_store_for_folder: "keeps (has_record A sk dev x) (store_for_folder env db lib k)"
proof -
  have "keeps (has_record A sk dev x) (open_folder_store env db lib k)"
  proof -
    have "keeps (has_record A sk dev x) (\<lambda>s. case se_open env k (ss_objects s) of
         (Inl _, u) \<Rightarrow> (Inl (TransientIo ''open slatedb''), s\<lparr>ss_objects := u\<rparr>)
       | (Inr d, u) \<Rightarrow> (folder_store_new db lib d compaction_state_new, s\<lparr>ss_objects := u\<rparr>))"
      by (auto simp: keeps_def peer_record_def open_store_def split: prod.splits sum.splits)
    then show ?thesis unfolding open_folder_store_def get_shared_db_cache_def get_identity_def
      by (intro spec_rules keeps_record_basic keeps_record_fields)
  qed
  note op = this
  show ?thesis
  proof (rule keepsI)
    fix s r t assume s: "has_record A sk dev x s" and run: "store_for_folder env db lib k s = (r, t)"
    from run [unfolded store_for_folder_def] show "has_record A sk dev x t"
    proof (cases rule: the_activated_cases)
      case (active act)
      show ?thesis
      proof (cases "map_of (ac_stores act) k")
        case None
        have ne: "k \<noteq> sk" using s active(1) None by (auto simp: peer_record_def open_store_def)
        have "keeps (has_record A sk dev x) (set_activated (\<lambda>act. act\<lparr>ac_stores := (k, fs) # ac_stores act\<rparr>))" for fs
          using ne by (auto simp: keeps_def set_activated_def op_simps peer_record_def open_store_def bind_eq_Some_conv)
        from keeps_bnd [OF op this] have "keeps (has_record A sk dev x)
          (bnd (open_folder_store env db lib k) (\<lambda>fs. set_activated (\<lambda>act. act\<lparr>ac_stores := (k, fs) # ac_stores act\<rparr>)))" .
        from keepsD [OF this s] active(2) None show ?thesis by simp
      qed (use active(2) s in \<open>auto simp: op_simps\<close>)
    qed (use s in simp)
  qed
qed

lemma keeps_record_folder:
  "keeps (has_record A sk dev x) (folder env db lib i)" "keeps (has_record A sk dev x) (ensure_folders env db lib fs)"
proof -
  show "keeps (has_record A sk dev x) (folder env db lib i)"
    unfolding folder_def by (intro spec_rules keeps_record_basic keeps_record_resolve keeps_record_store_for_folder)
  have "keeps (has_record A sk dev x) (open_created env db lib cs)" for cs
    by (induction cs) (auto intro!: spec_rules keeps_record_resolve keeps_record_store_for_folder)
  then show "keeps (has_record A sk dev x) (ensure_folders env db lib fs)"
    unfolding ensure_folders_def by (intro spec_rules keeps_record_meta)
qed

section \<open>The contract for the connection\<close>

text \<open>Every operation of the storage but one keeps a property of it.\<close>

locale framed_storage =
  fixes ops :: "('s, 'f) storage_ops" and I :: "'s \<Rightarrow> bool"
  assumes frame: "keeps I (op_folder ops i)" "keeps I (op_list_folders ops)" "keeps I (op_ensure_folders ops fs)"
    "keeps I (op_index ops fo n)" "keeps I (op_read_block ops fo nm off sz h)" "keeps I (op_apply_update ops fo fi dev)"
    "keeps I (op_local_sequence ops fo)" "keeps I (op_remote_state ops fo dev)"
    "keeps I (op_resolve_conflict ops fo w l p)" "keeps I (op_store_block ops fo nm off h data)"
    "keeps I (op_complete_file ops fo nm v)" "keeps I (op_reuse_block ops fo nm off h sz)"
begin

abbreviation J :: "('s, 'f) connection \<Rightarrow> bool" where
  "J c \<equiv> I (cn_storage c)"

lemma keeps_retry: "keeps I m \<Longrightarrow> keeps J (ctx_retry ctx m)"
proof -
  assume m: "keeps I m"
  have "retry_loop n p sh m k s = Some (r, t) \<Longrightarrow> I s \<Longrightarrow> I t" for n p sh k s r t
  proof (induction n arbitrary: k s)
    case (Suc n)
    obtain q u where q: "m s = (q, u)" by fastforce
    have "I u" using keepsD [OF m Suc.prems(2) q] .
    with Suc.IH [of _ u] Suc.prems(1) q show ?case by (cases q) (auto split: option.splits if_splits)
  qed simp
  then show ?thesis unfolding keeps_def ctx_retry_def retry_storage_op_def
    by (auto split: option.splits prod.splits simp del: retry_loop.simps)
qed

lemma keeps_env:
  "keeps J (is_cancelled ctx)" "keeps J (send_message ctx msg)" "keeps J (send_to_index_task ctx msg)"
  "keeps J (take_pending i)" "keeps J (send_close ctx)" "keeps I m \<Longrightarrow> keeps J (on_storage m)"
  by (auto simp: keeps_def is_cancelled_def send_message_def send_to_index_task_def take_pending_def send_close_def
      on_storage_def split: prod.splits)

lemma keeps_submit: "keeps J (submit_or_defer_block ops ctx b sz n)"
  by (auto simp: keeps_def submit_or_defer_block_def send_message_def split: option.splits prod.splits)

lemmas keeps_parts = keeps_retry [OF frame(1)] keeps_retry [OF frame(2)] keeps_retry [OF frame(3)] keeps_retry [OF frame(4)]
  keeps_retry [OF frame(6)] keeps_retry [OF frame(7)] keeps_retry [OF frame(9)] keeps_retry [OF frame(10)]
  keeps_retry [OF frame(11)] keeps_retry [OF frame(12)] keeps_env(1-5) keeps_env(6) [OF frame(5)] keeps_submit

lemma keeps_complete: "keeps J (complete_and_notify ops ctx fo n v)"
  unfolding complete_and_notify_def maybe_complete_file_def by (intro spec_rules keeps_parts)

lemma keeps_apply_files: "keeps J (apply_files ops ctx fo files)"
  by (induction files) (auto simp: send_index_update_def intro!: spec_rules keeps_parts split: update_result.splits)

lemma keeps_request_needed: "keeps J (request_needed ops ctx fo needed)"
proof -
  have "keeps J (request_loop ops ctx fo fi i bs)" for fi i bs
    by (induction bs arbitrary: i) (auto intro!: spec_rules keeps_parts)
  then show ?thesis by (induction needed) (auto simp: request_blocks_def intro!: spec_rules keeps_complete)
qed

lemma keeps_drain: "keeps J (drain_loop n ops ctx)"
proof (induction n)
  case (Suc n)
  have "keeps J (mod_st (\<lambda>c. c\<lparr>cn_deferred_blocks := ds\<rparr>))" for ds by (simp add: keeps_def op_simps)
  then have "keeps J (case queue of [] \<Rightarrow> ok ()
           | d # ds \<Rightarrow>
               bnd (mod_st (\<lambda>c. c\<lparr>cn_deferred_blocks := ds\<rparr>)) (\<lambda>_.
               bnd (ctx_retry ctx (op_reuse_block ops (fb_folder (dq_block d)) (fb_name (dq_block d))
                      (fb_offset (dq_block d)) (fb_hash (dq_block d)) (dq_size d))) (\<lambda>reused.
                 if reused then
                   bnd (complete_and_notify ops ctx (fb_folder (dq_block d)) (fb_name (dq_block d)) (fb_version (dq_block d)))
                     (\<lambda>_. drain_loop n ops ctx)
                 else
                   bnd (submit_or_defer_block ops ctx (dq_block d) (dq_size d) (dq_block_no d))
                     (\<lambda>_. drain_loop n ops ctx))))" for queue
    by (cases queue) (auto intro!: spec_rules keeps_parts keeps_complete Suc)
  then show ?case by (auto intro!: spec_rules keeps_parts)
qed (auto intro!: spec_rules)

lemma keeps_dispatch: "keeps J (dispatch_message ops ctx msg)"
proof -
  have drain: "keeps J (drain_deferred ops ctx)" 
    unfolding keeps_def drain_deferred_def using keepsD [OF keeps_drain _ prod.collapse [symmetric]] by blast
  have index: "keeps J (send_indexes ops ctx fs)" for fs
    by (induction fs) (auto simp: send_index_def intro!: spec_rules keeps_parts)
  have build: "keeps J (build_folders ops ctx l r fs)" for l r fs
    by (induction fs) (auto intro!: spec_rules keeps_parts)
  have upd: "keeps J (mod_st (\<lambda>c. c\<lparr>cn_mutual_folders := f c, cn_our_cc_folders := g c\<rparr>))" for f g
    by (simp add: keeps_def op_simps)
  show ?thesis unfolding dispatch_message_def Let_def handle_request_def handle_response_def
      handle_cluster_config_update_def process_peer_cc_def build_cluster_config_def
    by (cases msg) (auto intro!: spec_rules keeps_parts keeps_complete drain index build upd)
qed

lemma keeps_loop_event: "keeps J (loop_event ops ctx ev)"
  unfolding loop_event_def by (cases ev) (auto intro!: spec_rules keeps_parts keeps_dispatch)

end

lemma slate_framed:
  assumes "slate_laws db A"
  shows "framed_storage (slate_ops env db lib) (has_record A sk dev x)"
proof -
  note k = lawful_db.keeps_handle [OF lawful_db.intro [OF assms]]
  show ?thesis
    by unfold_locales (auto simp: slate_ops_def split: prod.splits
        intro!: keeps_record_folder keeps_record_resolve keeps_on_store spec_rules k)
qed

interpretation rbt_frame: framed_storage "slate_ops mem_storage rbt_slate tagged_lib" "has_record RBT.lookup sk dev x" for sk dev x
  by (rule slate_framed [OF rbt_slate_laws])

section \<open>The record of a peer is written last\<close>

lemma retry_last:
  assumes "retry_loop n p sh m k s = Some (r, t)" and "P s" and "\<And>s r t. P s \<Longrightarrow> m s = (r, t) \<Longrightarrow> P t \<and> (r = Inr () \<longrightarrow> Q t)"
  shows "P t \<and> (r = Inr () \<longrightarrow> Q t)"
  using assms(1,2)
proof (induction n arbitrary: k s)
  case (Suc n)
  obtain q u where q: "m s = (q, u)" by fastforce
  with assms(3) [OF Suc.prems(2) q] Suc.IH [of _ u] Suc.prems(1) show ?case
    by (cases q) (auto split: option.splits if_splits)
qed simp

lemma set_record:
  assumes db: "slate_laws db A"
    and v: "v = enc_remote lib \<lparr>ri_index_id = rs_index_id q, ri_max_sequence = rs_max_sequence q\<rparr>"
    and run: "on_store sk' (slate_set_remote_state db lib dev' q) s = (r, t)"
  shows "peer_record A s sk dev = Some x \<or> sk' = sk \<and> dev' = dev \<and> peer_record A s sk dev = Some (Some v) \<Longrightarrow>
      peer_record A t sk dev = Some x \<or> sk' = sk \<and> dev' = dev \<and> peer_record A t sk dev = Some (Some v)"
    "r = Inr () \<Longrightarrow> peer_record A t sk' dev' = Some (Some v)"
proof -
  have wr: "A d' = A d \<and> (\<exists>e. w = Inl e) \<or> A d' = (A d)(device_key dev' \<mapsto> v)"
    if "db_write db [BPut (device_key dev') v] d = (w, d')" for d w d'
    using db that unfolding slate_laws_def write_law_def by fastforce
  from run have "(peer_record A s sk dev = Some x \<or> sk' = sk \<and> dev' = dev \<and> peer_record A s sk dev = Some (Some v) \<longrightarrow>
      peer_record A t sk dev = Some x \<or> sk' = sk \<and> dev' = dev \<and> peer_record A t sk dev = Some (Some v)) \<and>
    (r = Inr () \<longrightarrow> peer_record A t sk' dev' = Some (Some v))"
  proof (cases rule: on_store_open)
    case (run fs fs')
    obtain w d' where w: "db_write db [BPut (device_key dev') v] (fs_db fs) = (w, d')" by fastforce
    with run(2) v have fs': "fs_db fs' = d'" "r = map_sum slate_err id w"
      by (auto simp: slate_set_remote_state_def put_remote_state_def put_non_durable_def on_db_def)
    have key: "device_key dev' = device_key dev \<longleftrightarrow> dev' = dev" by (simp add: device_key_def)
    show ?thesis using wr [OF w] run(1,3) fs' key by (auto simp: peer_record_def)
  qed auto
  then show "peer_record A s sk dev = Some x \<or> sk' = sk \<and> dev' = dev \<and> peer_record A s sk dev = Some (Some v) \<Longrightarrow>
      peer_record A t sk dev = Some x \<or> sk' = sk \<and> dev' = dev \<and> peer_record A t sk dev = Some (Some v)"
    "r = Inr () \<Longrightarrow> peer_record A t sk' dev' = Some (Some v)" by blast+
qed

text \<open>A batch of the peer has been dealt with up to the record, for a folder with a given store.\<close>

definition batch_done ::
  "('s, slate_folder \<times> bytes) storage_ops \<Rightarrow> connection_context \<Rightarrow> bytes \<Rightarrow> file_info list \<Rightarrow> bytes \<Rightarrow>
   ('s, slate_folder \<times> bytes) connection \<Rightarrow> bool" where
  "batch_done ops ctx i files sk c \<longleftrightarrow>
     (\<exists>fo c1 needed c2 c3. ctx_retry ctx (op_folder ops i) c = (Inr (fo, sk), c1) \<and>
        apply_files ops ctx (fo, sk) files c1 = (Inr needed, c2) \<and> request_needed ops ctx (fo, sk) needed c2 = (Inr (), c3))"

lemma apply_remote_index_cases:
  assumes run: "apply_remote_index ops ctx i files l c = (r, d)"
    and I: "framed_storage ops I" "I (cn_storage c)"
  obtains (early) e where "r = Inl e" "I (cn_storage d)"
  | (late) index_id fo sk c3 where "map_of (cn_mutual_folders c) i = Some index_id" "batch_done ops ctx i files sk c"
      "I (cn_storage c3)" "ctx_retry ctx (op_set_remote_state ops (fo, sk) (cx_remote_device ctx)
         \<lparr>rs_index_id = index_id, rs_max_sequence = l\<rparr>) c3 = (r, d)"
proof (cases "map_of (cn_mutual_folders c) i")
  case None
  with run I(2) early show ?thesis by (auto simp: apply_remote_index_def bnd_def op_simps)
next
  case (Some index_id)
  obtain q1 c1 where q1: "ctx_retry ctx (op_folder ops i) c = (q1, c1)" by fastforce
  note fr = framed_storage.keeps_parts(1) [OF I(1)] framed_storage.keeps_apply_files [OF I(1)]
    framed_storage.keeps_request_needed [OF I(1)]
  have c1: "I (cn_storage c1)" by (rule keepsD [OF fr(1) I(2) q1])
  show ?thesis
  proof (cases q1)
    case (Inl e)
    with run Some q1 c1 early show ?thesis by (auto simp: apply_remote_index_def bnd_def op_simps)
  next
    case (Inr h)
    obtain fo sk where h: "h = (fo, sk)" by fastforce
    obtain q2 c2 where q2: "apply_files ops ctx h files c1 = (q2, c2)" by fastforce
    have c2: "I (cn_storage c2)" by (rule keepsD [OF fr(2) c1 q2])
    show ?thesis
    proof (cases q2)
      case (Inl e)
      with run Some q1 Inr q2 c2 early show ?thesis by (auto simp: apply_remote_index_def bnd_def op_simps)
    next
      case needed: (Inr needed)
      obtain q3 c3 where q3: "request_needed ops ctx h needed c2 = (q3, c3)" by fastforce
      have c3: "I (cn_storage c3)" by (rule keepsD [OF fr(3) c2 q3])
      show ?thesis
      proof (cases q3)
        case (Inl e)
        with run Some q1 Inr q2 needed q3 c3 early show ?thesis by (auto simp: apply_remote_index_def bnd_def op_simps)
      next
        case u: (Inr u)
        have "batch_done ops ctx i files sk c" unfolding batch_done_def using q1 q2 q3 Inr needed u h by auto
        moreover have "ctx_retry ctx (op_set_remote_state ops (fo, sk) (cx_remote_device ctx)
            \<lparr>rs_index_id = index_id, rs_max_sequence = l\<rparr>) c3 = (r, d)"
          using run Some q1 Inr q2 needed q3 u h by (simp add: apply_remote_index_def bnd_def op_simps)
        ultimately show ?thesis using late Some c3 by blast
      qed
    qed
  qed
qed

lemma ctx_set_record:
  fixes c d :: "(('o, 'd, 'b) slate_storage, slate_folder \<times> bytes) connection"
  assumes db: "slate_laws db A"
    and run: "ctx_retry ctx (op_set_remote_state (slate_ops env db lib) (fo, sk') dev' q) c = (r, d)"
    and x: "peer_record A (cn_storage c) sk dev = Some x"
  shows "(peer_record A (cn_storage d) sk dev = Some x \<or> sk' = sk \<and> dev' = dev) \<and>
    (r = Inr () \<longrightarrow> peer_record A (cn_storage d) sk' dev' =
       Some (Some (enc_remote lib \<lparr>ri_index_id = rs_index_id q, ri_max_sequence = rs_max_sequence q\<rparr>)))"
proof -
  let ?v = "enc_remote lib \<lparr>ri_index_id = rs_index_id q, ri_max_sequence = rs_max_sequence q\<rparr>"
  let ?m = "op_set_remote_state (slate_ops env db lib) (fo, sk') dev' q"
  define P where "P s \<longleftrightarrow> peer_record A s sk dev = Some x \<or> sk' = sk \<and> dev' = dev \<and> peer_record A s sk dev = Some (Some ?v)"
    for s :: "('o, 'd, 'b) slate_storage"
  define Q where "Q s \<longleftrightarrow> peer_record A s sk' dev' = Some (Some ?v)" for s :: "('o, 'd, 'b) slate_storage"
  have step: "P t \<and> (w = Inr () \<longrightarrow> Q t)" if "P s" "?m s = (w, t)" for s w t
  proof -
    from that(2) have run: "on_store sk' (slate_set_remote_state db lib dev' q) s = (w, t)" by (simp add: slate_ops_def)
    from set_record [OF db refl run] that(1) show ?thesis unfolding P_def Q_def by blast
  qed
  have P: "P (cn_storage c)" using x by (simp add: P_def)
  have "P (cn_storage d) \<and> (r = Inr () \<longrightarrow> Q (cn_storage d))"
  proof (cases "retry_loop (Suc (unat (cx_limit ctx))) (cx_policy ctx) (cx_interrupted ctx (cn_clock c)) ?m 0 (cn_storage c)")
    case None
    with run P show ?thesis unfolding ctx_retry_def retry_storage_op_def by (auto simp del: retry_loop.simps)
  next
    case (Some p)
    obtain w t where p: "p = (w, t)" by fastforce
    have "P t \<and> (w = Inr () \<longrightarrow> Q t)"
      by (rule retry_last [where P = P and Q = Q, OF Some [unfolded p] P]) (rule step)
    with run Some p show ?thesis unfolding ctx_retry_def retry_storage_op_def by (auto simp del: retry_loop.simps)
  qed
  then show ?thesis by (auto simp: P_def Q_def)
qed


text \<open>A storage with one folder whose store is open, and a connection that shares the folder.\<close>

definition one_folder :: "(meta objects, (bytes, tagged) RBT.rbt, bloom_item list) slate_storage" where
  "one_folder =
     \<lparr>ss_objects = [],
      ss_activated = Some \<lparr>ac_epoch = epoch0, ac_stores = [(''folder_0'', store0)],
        ac_state = meta_state_from (meta_default\<lparr>m_folders := [(''0'', \<lparr>fe_id = ''d'', fe_label = ''docs''\<rparr>)]\<rparr>),
        ac_cache = True\<rparr>\<rparr>"

definition one_peer :: "((meta objects, (bytes, tagged) RBT.rbt, bloom_item list) slate_storage, slate_folder \<times> bytes) connection" where
  "one_peer = connection_new one_folder [(''d'', 7)] [''d''] 0 [] 0"

lemma one_folder_handle:
  "folder mem_storage rbt_slate tagged_lib ''d'' one_folder =
     (Inr (\<lparr>sfo_id = ''d'', sfo_label = ''docs'', sfo_epoch = Some epoch0\<rparr>, ''folder_0''), one_folder)"
  by (simp add: folder_def one_folder_def the_activated_def resolve_folder_def resolve_in_def meta_state_from_def
      store_for_folder_def folder_storage_key_def bnd_def op_simps)


end
